(* ===== verification/Prelude.thy ===== *)
theory Prelude
  imports Main
begin

text \<open>
  Shared ground of the development: the Rust \<open>Result\<close> type, the 64-bit integer
  operations the source calls by name (\<open>checked_add\<close>, \<open>saturating_mul\<close>, ...), the
  fragment of SQL the storage layer uses (tables as lists of rows, \<open>UPDATE\<close>,
  \<open>DELETE\<close>, rowid allocation, comparison with NULL) and the interfaces several
  components implement: a closed vocabulary with a printer and a parser, and a
  row update that keeps the primary key.
\<close>

named_theorems sql_simps
named_theorems i64_simps

section \<open>Results\<close>

datatype ('a, 'e) result = Ok 'a | Err 'e

fun is_ok :: "('a, 'e) result \<Rightarrow> bool" where
  "is_ok (Ok _) = True"
| "is_ok (Err _) = False"

fun and_then :: "('a, 'e) result \<Rightarrow> ('a \<Rightarrow> ('b, 'e) result) \<Rightarrow> ('b, 'e) result" where
  "and_then (Ok x) f = f x"
| "and_then (Err e) f = Err e"

fun map_ok :: "('a \<Rightarrow> 'b) \<Rightarrow> ('a, 'e) result \<Rightarrow> ('b, 'e) result" where
  "map_ok f (Ok x) = Ok (f x)"
| "map_ok f (Err e) = Err e"

fun ok_or :: "'a option \<Rightarrow> 'e \<Rightarrow> ('a, 'e) result" where
  "ok_or (Some x) e = Ok x"
| "ok_or None e = Err e"

text \<open>A \<open>for\<close> loop whose body uses \<open>?\<close>: the first error leaves the loop.\<close>

fun try_fold :: "('a \<Rightarrow> 's \<Rightarrow> ('s, 'e) result) \<Rightarrow> 'a list \<Rightarrow> 's \<Rightarrow> ('s, 'e) result" where
  "try_fold f [] s = Ok s"
| "try_fold f (x # xs) s = and_then (f x s) (try_fold f xs)"

lemma and_then_Ok_iff: "and_then r f = Ok y \<longleftrightarrow> (\<exists>x. r = Ok x \<and> f x = Ok y)"
  by (cases r) auto

lemma and_then_Err_iff:
  "and_then r f = Err e \<longleftrightarrow> r = Err e \<or> (\<exists>x. r = Ok x \<and> f x = Err e)"
  by (cases r) auto

lemma try_fold_invariant:
  assumes "try_fold f xs s = Ok s'" and "I s"
    and "\<And>x s s'. x \<in> set xs \<Longrightarrow> I s \<Longrightarrow> f x s = Ok s' \<Longrightarrow> I s'"
  shows "I s'"
  using assms
proof (induction xs arbitrary: s)
  case (Cons x xs)
  then obtain u where u: "f x s = Ok u" "try_fold f xs u = Ok s'"
    by (auto simp: and_then_Ok_iff)
  have "I u" using Cons.prems(2,3) u(1) by auto
  with u(2) show ?case using Cons.IH Cons.prems(3) by auto
qed simp

lemma map_ok_Ok_iff: "map_ok f r = Ok y \<longleftrightarrow> (\<exists>x. r = Ok x \<and> y = f x)"
  by (cases r) auto

lemma ok_or_Ok_iff: "ok_or x e = Ok y \<longleftrightarrow> x = Some y"
  by (cases x) auto

lemma is_ok_iff: "is_ok r \<longleftrightarrow> (\<exists>x. r = Ok x)"
  by (cases r) auto

section \<open>Machine integers\<close>

text \<open>
  A Rust \<open>i64\<close> or \<open>u64\<close> is an \<open>int\<close> inside its range. Arithmetic the source performs
  through the checked or saturating methods is modelled by the functions below.
\<close>

definition i64_min :: int where "i64_min = - 9223372036854775808"
definition i64_max :: int where "i64_max = 9223372036854775807"
definition u64_max :: int where "u64_max = 18446744073709551615"

definition in_i64 :: "int \<Rightarrow> bool" where
  "in_i64 x \<longleftrightarrow> i64_min \<le> x \<and> x \<le> i64_max"

definition in_u64 :: "int \<Rightarrow> bool" where
  "in_u64 x \<longleftrightarrow> 0 \<le> x \<and> x \<le> u64_max"

definition checked_i64 :: "int \<Rightarrow> int option" where
  "checked_i64 x = (if in_i64 x then Some x else None)"

definition sat_i64 :: "int \<Rightarrow> int" where
  "sat_i64 x = max i64_min (min i64_max x)"

definition sat_u64 :: "int \<Rightarrow> int" where
  "sat_u64 x = max 0 (min u64_max x)"

text \<open>Plain \<open>+\<close> on \<open>i64\<close>: two's complement wrap-around, as in a release build.\<close>

definition wrap_i64 :: "int \<Rightarrow> int" where
  "wrap_i64 x = (x + 9223372036854775808) mod 18446744073709551616 - 9223372036854775808"

definition i64_checked_add :: "int \<Rightarrow> int \<Rightarrow> int option" where
  "i64_checked_add a b = checked_i64 (a + b)"

definition i64_checked_sub :: "int \<Rightarrow> int \<Rightarrow> int option" where
  "i64_checked_sub a b = checked_i64 (a - b)"

definition i64_checked_mul :: "int \<Rightarrow> int \<Rightarrow> int option" where
  "i64_checked_mul a b = checked_i64 (a * b)"

definition i64_saturating_add :: "int \<Rightarrow> int \<Rightarrow> int" where
  "i64_saturating_add a b = sat_i64 (a + b)"

definition i64_saturating_sub :: "int \<Rightarrow> int \<Rightarrow> int" where
  "i64_saturating_sub a b = sat_i64 (a - b)"

definition i64_saturating_mul :: "int \<Rightarrow> int \<Rightarrow> int" where
  "i64_saturating_mul a b = sat_i64 (a * b)"

definition u64_saturating_add :: "int \<Rightarrow> int \<Rightarrow> int" where
  "u64_saturating_add a b = sat_u64 (a + b)"

definition u64_saturating_sub :: "int \<Rightarrow> int \<Rightarrow> int" where
  "u64_saturating_sub a b = sat_u64 (a - b)"

definition u64_saturating_mul :: "int \<Rightarrow> int \<Rightarrow> int" where
  "u64_saturating_mul a b = sat_u64 (a * b)"

lemmas i64_bounds [i64_simps] = i64_min_def i64_max_def u64_max_def in_i64_def in_u64_def
lemmas i64_ops [i64_simps] =
  i64_checked_add_def i64_checked_sub_def i64_checked_mul_def i64_saturating_add_def
  i64_saturating_sub_def i64_saturating_mul_def u64_saturating_add_def
  u64_saturating_sub_def u64_saturating_mul_def checked_i64_def

lemma wrap_i64_range: "in_i64 (wrap_i64 x)"
  by (auto simp: wrap_i64_def i64_bounds)

lemma wrap_i64_id: "in_i64 x \<Longrightarrow> wrap_i64 x = x"
  by (simp add: wrap_i64_def i64_bounds)

lemma sat_i64_range: "in_i64 (sat_i64 x)"
  by (auto simp: sat_i64_def i64_bounds)

lemma sat_u64_range: "in_u64 (sat_u64 x)"
  by (auto simp: sat_u64_def i64_bounds)

lemma sat_i64_id: "in_i64 x \<Longrightarrow> sat_i64 x = x"
  by (auto simp: sat_i64_def i64_bounds)

lemma sat_u64_id: "in_u64 x \<Longrightarrow> sat_u64 x = x"
  by (auto simp: sat_u64_def i64_bounds)

lemma sat_i64_mono: "x \<le> y \<Longrightarrow> sat_i64 x \<le> sat_i64 y"
  by (auto simp: sat_i64_def)

lemma sat_u64_mono: "x \<le> y \<Longrightarrow> sat_u64 x \<le> sat_u64 y"
  by (auto simp: sat_u64_def)

lemma checked_i64_Some_iff: "checked_i64 x = Some y \<longleftrightarrow> in_i64 x \<and> y = x"
  by (auto simp: checked_i64_def)

section \<open>Tables\<close>

text \<open>
  A table is the list of its rows in rowid order. \<open>sql_update\<close> is
  \<open>UPDATE t SET .. WHERE ..\<close>, whose affected-row count is \<open>sql_count\<close> of the same
  condition on the table before the statement; \<open>sql_delete\<close> is \<open>DELETE FROM t WHERE ..\<close>.
  The comparisons \<open>null_eq\<close>, \<open>null_le\<close>, \<open>null_less\<close> are \<open>=\<close>, \<open><=\<close>, \<open><\<close> in a WHERE clause:
  a NULL operand makes the condition not true.
\<close>

definition sql_update :: "('r \<Rightarrow> bool) \<Rightarrow> ('r \<Rightarrow> 'r) \<Rightarrow> 'r list \<Rightarrow> 'r list" where
  "sql_update P f t = map (\<lambda>r. if P r then f r else r) t"

definition sql_count :: "('r \<Rightarrow> bool) \<Rightarrow> 'r list \<Rightarrow> nat" where
  "sql_count P t = length (filter P t)"

definition sql_delete :: "('r \<Rightarrow> bool) \<Rightarrow> 'r list \<Rightarrow> 'r list" where
  "sql_delete P t = filter (\<lambda>r. \<not> P r) t"

definition sql_exists :: "('r \<Rightarrow> bool) \<Rightarrow> 'r list \<Rightarrow> bool" where
  "sql_exists P t = list_ex P t"

definition next_rowid :: "int list \<Rightarrow> int" where
  "next_rowid ids = (if ids = [] then 1 else fold max (tl ids) (hd ids) + 1)"

fun null_eq :: "'a option \<Rightarrow> 'a \<Rightarrow> bool" where
  "null_eq None y = False"
| "null_eq (Some x) y = (x = y)"

fun null_le :: "int option \<Rightarrow> int \<Rightarrow> bool" where
  "null_le None y = False"
| "null_le (Some x) y = (x \<le> y)"

fun null_less :: "int option \<Rightarrow> int \<Rightarrow> bool" where
  "null_less None y = False"
| "null_less (Some x) y = (x < y)"

fun null_ge :: "int option \<Rightarrow> int \<Rightarrow> bool" where
  "null_ge None y = False"
| "null_ge (Some x) y = (x \<ge> y)"

fun null_greater :: "int option \<Rightarrow> int \<Rightarrow> bool" where
  "null_greater None y = False"
| "null_greater (Some x) y = (x > y)"

fun coalesce :: "'a option \<Rightarrow> 'a option \<Rightarrow> 'a option" where
  "coalesce None y = y"
| "coalesce (Some x) y = Some x"

lemma null_eq_iff [simp]: "null_eq x y \<longleftrightarrow> x = Some y"
  by (cases x) auto

lemma sql_exists_iff [sql_simps]: "sql_exists P t \<longleftrightarrow> (\<exists>r \<in> set t. P r)"
  by (simp add: sql_exists_def list_ex_iff)

lemma set_sql_delete [sql_simps]: "set (sql_delete P t) = {r \<in> set t. \<not> P r}"
  by (auto simp: sql_delete_def)

lemma set_sql_update [sql_simps]:
  "set (sql_update P f t) = {r \<in> set t. \<not> P r} \<union> f ` {r \<in> set t. P r}"
  by (auto simp: sql_update_def)

lemma in_sql_update_iff:
  "r' \<in> set (sql_update P f t) \<longleftrightarrow> (\<exists>r \<in> set t. r' = (if P r then f r else r))"
  by (auto simp: sql_update_def)

lemma length_sql_update [simp]: "length (sql_update P f t) = length t"
  by (simp add: sql_update_def)

lemma sql_count_zero_iff: "sql_count P t = 0 \<longleftrightarrow> (\<forall>r \<in> set t. \<not> P r)"
  by (simp add: sql_count_def filter_empty_conv)

lemma sql_update_none: "\<forall>r \<in> set t. \<not> P r \<Longrightarrow> sql_update P f t = t"
  by (simp add: sql_update_def map_idI)

lemma fold_max_ge: "(x::int) \<le> fold max xs x"
proof (induction xs arbitrary: x)
  case (Cons a xs)
  have "x \<le> max a x" by simp
  also have "\<dots> \<le> fold max xs (max a x)" by (rule Cons.IH)
  finally show ?case by simp
qed simp

lemma fold_max_ge_mem: "y \<in> set xs \<Longrightarrow> (y::int) \<le> fold max xs x"
proof (induction xs arbitrary: x)
  case (Cons a xs)
  show ?case
  proof (cases "y = a")
    case True
    have "a \<le> max a x" by simp
    also have "\<dots> \<le> fold max xs (max a x)" by (rule fold_max_ge)
    finally show ?thesis using True by simp
  next
    case False
    then show ?thesis using Cons by simp
  qed
qed simp

lemma next_rowid_greater: "k \<in> set ids \<Longrightarrow> k < next_rowid ids"
  by (cases ids)
    (auto simp: next_rowid_def zless_add1_eq le_less[symmetric] fold_max_ge fold_max_ge_mem)

lemma next_rowid_fresh: "next_rowid ids \<notin> set ids"
  using next_rowid_greater by blast

lemma sort_key_Nil_iff [simp]: "sort_key k xs = [] \<longleftrightarrow> xs = []"
  using length_sort[of k xs] by (metis length_0_conv)

section \<open>Interfaces\<close>

text \<open>
  A primary key that an \<open>UPDATE\<close> leaves alone. Every row update of the storage layer
  is an instance; uniqueness of the key and lookups by key follow once.
\<close>

definition row_by :: "('r \<Rightarrow> int) \<Rightarrow> int \<Rightarrow> 'r list \<Rightarrow> 'r option" where
  "row_by key k t = find (\<lambda>r. key r = k) t"

lemma row_by_Some: "row_by key k t = Some r \<Longrightarrow> r \<in> set t \<and> key r = k"
  by (auto simp: row_by_def find_Some_iff)

lemma row_by_None_iff: "row_by key k t = None \<longleftrightarrow> k \<notin> key ` set t"
  by (auto simp: row_by_def find_None_iff)

lemma row_by_mem:
  fixes key :: "'r \<Rightarrow> int"
  assumes "distinct (map key t)" and "r \<in> set t"
  shows "row_by key (key r) t = Some r"
  using assms by (induction t) (auto simp: row_by_def image_iff)

lemma row_by_unique:
  fixes key :: "'r \<Rightarrow> int"
  assumes "distinct (map key t)" "r \<in> set t" "s \<in> set t" "key r = key s"
  shows "r = s"
  using assms by (metis row_by_mem option.inject)

lemma distinct_sql_delete: "distinct (map key t) \<Longrightarrow> distinct (map key (sql_delete P t))"
  by (simp add: sql_delete_def distinct_map_filter)

lemma distinct_insert_fresh:
  "distinct (map key t) \<Longrightarrow> key r = next_rowid (map key t) \<Longrightarrow> distinct (map key (t @ [r]))"
  using next_rowid_fresh[of "map key t"] by auto

locale row_update =
  fixes key :: "'r \<Rightarrow> int" and f :: "'r \<Rightarrow> 'r"
  assumes key_kept: "key (f r) = key r"
begin

lemma keys_sql_update [simp]: "map key (sql_update P f t) = map key t"
  by (auto simp: sql_update_def key_kept)

lemma row_by_sql_update:
  "row_by key k (sql_update P f t)
   = map_option (\<lambda>r. if P r then f r else r) (row_by key k t)"
  by (induction t) (auto simp: row_by_def sql_update_def key_kept)

lemma distinct_sql_update: "distinct (map key t) \<Longrightarrow> distinct (map key (sql_update P f t))"
  by simp

end

text \<open>
  A closed vocabulary: a printer and a parser that agree. The stored spellings of
  the state enums are instances.
\<close>

locale vocabulary =
  fixes to_str :: "'a \<Rightarrow> string" and of_str :: "string \<Rightarrow> ('a, 'e) result"
  assumes parse_print: "of_str (to_str x) = Ok x"
    and print_parse: "of_str s = Ok x \<Longrightarrow> to_str x = s"
begin

lemma print_inj: "inj to_str"
proof (rule injI)
  fix x y assume "to_str x = to_str y"
  then have "(Ok x :: ('a, 'e) result) = Ok y" by (metis parse_print)
  then show "x = y" by simp
qed

lemma accepts_iff: "is_ok (of_str s) \<longleftrightarrow> s \<in> range to_str"
  by (metis is_ok_iff parse_print print_parse rangeE rangeI)

lemma parse_iff: "of_str s = Ok x \<longleftrightarrow> s = to_str x"
  using parse_print print_parse by metis

end

end
