(* ===== verification/State_Machine.thy ===== *)
theory State_Machine
  imports Prelude
begin

text \<open>
  The closed vocabularies and the two lifecycle state machines of \<open>loupe-core\<close>
  (\<open>job.rs\<close>, \<open>finding_state.rs\<close>, \<open>severity.rs\<close>, \<open>state_machine.rs\<close>): job and finding
  states, job kinds, their stored spellings, the transition tables and the roll-up of
  verdicts. The storage theories refer to these tables for every state they write.
\<close>

section \<open>Job states and kinds\<close>

datatype job_state = Queued | Leased | Succeeded | Failed | Cancelled

datatype core_error =
    UnknownJobState string
  | UnknownFindingState string
  | UnknownSeverity string

fun job_state_as_str :: "job_state \<Rightarrow> string" where
  "job_state_as_str Queued = ''queued''"
| "job_state_as_str Leased = ''leased''"
| "job_state_as_str Succeeded = ''succeeded''"
| "job_state_as_str Failed = ''failed''"
| "job_state_as_str Cancelled = ''cancelled''"

definition is_terminal :: "job_state \<Rightarrow> bool" where
  "is_terminal s = (case s of Succeeded \<Rightarrow> True | Failed \<Rightarrow> True | Cancelled \<Rightarrow> True | _ \<Rightarrow> False)"

definition job_state_from_str :: "string \<Rightarrow> (job_state, core_error) result" where
  "job_state_from_str s =
    (if s = ''queued'' then Ok Queued
     else if s = ''leased'' then Ok Leased
     else if s = ''succeeded'' then Ok Succeeded
     else if s = ''failed'' then Ok Failed
     else if s = ''cancelled'' then Ok Cancelled
     else Err (UnknownJobState s))"

interpretation job_state: vocabulary job_state_as_str job_state_from_str
proof unfold_locales
  show "job_state_from_str (job_state_as_str x) = Ok x" for x
    by (cases x) (simp_all add: job_state_from_str_def)
  show "job_state_as_str x = s" if "job_state_from_str s = Ok x" for s x
    using that by (auto simp: job_state_from_str_def split: if_splits)
qed

text \<open>
  \<open>JobKind::Unknown\<close> carries the stored spelling. Rust equality compares the
  constructor and the text, which is equality of the datatype.
\<close>

datatype job_kind = Scan | Verify | Survey | Drilldown | Unknown string

definition job_kind_from_text :: "string \<Rightarrow> job_kind" where
  "job_kind_from_text s =
    (if s = ''scan'' then Scan
     else if s = ''verify'' then Verify
     else if s = ''survey'' then Survey
     else if s = ''drilldown'' then Drilldown
     else Unknown s)"

fun job_kind_as_str :: "job_kind \<Rightarrow> string" where
  "job_kind_as_str Scan = ''scan''"
| "job_kind_as_str Verify = ''verify''"
| "job_kind_as_str Survey = ''survey''"
| "job_kind_as_str Drilldown = ''drilldown''"
| "job_kind_as_str (Unknown raw) = raw"

definition is_legacy :: "job_kind \<Rightarrow> bool" where
  "is_legacy k = (case k of Scan \<Rightarrow> True | _ \<Rightarrow> False)"

definition is_phase :: "job_kind \<Rightarrow> bool" where
  "is_phase k = (case k of Survey \<Rightarrow> True | Drilldown \<Rightarrow> True | _ \<Rightarrow> False)"

definition is_known :: "job_kind \<Rightarrow> bool" where
  "is_known k = (case k of Unknown _ \<Rightarrow> False | _ \<Rightarrow> True)"

lemma job_kind_text_round_trip: "job_kind_as_str (job_kind_from_text s) = s"
  by (simp add: job_kind_from_text_def)

lemma job_kind_known_round_trip: "is_known k \<Longrightarrow> job_kind_from_text (job_kind_as_str k) = k"
  by (cases k) (simp_all add: is_known_def job_kind_from_text_def)

section \<open>Finding states and severities\<close>

datatype finding_state =
  Pending | Validating | AwaitingApproval | Confirmed | Dismissed | Reported

fun finding_state_as_str :: "finding_state \<Rightarrow> string" where
  "finding_state_as_str Pending = ''pending''"
| "finding_state_as_str Validating = ''validating''"
| "finding_state_as_str AwaitingApproval = ''awaiting_approval''"
| "finding_state_as_str Confirmed = ''confirmed''"
| "finding_state_as_str Dismissed = ''dismissed''"
| "finding_state_as_str Reported = ''reported''"

definition finding_state_from_str :: "string \<Rightarrow> (finding_state, core_error) result" where
  "finding_state_from_str s =
    (if s = ''pending'' then Ok Pending
     else if s = ''validating'' then Ok Validating
     else if s = ''awaiting_approval'' then Ok AwaitingApproval
     else if s = ''confirmed'' then Ok Confirmed
     else if s = ''dismissed'' then Ok Dismissed
     else if s = ''reported'' then Ok Reported
     else Err (UnknownFindingState s))"

interpretation finding_state: vocabulary finding_state_as_str finding_state_from_str
proof unfold_locales
  show "finding_state_from_str (finding_state_as_str x) = Ok x" for x
    by (cases x) (simp_all add: finding_state_from_str_def)
  show "finding_state_as_str x = s" if "finding_state_from_str s = Ok x" for s x
    using that by (auto simp: finding_state_from_str_def split: if_splits)
qed

datatype severity = Info | Low | Medium | High | Critical

fun severity_as_str :: "severity \<Rightarrow> string" where
  "severity_as_str Info = ''info''"
| "severity_as_str Low = ''low''"
| "severity_as_str Medium = ''medium''"
| "severity_as_str High = ''high''"
| "severity_as_str Critical = ''critical''"

definition severity_from_str :: "string \<Rightarrow> (severity, core_error) result" where
  "severity_from_str s =
    (if s = ''info'' then Ok Info
     else if s = ''low'' then Ok Low
     else if s = ''medium'' then Ok Medium
     else if s = ''high'' then Ok High
     else if s = ''critical'' then Ok Critical
     else Err (UnknownSeverity s))"

interpretation severity: vocabulary severity_as_str severity_from_str
proof unfold_locales
  show "severity_from_str (severity_as_str x) = Ok x" for x
    by (cases x) (simp_all add: severity_from_str_def)
  show "severity_as_str x = s" if "severity_from_str s = Ok x" for s x
    using that by (auto simp: severity_from_str_def split: if_splits)
qed

text \<open>The derived Rust order: constructors in declaration order, least severe first.\<close>

fun severity_rank :: "severity \<Rightarrow> nat" where
  "severity_rank Info = 0"
| "severity_rank Low = 1"
| "severity_rank Medium = 2"
| "severity_rank High = 3"
| "severity_rank Critical = 4"

lemma severity_rank_inj: "severity_rank x = severity_rank y \<Longrightarrow> x = y"
  by (cases x; cases y) simp_all

instantiation severity :: linorder
begin

definition less_eq_severity :: "severity \<Rightarrow> severity \<Rightarrow> bool" where
  "less_eq_severity x y \<longleftrightarrow> severity_rank x \<le> severity_rank y"

definition less_severity :: "severity \<Rightarrow> severity \<Rightarrow> bool" where
  "less_severity x y \<longleftrightarrow> severity_rank x < severity_rank y"

instance
  by standard (auto simp: less_eq_severity_def less_severity_def intro: severity_rank_inj)

end

section \<open>The job machine\<close>

record state_transition_error =
  ste_machine :: string
  ste_state :: string
  ste_transition :: string

definition transition_error :: "string \<Rightarrow> string \<Rightarrow> string \<Rightarrow> state_transition_error" where
  "transition_error m s t = \<lparr>ste_machine = m, ste_state = s, ste_transition = t\<rparr>"

datatype job_transition =
    JEnqueue | JLease | JHeartbeat | JCompleteSucceeded | JCompleteFailed
  | JCancel | JRetry | JReapToQueued | JReapToFailed

fun job_transition_as_str :: "job_transition \<Rightarrow> string" where
  "job_transition_as_str JEnqueue = ''enqueue''"
| "job_transition_as_str JLease = ''lease''"
| "job_transition_as_str JHeartbeat = ''heartbeat''"
| "job_transition_as_str JCompleteSucceeded = ''complete_succeeded''"
| "job_transition_as_str JCompleteFailed = ''complete_failed''"
| "job_transition_as_str JCancel = ''cancel''"
| "job_transition_as_str JRetry = ''retry''"
| "job_transition_as_str JReapToQueued = ''reap_to_queued''"
| "job_transition_as_str JReapToFailed = ''reap_to_failed''"

definition job_apply ::
  "job_state \<Rightarrow> job_transition \<Rightarrow> (job_state, state_transition_error) result" where
  "job_apply s t =
    (case (s, t) of
       (Queued, JLease) \<Rightarrow> Ok Leased
     | (Leased, JHeartbeat) \<Rightarrow> Ok Leased
     | (Leased, JCompleteSucceeded) \<Rightarrow> Ok Succeeded
     | (Leased, JCompleteFailed) \<Rightarrow> Ok Failed
     | (Queued, JCancel) \<Rightarrow> Ok Cancelled
     | (Leased, JCancel) \<Rightarrow> Ok Cancelled
     | (Failed, JRetry) \<Rightarrow> Ok Queued
     | (Leased, JReapToQueued) \<Rightarrow> Ok Queued
     | (Leased, JReapToFailed) \<Rightarrow> Ok Failed
     | _ \<Rightarrow> Err (transition_error ''job'' (job_state_as_str s) (job_transition_as_str t)))"

fun initial_job_state :: "job_transition \<Rightarrow> (job_state, state_transition_error) result" where
  "initial_job_state JEnqueue = Ok Queued"
| "initial_job_state t = Err (transition_error ''job'' ''<none>'' (job_transition_as_str t))"

section \<open>The finding machine\<close>

datatype finding_transition =
    FScanAccepted | FScanAutoConfirm | FScanAwaitApproval | FScanRequireVerification
  | FVerdictConfirm | FVerdictAwaitApproval | FVerdictDismiss | FDeadlineExpire
  | FApprove | FReject | FRetryVerification | FMarkReported

fun finding_transition_as_str :: "finding_transition \<Rightarrow> string" where
  "finding_transition_as_str FScanAccepted = ''scan_accepted''"
| "finding_transition_as_str FScanAutoConfirm = ''scan_auto_confirm''"
| "finding_transition_as_str FScanAwaitApproval = ''scan_await_approval''"
| "finding_transition_as_str FScanRequireVerification = ''scan_require_verification''"
| "finding_transition_as_str FVerdictConfirm = ''verdict_confirm''"
| "finding_transition_as_str FVerdictAwaitApproval = ''verdict_await_approval''"
| "finding_transition_as_str FVerdictDismiss = ''verdict_dismiss''"
| "finding_transition_as_str FDeadlineExpire = ''deadline_expire''"
| "finding_transition_as_str FApprove = ''approve''"
| "finding_transition_as_str FReject = ''reject''"
| "finding_transition_as_str FRetryVerification = ''retry_verification''"
| "finding_transition_as_str FMarkReported = ''mark_reported''"

definition finding_apply ::
  "finding_state \<Rightarrow> finding_transition \<Rightarrow> (finding_state, state_transition_error) result" where
  "finding_apply s t =
    (case (s, t) of
       (Pending, FScanAutoConfirm) \<Rightarrow> Ok Confirmed
     | (Pending, FScanAwaitApproval) \<Rightarrow> Ok AwaitingApproval
     | (Pending, FScanRequireVerification) \<Rightarrow> Ok Validating
     | (Validating, FVerdictConfirm) \<Rightarrow> Ok Confirmed
     | (Validating, FVerdictAwaitApproval) \<Rightarrow> Ok AwaitingApproval
     | (Validating, FVerdictDismiss) \<Rightarrow> Ok Dismissed
     | (Validating, FDeadlineExpire) \<Rightarrow> Ok Dismissed
     | (AwaitingApproval, FApprove) \<Rightarrow> Ok Confirmed
     | (AwaitingApproval, FReject) \<Rightarrow> Ok Dismissed
     | (Pending, FRetryVerification) \<Rightarrow> Ok Validating
     | (Validating, FRetryVerification) \<Rightarrow> Ok Validating
     | (Dismissed, FRetryVerification) \<Rightarrow> Ok Validating
     | (Confirmed, FMarkReported) \<Rightarrow> Ok Reported
     | _ \<Rightarrow> Err (transition_error ''finding'' (finding_state_as_str s)
                  (finding_transition_as_str t)))"

fun initial_finding_state ::
  "finding_transition \<Rightarrow> (finding_state, state_transition_error) result" where
  "initial_finding_state FScanAccepted = Ok Pending"
| "initial_finding_state t =
    Err (transition_error ''finding'' ''<none>'' (finding_transition_as_str t))"

record verdict_rollup =
  has_confirmed :: bool
  has_dismissed :: bool
  terminal_inconclusive :: bool
  require_approval :: bool

fun transpose_option :: "('a, 'e) result option \<Rightarrow> ('a option, 'e) result" where
  "transpose_option None = Ok None"
| "transpose_option (Some r) = map_ok Some r"

definition roll_up_verdicts ::
  "finding_state \<Rightarrow> verdict_rollup \<Rightarrow> (finding_state option, state_transition_error) result" where
  "roll_up_verdicts current rollup =
    (if current \<noteq> Validating then Ok None
     else
       let transition =
         (if terminal_inconclusive rollup \<or> has_dismissed rollup then Some FVerdictDismiss
          else if has_confirmed rollup then
            Some (if require_approval rollup then FVerdictAwaitApproval else FVerdictConfirm)
          else None)
       in transpose_option (map_option (finding_apply current) transition))"

section \<open>Runs of a lifecycle machine\<close>

fun run_machine :: "('s \<Rightarrow> 't \<Rightarrow> ('s, 'e) result) \<Rightarrow> 's \<Rightarrow> 't list \<Rightarrow> ('s, 'e) result" where
  "run_machine app s [] = Ok s"
| "run_machine app s (t # ts) = and_then (app s t) (\<lambda>s'. run_machine app s' ts)"

lemma run_machine_append:
  "run_machine app s (ts @ us) = and_then (run_machine app s ts) (\<lambda>s'. run_machine app s' us)"
proof (induction ts arbitrary: s)
  case (Cons t ts)
  then show ?case by (cases "app s t") simp_all
qed simp

text \<open>
  What the storage layer relies on in a lifecycle: some states have no way out, and
  each remaining state is entered by known transitions only.
\<close>

locale lifecycle =
  fixes app :: "'s \<Rightarrow> 't \<Rightarrow> ('s, 'e) result"
    and absorbing :: "'s \<Rightarrow> bool" and entry :: "'s \<Rightarrow> ('s \<times> 't) set"
  assumes no_way_out: "absorbing s \<Longrightarrow> \<not> is_ok (app s t)"
    and entered_by: "app s t = Ok s' \<Longrightarrow> (s, t) \<in> entry s'"
begin

lemma absorbing_run:
  assumes "absorbing s" and "run_machine app s ts = Ok s'"
  shows "ts = [] \<and> s' = s"
  using assms no_way_out[OF assms(1)]
  by (cases ts) (auto simp: and_then_Ok_iff is_ok_iff)

lemma run_last_step:
  assumes "run_machine app s ts = Ok s'" and "ts \<noteq> []"
  shows "\<exists>u. run_machine app s (butlast ts) = Ok u \<and> (u, last ts) \<in> entry s'"
proof -
  have "run_machine app s (butlast ts @ [last ts]) = Ok s'" using assms by simp
  then show ?thesis
    by (auto simp: run_machine_append and_then_Ok_iff intro: entered_by)
qed

end

fun job_entry :: "job_state \<Rightarrow> (job_state \<times> job_transition) set" where
  "job_entry Queued = {(Failed, JRetry), (Leased, JReapToQueued)}"
| "job_entry Leased = {(Queued, JLease), (Leased, JHeartbeat)}"
| "job_entry Succeeded = {(Leased, JCompleteSucceeded)}"
| "job_entry Failed = {(Leased, JCompleteFailed), (Leased, JReapToFailed)}"
| "job_entry Cancelled = {(Queued, JCancel), (Leased, JCancel)}"

lemma job_apply_entry: "job_apply s t = Ok s' \<longleftrightarrow> (s, t) \<in> job_entry s'"
  by (cases s; cases t; cases s') (simp_all add: job_apply_def)

interpretation job: lifecycle job_apply "\<lambda>s. s = Succeeded \<or> s = Cancelled" job_entry
proof unfold_locales
  show "\<not> is_ok (job_apply s t)" if "s = Succeeded \<or> s = Cancelled" for s t
    using that by (cases t) (auto simp: job_apply_def)
  show "(s, t) \<in> job_entry s'" if "job_apply s t = Ok s'" for s t s'
    using that by (simp add: job_apply_entry)
qed

fun finding_entry :: "finding_state \<Rightarrow> (finding_state \<times> finding_transition) set" where
  "finding_entry Pending = {}"
| "finding_entry Validating =
    {(Pending, FScanRequireVerification), (Pending, FRetryVerification),
     (Validating, FRetryVerification), (Dismissed, FRetryVerification)}"
| "finding_entry AwaitingApproval =
    {(Pending, FScanAwaitApproval), (Validating, FVerdictAwaitApproval)}"
| "finding_entry Confirmed =
    {(Pending, FScanAutoConfirm), (Validating, FVerdictConfirm), (AwaitingApproval, FApprove)}"
| "finding_entry Dismissed =
    {(Validating, FVerdictDismiss), (Validating, FDeadlineExpire), (AwaitingApproval, FReject)}"
| "finding_entry Reported = {(Confirmed, FMarkReported)}"

lemma finding_apply_entry: "finding_apply s t = Ok s' \<longleftrightarrow> (s, t) \<in> finding_entry s'"
  by (cases s; cases t; cases s') (simp_all add: finding_apply_def)

interpretation finding: lifecycle finding_apply "\<lambda>s. s = Reported" finding_entry
proof unfold_locales
  show "\<not> is_ok (finding_apply s t)" if "s = Reported" for s t
    using that by (cases t) (auto simp: finding_apply_def)
  show "(s, t) \<in> finding_entry s'" if "finding_apply s t = Ok s'" for s t s'
    using that by (simp add: finding_apply_entry)
qed

lemma job_step_leaves_terminal:
  "job_apply s t = Ok s' \<Longrightarrow> is_terminal s \<Longrightarrow> s = Failed \<and> t = JRetry \<and> s' = Queued"
  by (cases s; cases t) (auto simp: is_terminal_def job_apply_def)

end
