(* ===== verification/Store.thy ===== *)
theory Store
  imports State_Machine
begin

text \<open>
  The tables of \<open>loupe-storage\<close> the queue and the finding pipeline live in: row records
  (\<open>JobRow\<close> of \<open>jobs.rs\<close>, \<open>FindingRow\<close> of \<open>findings.rs\<close>, the DDL of \<open>migrations.rs\<close> and
  \<open>migrations/v3/schema.rs\<close>), the database as one record of tables, the unique indexes
  and the cascade of a deletion. A row holds values that were admitted when they were
  written; text is the byte string of the Rust \<open>str\<close>.
\<close>

type_synonym blob = "nat list"

section \<open>Errors\<close>

datatype entity =
    ECampaign | EGeneration | EInventory | EUnit | EUnitResult | ELead | EJob | EFinding
  | EVerification | EArtifact | EBlob | EExecution | EProof

datatype conflict =
    ActiveCampaign | ActiveGeneration | CampaignState | CampaignSummary | CampaignPolicyConflict
  | CompatibilityPolicyConflict | Limits | CampaignPinned | CampaignBudget | ActiveDrilldown
  | ActiveVerify | JobStateConflict | GenerationState | GenerationPredecessor | Coverage
  | InventoryPath | InventoryRevision int | InventoryLimit | UnitKey | UnitState
  | AssignmentConflict | Corroboration | LeadState | Checkpoint | CheckpointEvidence
  | CheckpointLimit | UnitResultExists | IncompatibleReviewState | RevalidationRequired
  | Candidate | TerminalReceipt | FindingIdentityConflict int | CompatibilityKey int
  | FindingDetails | AttemptDetails | ArtifactIdentity

datatype ownership =
    OwnCampaignRoot | OwnCampaignContinuation | OwnCampaignGeneration | OwnCampaignSummary
  | OwnGenerationPredecessor | OwnCampaignJob | OwnInventoryGeneration | OwnCarriedUnit
  | OwnUnitJob | OwnResultJob | OwnResultUnit | OwnCorroboratedResult | OwnCorroboratedExclusion
  | OwnLeadUnit | OwnLeadJob | OwnObservationJob | OwnSupersededLead | OwnDuplicateLead
  | OwnDuplicateFinding | OwnPromotedFinding | OwnFindingLead | OwnFinding | OwnVerification
  | OwnVerificationProof | OwnJobGeneration | OwnJobLead | OwnJobFinding | OwnJobContinuation
  | OwnAssignment | OwnArtifactBlob | OwnArtifactJob | OwnExecutionJob | OwnExecutionArtifact
  | OwnProofFinding | OwnProofVerification | OwnProofArtifact | OwnProofExecution

datatype sqlite_error =
    QueryReturnedNoRows
  | InvalidParameterName string
  | InvalidScalar nat
  | ConstraintViolation
  | IntegralValueOutOfRange nat int

datatype storage_error =
    Sqlite sqlite_error
  | Validation string
  | ConflictErr conflict
  | OwnershipErr ownership
  | NotFoundErr entity int
  | ScopeDenied
  | ReportReceiptErr

text \<open>\<open>#[error("invalid {machine} transition {transition} from {state}")]\<close> of \<open>StateTransitionError\<close>.\<close>

definition transition_error_text :: "state_transition_error \<Rightarrow> string" where
  "transition_error_text e =
    ''invalid '' @ ste_machine e @ '' transition '' @ ste_transition e @ '' from '' @ ste_state e"

definition sql_state_transition_error :: "state_transition_error \<Rightarrow> storage_error" where
  "sql_state_transition_error e = Sqlite (InvalidParameterName (transition_error_text e))"

fun map_err :: "('e \<Rightarrow> 'f) \<Rightarrow> ('a, 'e) result \<Rightarrow> ('a, 'f) result" where
  "map_err g (Ok x) = Ok x"
| "map_err g (Err e) = Err (g e)"

lemma map_err_Ok_iff: "map_err g r = Ok x \<longleftrightarrow> r = Ok x"
  by (cases r) auto

section \<open>Rows\<close>

datatype band = Urgent | HighBand | Normal | Background

text \<open>The columns schema v3 and v7 added to \<open>jobs\<close>; all NULL on a legacy row.\<close>

record phase_columns =
  campaign_id :: "int option"
  generation_id :: "int option"
  assigned_lead_id :: "int option"
  continuation_of_job_id :: "int option"
  scheduling_band :: "band option"
  effective_priority :: "int option"
  eligible_at :: "int option"
  soft_deadline_at :: "int option"
  hard_deadline_at :: "int option"
  submit_by :: "int option"
  token_budget :: "int option"
  recipe :: "string option"
  workflow_contract_version :: "int option"
  prepared_attempt :: "int option"
  prepared_capability_hash :: "blob option"
  prepared_at :: "int option"

definition no_phase :: phase_columns where
  "no_phase = \<lparr>campaign_id = None, generation_id = None, assigned_lead_id = None,
     continuation_of_job_id = None, scheduling_band = None, effective_priority = None,
     eligible_at = None, soft_deadline_at = None, hard_deadline_at = None, submit_by = None,
     token_budget = None, recipe = None, workflow_contract_version = None,
     prepared_attempt = None, prepared_capability_hash = None, prepared_at = None\<rparr>"

record job_row =
  jr_id :: int
  jr_repo_id :: int
  jr_kind :: job_kind
  jr_state :: job_state
  jr_incremental :: bool
  jr_since_sha :: "string option"
  jr_head_sha :: "string option"
  jr_parent_job_id :: "int option"
  jr_target_finding_id :: "int option"
  jr_worker_id :: "int option"
  jr_lease_expires_at :: "int option"
  jr_attempts :: int
  jr_enqueued_at :: int
  jr_started_at :: "int option"
  jr_finished_at :: "int option"
  jr_error :: "string option"
  jr_capability_hash :: "blob option"
  jr_phase :: phase_columns

abbreviation jr_campaign_id :: "job_row \<Rightarrow> int option" where
  "jr_campaign_id r \<equiv> campaign_id (jr_phase r)"

record finding =
  f_scanner_id :: string
  f_severity :: severity
  f_title :: string
  f_description :: string
  f_file_path :: "string option"
  f_line_start :: "nat option"
  f_line_end :: "nat option"
  f_cwe :: "string option"
  f_patch_unified :: "string option"
  f_poc_unified :: "string option"
  f_fingerprint :: string

record finding_row =
  fr_id :: int
  fr_repo_id :: int
  fr_job_id :: int
  fr_finding :: finding
  fr_state :: finding_state
  fr_verification_required :: int
  fr_validating_deadline :: "int option"
  fr_created_at :: int
  fr_confirmed_at :: "int option"
  fr_dismissed_at :: "int option"
  fr_reported_at :: "int option"
  fr_approved_at :: "int option"
  fr_approved_by_cn :: "string option"
  fr_rejected_at :: "int option"
  fr_rejected_by_cn :: "string option"
  fr_patch_proposed_at :: "int option"
  fr_patch_proposed_by_cn :: "string option"
  fr_patch_notes :: "string option"
  fr_report_identity :: blob

record verdict_patch =
  vp_patch_unified :: string
  vp_notes :: string

datatype verdict =
    VConfirmed "string option" "verdict_patch option"
  | VDismissed "string option"
  | VInconclusive string bool

record verification_row =
  vr_id :: int
  vr_finding_id :: int
  vr_job_id :: "int option"
  vr_verdict :: string
  vr_notes :: "string option"
  vr_created_at :: int

datatype reporting_destination =
    GithubIssue string string "int option"
  | Email "string list" "string option" "string option"
  | Manual

record repo_row =
  rp_id :: int
  rp_reporting :: reporting_destination
  rp_scan_interval_seconds :: "int option"
  rp_verification_enabled :: bool
  rp_require_approval :: "bool option"
  rp_last_scanned_sha :: "string option"
  rp_last_scanned_at :: "int option"
  rp_created_at :: int
  rp_disabled_at :: "int option"

record scan_history_row =
  sh_repo_id :: int
  sh_job_id :: int
  sh_head_sha :: string
  sh_base_sha :: "string option"
  sh_finding_count :: nat
  sh_duration_ms :: int
  sh_finished_at :: int

record secret_row =
  sec_id :: int
  sec_kind :: string
  sec_label :: string

text \<open>\<open>finding_review_details\<close> and \<open>finding_verification_intents\<close> are consulted by key only.\<close>

record db =
  db_repos :: "repo_row list"
  db_workers :: "int list"
  db_jobs :: "job_row list"
  db_findings :: "finding_row list"
  db_verifications :: "verification_row list"
  db_review_details :: "int list"
  db_verification_intents :: "int list"
  db_scan_history :: "scan_history_row list"
  db_secrets :: "secret_row list"

definition effective_require_approval :: "repo_row \<Rightarrow> bool \<Rightarrow> bool" where
  "effective_require_approval r server_default =
    (case rp_require_approval r of Some b \<Rightarrow> b | None \<Rightarrow> server_default)"

section \<open>Unique indexes\<close>

text \<open>
  A partial unique index is a key function with NULL (None) outside its condition.
  SQLite refuses the statement that would make two rows share a key.
\<close>

definition unique_index :: "('r \<Rightarrow> 'k option) \<Rightarrow> 'r list \<Rightarrow> bool" where
  "unique_index k t = distinct (List.map_filter k t)"

definition is_active :: "job_state \<Rightarrow> bool" where
  "is_active s \<longleftrightarrow> s = Queued \<or> s = Leased"

definition active_verify_key :: "job_row \<Rightarrow> int option" where
  "active_verify_key r =
    (if is_active (jr_state r) \<and> jr_kind r = Verify then jr_target_finding_id r else None)"

definition active_drilldown_key :: "job_row \<Rightarrow> int option" where
  "active_drilldown_key r =
    (if is_active (jr_state r) \<and> jr_kind r = Drilldown
     then assigned_lead_id (jr_phase r) else None)"

definition jobs_unique :: "job_row list \<Rightarrow> bool" where
  "jobs_unique t \<longleftrightarrow>
     unique_index jr_capability_hash t \<and> unique_index active_drilldown_key t \<and>
     unique_index active_verify_key t"

definition exec_update_jobs ::
  "(job_row \<Rightarrow> bool) \<Rightarrow> (job_row \<Rightarrow> job_row) \<Rightarrow> db \<Rightarrow> (nat \<times> db, storage_error) result" where
  "exec_update_jobs P f d =
    (let js = sql_update P f (db_jobs d)
     in if jobs_unique js then Ok (sql_count P (db_jobs d), d\<lparr>db_jobs := js\<rparr>)
        else Err (Sqlite ConstraintViolation))"

definition exec_insert_job :: "job_row \<Rightarrow> db \<Rightarrow> (db, storage_error) result" where
  "exec_insert_job r d =
    (if jobs_unique (db_jobs d @ [r])
        \<and> list_ex (\<lambda>p. rp_id p = jr_repo_id r) (db_repos d)
        \<and> (case jr_parent_job_id r of None \<Rightarrow> True
           | Some p \<Rightarrow> list_ex (\<lambda>j. jr_id j = p) (db_jobs d @ [r]))
     then Ok (d\<lparr>db_jobs := db_jobs d @ [r]\<rparr>)
     else Err (Sqlite ConstraintViolation))"

text \<open>\<open>DELETE FROM findings\<close> with the cascades of its three modelled child tables.\<close>

definition delete_findings :: "(finding_row \<Rightarrow> bool) \<Rightarrow> db \<Rightarrow> db" where
  "delete_findings P d =
    (let gone = map fr_id (filter P (db_findings d));
         kept = (\<lambda>i. i \<notin> set gone)
     in d\<lparr>db_findings := sql_delete P (db_findings d),
          db_verifications := filter (\<lambda>v. kept (vr_finding_id v)) (db_verifications d),
          db_review_details := filter kept (db_review_details d),
          db_verification_intents := filter kept (db_verification_intents d)\<rparr>)"

lemma unique_index_Nil [simp]: "unique_index k []"
  by (simp add: unique_index_def List.map_filter_def)

lemma map_filter_simps:
  "List.map_filter k (r # t) = (case k r of None \<Rightarrow> List.map_filter k t
     | Some x \<Rightarrow> x # List.map_filter k t)"
  by (simp add: List.map_filter_def split: option.split)

lemma in_map_filter_iff: "x \<in> set (List.map_filter k t) \<longleftrightarrow> (\<exists>r \<in> set t. k r = Some x)"
  by (force simp: List.map_filter_def)

lemma unique_index_Cons:
  "unique_index k (r # t) \<longleftrightarrow> unique_index k t \<and> (\<forall>x. k r = Some x \<longrightarrow> (\<forall>s \<in> set t. k s \<noteq> Some x))"
  by (auto simp: unique_index_def map_filter_simps in_map_filter_iff split: option.split)

lemma unique_index_append:
  "unique_index k (t @ u) \<longleftrightarrow> unique_index k t \<and> unique_index k u \<and>
     (\<forall>r \<in> set t. \<forall>s \<in> set u. \<forall>x. k r = Some x \<longrightarrow> k s \<noteq> Some x)"
  by (induction t) (auto simp: unique_index_Cons)

text \<open>An update that keeps or drops index entries cannot violate the index.\<close>

lemma unique_index_update:
  assumes "unique_index k t"
    and "\<And>r. r \<in> set t \<Longrightarrow> P r \<Longrightarrow> k (f r) = k r \<or> k (f r) = None"
  shows "unique_index k (sql_update P f t)"
  using assms
proof (induction t)
  case (Cons r t)
  let ?u = "\<lambda>s. if P s then f s else s"
  have keep: "k (?u s) = k s \<or> k (?u s) = None" if "s \<in> set (r # t)" for s
    using Cons.prems(2)[OF that] by auto
  have tl: "unique_index k (sql_update P f t)"
    using Cons by (auto simp: unique_index_Cons)
  have "k s' \<noteq> Some x" if x: "k (?u r) = Some x" and "s' \<in> set (sql_update P f t)" for x s'
  proof -
    obtain s where s: "s \<in> set t" "s' = ?u s" using \<open>s' \<in> _\<close> by (auto simp: in_sql_update_iff)
    have "k r = Some x" using keep[of r] x by auto
    then have "k s \<noteq> Some x" using Cons.prems(1) s(1) by (auto simp: unique_index_Cons)
    then show ?thesis using keep[of s] s by auto
  qed
  then show ?case using tl by (simp add: sql_update_def unique_index_Cons)
qed (simp add: sql_update_def)

lemma unique_index_same:
  assumes "unique_index k t" "r \<in> set t" "s \<in> set t" "k r = Some x" "k s = Some x"
  shows "r = s"
  using assms by (induction t) (auto simp: unique_index_Cons)

lemma jobs_unique_update:
  assumes "jobs_unique t"
    and "\<And>r. r \<in> set t \<Longrightarrow> P r \<Longrightarrow> jr_capability_hash (f r) = jr_capability_hash r
            \<or> jr_capability_hash (f r) = None"
    and "\<And>r. r \<in> set t \<Longrightarrow> P r \<Longrightarrow> active_drilldown_key (f r) = active_drilldown_key r
            \<or> active_drilldown_key (f r) = None"
    and "\<And>r. r \<in> set t \<Longrightarrow> P r \<Longrightarrow> active_verify_key (f r) = active_verify_key r
            \<or> active_verify_key (f r) = None"
  shows "jobs_unique (sql_update P f t)"
  unfolding jobs_unique_def
  by (intro conjI unique_index_update assms(2-)) (use assms(1) in \<open>auto simp: jobs_unique_def\<close>)

lemma exec_update_jobs_Ok:
  "exec_update_jobs P f d = Ok (n, d') \<longleftrightarrow>
     jobs_unique (sql_update P f (db_jobs d)) \<and> n = sql_count P (db_jobs d) \<and>
     d' = d\<lparr>db_jobs := sql_update P f (db_jobs d)\<rparr>"
  by (auto simp: exec_update_jobs_def Let_def)

lemmas key_defs = active_verify_key_def active_drilldown_key_def is_active_def

end
