(* ===== verification/Scope.thy ===== *)
theory Scope
  imports Store
begin

text \<open>
  Repository authority: \<open>scope.rs\<close> and the pure part of \<open>ownership.rs\<close>. A \<open>Scope\<close>
  holds the facts loaded in the caller's transaction; \<open>admits\<close> compares a subject with
  them. \<open>repo_scope\<close> is the authority an issuer hands to a transaction body: the
  database connection is the explicit state, so the record keeps the repository and
  whether an operator opened it.
\<close>

section \<open>Ownership decisions\<close>

datatype assignment = AJob int | AFinding int | AVerification int

datatype subject_kind =
    SRecord
  | SJob "int option"
  | SAssigned assignment

record subject =
  sub_repo :: int
  sub_generation :: "int option"
  sub_campaign :: "int option"
  sub_kind :: subject_kind

definition subject_repository :: "int \<Rightarrow> subject" where
  "subject_repository repo =
    \<lparr>sub_repo = repo, sub_generation = None, sub_campaign = None, sub_kind = SRecord\<rparr>"

record scope =
  sc_repo :: int
  sc_generation :: "int option"
  sc_campaign :: "int option"
  sc_assignment :: "assignment option"

definition scope_repository :: "int \<Rightarrow> scope" where
  "scope_repository repo =
    \<lparr>sc_repo = repo, sc_generation = None, sc_campaign = None, sc_assignment = None\<rparr>"

definition admits :: "scope \<Rightarrow> subject \<Rightarrow> ownership \<Rightarrow> bool" where
  "admits sc sub relation =
    (if sub_repo sub \<noteq> sc_repo sc then False
     else if (case sc_generation sc of None \<Rightarrow> False
       | Some generation \<Rightarrow>
           (let campaign_fallback = sub_generation sub = None \<and>
              (case sub_kind sub of SJob (Some repo) \<Rightarrow> repo = sc_repo sc | _ \<Rightarrow> False)
            in sub_generation sub \<noteq> Some generation \<and> \<not> campaign_fallback)) then False
     else if sc_campaign sc \<noteq> None \<and> sub_campaign sub \<noteq> sc_campaign sc then False
     else if (case sc_assignment sc of None \<Rightarrow> False
       | Some a \<Rightarrow> sub_kind sub \<noteq> SAssigned a) then False
     else True)"

definition scope_check :: "scope \<Rightarrow> subject option \<Rightarrow> ownership \<Rightarrow> (unit, ownership) result" where
  "scope_check sc sub relation =
    (if (case sub of None \<Rightarrow> False | Some s \<Rightarrow> admits sc s relation) then Ok () else Err relation)"

section \<open>Issuers\<close>

record repo_scope =
  rs_repo_id :: int
  rs_operator :: bool

definition require_operator :: "repo_scope \<Rightarrow> (unit, storage_error) result" where
  "require_operator sc = (if rs_operator sc then Ok () else Err ScopeDenied)"

datatype operator_target = TRepository int | TJob int | TFinding int

text \<open>
  \<open>with_operator_repository\<close>: the body runs in a transaction, so an error of the body
  leaves the database as it was (the caller keeps \<open>d\<close>) and only a committed result
  carries a new database.
\<close>

definition with_operator_repository ::
  "db \<Rightarrow> operator_target \<Rightarrow> (repo_scope \<Rightarrow> db \<Rightarrow> ('a \<times> db, storage_error) result)
   \<Rightarrow> ('a \<times> db, storage_error) result" where
  "with_operator_repository d target body =
    and_then
      (case target of
         TRepository i \<Rightarrow> Ok i
       | TJob i \<Rightarrow> ok_or (map_option jr_repo_id (row_by jr_id i (db_jobs d))) (NotFoundErr EJob i)
       | TFinding i \<Rightarrow>
           ok_or (map_option fr_repo_id (row_by fr_id i (db_findings d))) (NotFoundErr EFinding i))
      (\<lambda>repo_id. body \<lparr>rs_repo_id = repo_id, rs_operator = True\<rparr> d)"

section \<open>Facts\<close>

lemma admits_same_repository: "admits sc sub rel \<Longrightarrow> sub_repo sub = sc_repo sc"
  by (auto simp: admits_def split: if_splits)

lemma admits_repository_iff: "admits (scope_repository repo) sub rel \<longleftrightarrow> sub_repo sub = repo"
  by (simp add: admits_def scope_repository_def)

lemma admits_label_irrelevant: "admits sc sub rel = admits sc sub rel'"
  by (simp add: admits_def)


end
