(* ===== verification/Findings.thy ===== *)
theory Findings
  imports Scope
begin

text \<open>
  The DAO of the \<open>findings\<close> table (\<open>findings.rs\<close>): insertion of scan results, the
  transition of a completed scan's findings, the verdict roll-up, the reaper of expired
  validations, recovery, patches and the approval gate. Every statement keeps its
  \<open>repo_id\<close> condition; state-machine calls are the ones the code makes.
\<close>

section \<open>Reads\<close>

definition findings_get_raw :: "db \<Rightarrow> int \<Rightarrow> finding_row option" where
  "findings_get_raw d i = row_by fr_id i (db_findings d)"

definition findings_get_selected :: "db \<Rightarrow> int \<Rightarrow> int \<Rightarrow> finding_row option" where
  "findings_get_selected d repo i =
    find (\<lambda>r. fr_id r = i \<and> fr_repo_id r = repo) (db_findings d)"

definition findings_get :: "db \<Rightarrow> repo_scope \<Rightarrow> int \<Rightarrow> finding_row option" where
  "findings_get d sc i = findings_get_selected d (rs_repo_id sc) i"

definition sql_limit :: "int \<Rightarrow> 'r list \<Rightarrow> 'r list" where
  "sql_limit n t = (if n < 0 then t else take (nat n) t)"

definition list_for_repo_raw :: "db \<Rightarrow> int \<Rightarrow> int \<Rightarrow> finding_row list" where
  "list_for_repo_raw d repo_id limit =
    sql_limit limit
      (rev (sort_key fr_id (filter (\<lambda>r. fr_repo_id r = repo_id) (db_findings d))))"

definition list_for_job :: "db \<Rightarrow> repo_scope \<Rightarrow> int \<Rightarrow> finding_row list" where
  "list_for_job d sc job =
    sort_key fr_id
      (filter (\<lambda>r. fr_job_id r = job \<and> fr_repo_id r = rs_repo_id sc) (db_findings d))"

section \<open>Submission\<close>

definition new_finding_row :: "int \<Rightarrow> int \<Rightarrow> int \<Rightarrow> finding \<Rightarrow> finding_state \<Rightarrow> bool \<Rightarrow> int \<Rightarrow> blob
    \<Rightarrow> finding_row" where
  "new_finding_row i repo_id job_id f st verification_required now identity =
    \<lparr>fr_id = i, fr_repo_id = repo_id, fr_job_id = job_id, fr_finding = f, fr_state = st,
     fr_verification_required = (if verification_required then 1 else 0),
     fr_validating_deadline = None, fr_created_at = now, fr_confirmed_at = None,
     fr_dismissed_at = None, fr_reported_at = None, fr_approved_at = None,
     fr_approved_by_cn = None, fr_rejected_at = None, fr_rejected_by_cn = None,
     fr_patch_proposed_at = None, fr_patch_proposed_by_cn = None, fr_patch_notes = None,
     fr_report_identity = identity\<rparr>"

text \<open>
  \<open>insert_with_identity\<close>; \<open>generate\<close> is the entropy source of \<open>report_identity.rs\<close>.
  The conflict target \<open>(repo_id, fingerprint)\<close> makes a duplicate a no-op; the other
  constraints (the identity index, the two foreign keys) fail the statement.
\<close>

definition insert_with_identity ::
  "int \<Rightarrow> int \<Rightarrow> finding \<Rightarrow> bool \<Rightarrow> int \<Rightarrow> (blob, storage_error) result \<Rightarrow> db
   \<Rightarrow> (int option \<times> db, storage_error) result" where
  "insert_with_identity repo_id job_id f verification_required now generate d =
    and_then (map_err sql_state_transition_error (initial_finding_state FScanAccepted))
     (\<lambda>initial_state. and_then generate
     (\<lambda>identity.
       if sql_exists (\<lambda>r. fr_repo_id r = repo_id \<and>
            f_fingerprint (fr_finding r) = f_fingerprint f) (db_findings d)
       then Ok (None, d)
       else if sql_exists (\<lambda>r. fr_report_identity r = identity) (db_findings d)
          \<or> \<not> sql_exists (\<lambda>p. rp_id p = repo_id) (db_repos d)
          \<or> \<not> sql_exists (\<lambda>j. jr_id j = job_id) (db_jobs d)
       then Err (Sqlite ConstraintViolation)
       else
         let i = next_rowid (map fr_id (db_findings d));
             r = new_finding_row i repo_id job_id f initial_state verification_required now identity
         in Ok (Some i, d\<lparr>db_findings := db_findings d @ [r]\<rparr>)))"

section \<open>Verifications\<close>

definition VALIDATING_DEADLINE_EXPIRED_NOTE :: string where
  "VALIDATING_DEADLINE_EXPIRED_NOTE = ''validating_deadline expired''"

datatype verification_input = Submitted int verdict | DeadlineExpired

fun verification_columns ::
  "verification_input \<Rightarrow> int option \<times> string \<times> string option" where
  "verification_columns (Submitted job_id (VConfirmed notes _)) = (Some job_id, ''confirmed'', notes)"
| "verification_columns (Submitted job_id (VDismissed notes)) = (Some job_id, ''dismissed'', notes)"
| "verification_columns (Submitted job_id (VInconclusive reason _)) =
     (Some job_id, ''inconclusive'', Some reason)"
| "verification_columns DeadlineExpired =
     (None, ''inconclusive'', Some VALIDATING_DEADLINE_EXPIRED_NOTE)"

definition insert_verification ::
  "int \<Rightarrow> int \<Rightarrow> verification_input \<Rightarrow> int \<Rightarrow> db \<Rightarrow> (int \<times> db, storage_error) result" where
  "insert_verification repo_id finding_id inp now d =
    (case verification_columns inp of (job_id, outcome, notes) \<Rightarrow>
      if sql_exists (\<lambda>r. fr_id r = finding_id \<and> fr_repo_id r = repo_id) (db_findings d)
         \<and> (case job_id of None \<Rightarrow> True
            | Some j \<Rightarrow> sql_exists (\<lambda>r. jr_id r = j \<and> jr_repo_id r = repo_id
                \<and> jr_target_finding_id r = Some finding_id \<and> jr_kind r = Verify) (db_jobs d))
      then
        let i = next_rowid (map vr_id (db_verifications d))
        in Ok (i, d\<lparr>db_verifications := db_verifications d @
             [\<lparr>vr_id = i, vr_finding_id = finding_id, vr_job_id = job_id, vr_verdict = outcome,
               vr_notes = notes, vr_created_at = now\<rparr>]\<rparr>)
      else Err (Sqlite QueryReturnedNoRows))"

definition has_verdict_row :: "db \<Rightarrow> int \<Rightarrow> int \<Rightarrow> string \<Rightarrow> bool" where
  "has_verdict_row d repo_id finding_id v =
    (sql_exists (\<lambda>r. vr_finding_id r = finding_id \<and> vr_verdict r = v) (db_verifications d) \<and>
     sql_exists (\<lambda>r. fr_id r = finding_id \<and> fr_repo_id r = repo_id) (db_findings d))"

definition stamp_rollup :: "finding_state \<Rightarrow> int \<Rightarrow> finding_row \<Rightarrow> finding_row" where
  "stamp_rollup next_state now r =
    (case next_state of
       Confirmed \<Rightarrow> r\<lparr>fr_state := next_state, fr_confirmed_at := Some now\<rparr>
     | Dismissed \<Rightarrow> r\<lparr>fr_state := next_state, fr_dismissed_at := Some now\<rparr>
     | _ \<Rightarrow> r\<lparr>fr_state := next_state\<rparr>)"

definition roll_up_verdicts_for_finding ::
  "int \<Rightarrow> int \<Rightarrow> bool \<Rightarrow> bool \<Rightarrow> int \<Rightarrow> db \<Rightarrow> (finding_state option \<times> db, storage_error) result" where
  "roll_up_verdicts_for_finding repo_id finding_id terminal approval now d =
    and_then (ok_or (findings_get_selected d repo_id finding_id) (Sqlite QueryReturnedNoRows))
     (\<lambda>row. and_then
       (map_err sql_state_transition_error (roll_up_verdicts (fr_state row)
          \<lparr>has_confirmed = has_verdict_row d repo_id finding_id ''confirmed'',
           has_dismissed = has_verdict_row d repo_id finding_id ''dismissed'',
           terminal_inconclusive = terminal, require_approval = approval\<rparr>))
       (\<lambda>nxt. case nxt of
          None \<Rightarrow> Ok (None, d)
        | Some next_state \<Rightarrow>
            Ok (Some next_state,
              d\<lparr>db_findings := sql_update
                 (\<lambda>r. fr_id r = finding_id \<and> fr_repo_id r = repo_id)
                 (stamp_rollup next_state now) (db_findings d)\<rparr>)))"

section \<open>Lifecycle of a scan's findings\<close>

definition transition_scan_findings_after_success ::
  "int \<Rightarrow> int \<Rightarrow> bool \<Rightarrow> int \<Rightarrow> int \<Rightarrow> db \<Rightarrow> (nat \<times> db, storage_error) result" where
  "transition_scan_findings_after_success repo_id job_id approval validating_deadline now d =
    (let source_state = Pending;
         auto_transition = (if approval then FScanAwaitApproval else FScanAutoConfirm)
     in and_then (map_err sql_state_transition_error (finding_apply source_state auto_transition))
       (\<lambda>auto_target. and_then
         (map_err sql_state_transition_error (finding_apply source_state FScanRequireVerification))
       (\<lambda>verify_target.
         let auto_where = (\<lambda>r. fr_job_id r = job_id \<and> fr_verification_required r = 0 \<and>
               fr_state r = source_state \<and> fr_repo_id r = repo_id);
             auto_set = (if approval then (\<lambda>r. r\<lparr>fr_state := auto_target\<rparr>)
               else (\<lambda>r. r\<lparr>fr_state := auto_target, fr_confirmed_at := Some now\<rparr>));
             t1 = sql_update auto_where auto_set (db_findings d);
             verify_where = (\<lambda>r. fr_job_id r = job_id \<and> fr_verification_required r \<noteq> 0 \<and>
               fr_state r = source_state \<and> fr_repo_id r = repo_id);
             t2 = sql_update verify_where
               (\<lambda>r. r\<lparr>fr_state := verify_target, fr_validating_deadline := Some validating_deadline\<rparr>) t1
         in Ok (sql_count auto_where (db_findings d) + sql_count verify_where t1,
                d\<lparr>db_findings := t2\<rparr>))))"

definition delete_pending_for_job :: "int \<Rightarrow> int \<Rightarrow> db \<Rightarrow> db" where
  "delete_pending_for_job repo_id job_id d =
    delete_findings (\<lambda>r. fr_job_id r = job_id \<and> fr_state r = Pending \<and> fr_repo_id r = repo_id) d"

definition stale_validating :: "db \<Rightarrow> int \<Rightarrow> finding_row \<Rightarrow> bool" where
  "stale_validating d now r \<longleftrightarrow>
     fr_state r = Validating \<and> null_less (fr_validating_deadline r) now
     \<and> fr_id r \<notin> set (db_review_details d)
     \<and> fr_id r \<notin> set (db_verification_intents d)
     \<and> \<not> sql_exists (\<lambda>p. jr_id p = fr_job_id r \<and> jr_campaign_id p \<noteq> None) (db_jobs d)"

definition reap_one_validating ::
  "finding_state \<Rightarrow> int \<Rightarrow> int \<times> int \<Rightarrow> db \<Rightarrow> (db, storage_error) result" where
  "reap_one_validating target_state now sel d =
    (case sel of (fid, repo) \<Rightarrow>
      and_then (insert_verification repo fid DeadlineExpired now d)
       (\<lambda>(_, d1). Ok (d1\<lparr>db_findings := sql_update
          (\<lambda>r. fr_id r = fid \<and> fr_state r = Validating \<and> fr_repo_id r = repo)
          (\<lambda>r. r\<lparr>fr_state := target_state, fr_dismissed_at := Some now\<rparr>) (db_findings d1)\<rparr>)))"

definition reap_stale_validating :: "int \<Rightarrow> db \<Rightarrow> (nat \<times> db, storage_error) result" where
  "reap_stale_validating now d =
    and_then (map_err sql_state_transition_error (finding_apply Validating FDeadlineExpire))
     (\<lambda>target_state.
       let stale = map (\<lambda>r. (fr_id r, fr_repo_id r))
             (filter (stale_validating d now) (db_findings d))
       in map_ok (\<lambda>d'. (length stale, d'))
            (try_fold (reap_one_validating target_state now) stale d))"

section \<open>Recovery, patches and approval\<close>

definition is_deadline_dismissed_without_terminal_verdict :: "db \<Rightarrow> int \<Rightarrow> bool" where
  "is_deadline_dismissed_without_terminal_verdict d finding_id =
    (sql_exists (\<lambda>v. vr_finding_id v = finding_id \<and> vr_job_id v = None \<and>
        vr_verdict v = ''inconclusive'' \<and> vr_notes v = Some VALIDATING_DEADLINE_EXPIRED_NOTE)
       (db_verifications d) \<and>
     \<not> sql_exists (\<lambda>v. vr_finding_id v = finding_id \<and>
        (vr_verdict v = ''confirmed'' \<or> vr_verdict v = ''dismissed'')) (db_verifications d))"

definition retry_verification ::
  "int \<Rightarrow> int \<Rightarrow> int \<Rightarrow> db \<Rightarrow> (bool \<times> db, storage_error) result" where
  "retry_verification repo_id finding_id validating_deadline d =
    (case findings_get_selected d repo_id finding_id of
       None \<Rightarrow> Ok (False, d)
     | Some row \<Rightarrow>
         and_then (map_err sql_state_transition_error (finding_apply (fr_state row) FRetryVerification))
          (\<lambda>target_state.
            let P = (\<lambda>r. fr_id r = finding_id \<and> fr_state r = fr_state row \<and> fr_repo_id r = repo_id)
            in Ok (sql_count P (db_findings d) > 0,
                 d\<lparr>db_findings := sql_update P
                   (\<lambda>r. r\<lparr>fr_state := target_state, fr_dismissed_at := None,
                      fr_validating_deadline := Some validating_deadline\<rparr>) (db_findings d)\<rparr>)))"

datatype patch_attach_outcome = Attached | AlreadyPresent

definition attach_proposed_patch ::
  "int \<Rightarrow> int \<Rightarrow> string \<Rightarrow> string \<Rightarrow> string \<Rightarrow> int \<Rightarrow> db \<Rightarrow> patch_attach_outcome \<times> db" where
  "attach_proposed_patch repo_id finding_id patch notes by_cn now d =
    (let P = (\<lambda>r. fr_id r = finding_id \<and> f_patch_unified (fr_finding r) = None \<and>
               fr_repo_id r = repo_id)
     in (if sql_count P (db_findings d) > 0 then Attached else AlreadyPresent,
         d\<lparr>db_findings := sql_update P
            (\<lambda>r. r\<lparr>fr_finding := (fr_finding r)\<lparr>f_patch_unified := Some patch\<rparr>,
               fr_patch_notes := Some notes, fr_patch_proposed_by_cn := Some by_cn,
               fr_patch_proposed_at := Some now\<rparr>) (db_findings d)\<rparr>))"

datatype approval_outcome = Applied | NotPending | NotFound

definition findings_approve ::
  "int \<Rightarrow> int \<Rightarrow> string \<Rightarrow> int \<Rightarrow> db \<Rightarrow> (approval_outcome \<times> db, storage_error) result" where
  "findings_approve repo_id i by_cn now d =
    and_then (map_err sql_state_transition_error (finding_apply AwaitingApproval FApprove))
     (\<lambda>target_state.
       let P = (\<lambda>r. fr_id r = i \<and> fr_state r = AwaitingApproval \<and> fr_repo_id r = repo_id);
           d' = d\<lparr>db_findings := sql_update P
             (\<lambda>r. r\<lparr>fr_state := target_state, fr_approved_at := Some now,
                fr_approved_by_cn := Some by_cn\<rparr>) (db_findings d)\<rparr>
       in Ok (if sql_count P (db_findings d) > 0 then Applied
              else case findings_get_selected d' repo_id i of
                Some _ \<Rightarrow> NotPending | None \<Rightarrow> NotFound, d'))"

definition findings_reject ::
  "repo_scope \<Rightarrow> int \<Rightarrow> string \<Rightarrow> int \<Rightarrow> db \<Rightarrow> (approval_outcome \<times> db, storage_error) result" where
  "findings_reject sc i by_cn now d =
    and_then (require_operator sc) (\<lambda>_.
    and_then (map_err sql_state_transition_error (finding_apply AwaitingApproval FReject))
     (\<lambda>target_state.
       let P = (\<lambda>r. fr_id r = i \<and> fr_state r = AwaitingApproval \<and> fr_repo_id r = rs_repo_id sc);
           d' = d\<lparr>db_findings := sql_update P
             (\<lambda>r. r\<lparr>fr_state := target_state, fr_dismissed_at := Some now,
                fr_rejected_at := Some now, fr_rejected_by_cn := Some by_cn\<rparr>) (db_findings d)\<rparr>
       in Ok (if sql_count P (db_findings d) \<noteq> 0 then Applied
              else if findings_get d' sc i \<noteq> None then NotPending else NotFound, d')))"

section \<open>What a row update may do\<close>

text \<open>
  A row evolves when its identity columns stay and its state stays or takes one
  transition of the finding machine. The table takes a step when rows evolve, pending
  rows disappear and fresh pending rows are appended; the well-formedness of the table
  is its three unique keys.
\<close>

definition row_evolves :: "finding_row \<Rightarrow> finding_row \<Rightarrow> bool" where
  "row_evolves r r' \<longleftrightarrow>
     fr_id r' = fr_id r \<and> fr_repo_id r' = fr_repo_id r \<and> fr_job_id r' = fr_job_id r \<and>
     f_fingerprint (fr_finding r') = f_fingerprint (fr_finding r) \<and>
     fr_report_identity r' = fr_report_identity r \<and>
     fr_verification_required r' = fr_verification_required r \<and>
     (fr_state r' = fr_state r \<or> (\<exists>t. finding_apply (fr_state r) t = Ok (fr_state r')))"

definition findings_step :: "db \<Rightarrow> db \<Rightarrow> bool" where
  "findings_step d d' \<longleftrightarrow>
     (\<exists>P us news. list_all2 row_evolves (sql_delete P (db_findings d)) us \<and>
        db_findings d' = us @ news \<and>
        (\<forall>r \<in> set (db_findings d). P r \<longrightarrow> fr_state r = Pending) \<and>
        (\<forall>r \<in> set news. fr_state r = Pending \<and> fr_id r \<notin> fr_id ` set (db_findings d)))"

definition finding_key :: "finding_row \<Rightarrow> int \<times> string" where
  "finding_key r = (fr_repo_id r, f_fingerprint (fr_finding r))"

definition findings_wf :: "db \<Rightarrow> bool" where
  "findings_wf d \<longleftrightarrow> distinct (map fr_id (db_findings d)) \<and>
     distinct (map finding_key (db_findings d)) \<and>
     distinct (map fr_report_identity (db_findings d))"

lemma row_evolves_refl [simp]: "row_evolves r r"
  by (simp add: row_evolves_def)

lemma findings_step_refl: "db_findings d' = db_findings d \<Longrightarrow> findings_step d d'"
  unfolding findings_step_def
  by (intro exI[of _ "\<lambda>_. False"] exI[of _ "db_findings d"] exI[of _ "[]"])
    (simp add: sql_delete_def list_all2_same)

lemma findings_step_delete:
  assumes "\<And>r. r \<in> set (db_findings d) \<Longrightarrow> P r \<Longrightarrow> fr_state r = Pending"
  shows "findings_step d (delete_findings P d)"
  unfolding findings_step_def
  by (intro exI[of _ P] exI[of _ "sql_delete P (db_findings d)"] exI[of _ "[]"])
    (use assms in \<open>auto simp: delete_findings_def Let_def list_all2_same\<close>)

lemma findings_step_insert:
  assumes "fr_state r = Pending" and "fr_id r = next_rowid (map fr_id (db_findings d))"
  shows "findings_step d (d\<lparr>db_findings := db_findings d @ [r]\<rparr>)"
  unfolding findings_step_def
  by (intro exI[of _ "\<lambda>_. False"] exI[of _ "db_findings d"] exI[of _ "[r]"])
    (use assms next_rowid_fresh[of "map fr_id (db_findings d)"] in
      \<open>auto simp: sql_delete_def list_all2_same\<close>)

lemma findings_wf_delete: "findings_wf d \<Longrightarrow> findings_wf (delete_findings P d)"
  by (simp add: findings_wf_def delete_findings_def Let_def sql_delete_def distinct_map_filter)

locale finding_update =
  fixes P :: "finding_row \<Rightarrow> bool" and f :: "finding_row \<Rightarrow> finding_row"
  assumes evolves: "P r \<Longrightarrow> row_evolves r (f r)"
begin

lemma step: "findings_step d (d\<lparr>db_findings := sql_update P f (db_findings d)\<rparr>)"
  unfolding findings_step_def
  by (intro exI[of _ "\<lambda>_. False"] exI[of _ "sql_update P f (db_findings d)"] exI[of _ "[]"])
    (auto simp: sql_delete_def sql_update_def list_all2_map2 list_all2_same evolves)

lemma keys_kept:
  "map fr_id (sql_update P f t) = map fr_id t"
  "map finding_key (sql_update P f t) = map finding_key t"
  "map fr_report_identity (sql_update P f t) = map fr_report_identity t"
  using evolves by (auto simp: sql_update_def row_evolves_def finding_key_def)

lemma wf: "findings_wf d \<Longrightarrow> findings_wf (d\<lparr>db_findings := sql_update P f (db_findings d)\<rparr>)"
  by (simp add: findings_wf_def keys_kept)

end

interpretation approve_update: finding_update
  "\<lambda>r. fr_id r = i \<and> fr_state r = AwaitingApproval \<and> fr_repo_id r = repo"
  "\<lambda>r. r\<lparr>fr_state := Confirmed, fr_approved_at := Some now, fr_approved_by_cn := Some cn\<rparr>"
  for i repo now cn
  by unfold_locales (auto simp: row_evolves_def finding_apply_entry)

interpretation reject_update: finding_update
  "\<lambda>r. fr_id r = i \<and> fr_state r = AwaitingApproval \<and> fr_repo_id r = repo"
  "\<lambda>r. r\<lparr>fr_state := Dismissed, fr_dismissed_at := Some now, fr_rejected_at := Some now,
       fr_rejected_by_cn := Some cn\<rparr>"
  for i repo now cn
  by unfold_locales (auto simp: row_evolves_def finding_apply_entry)

interpretation patch_update: finding_update
  "\<lambda>r. fr_id r = i \<and> f_patch_unified (fr_finding r) = None \<and> fr_repo_id r = repo"
  "\<lambda>r. r\<lparr>fr_finding := (fr_finding r)\<lparr>f_patch_unified := Some patch\<rparr>, fr_patch_notes := Some nts,
       fr_patch_proposed_by_cn := Some cn, fr_patch_proposed_at := Some now\<rparr>"
  for i repo patch nts cn now
  by unfold_locales (auto simp: row_evolves_def)

interpretation deadline_update: finding_update
  "\<lambda>r. fr_id r = i \<and> fr_state r = Validating \<and> fr_repo_id r = repo"
  "\<lambda>r. r\<lparr>fr_state := Dismissed, fr_dismissed_at := Some now\<rparr>"
  for i repo now
  by unfold_locales (auto simp: row_evolves_def finding_apply_entry)

interpretation await_update: finding_update
  "\<lambda>r. fr_job_id r = job \<and> fr_verification_required r = 0 \<and> fr_state r = Pending \<and> fr_repo_id r = repo"
  "\<lambda>r. r\<lparr>fr_state := AwaitingApproval\<rparr>"
  for job repo
  by unfold_locales (auto simp: row_evolves_def finding_apply_entry)

interpretation confirm_update: finding_update
  "\<lambda>r. fr_job_id r = job \<and> fr_verification_required r = 0 \<and> fr_state r = Pending \<and> fr_repo_id r = repo"
  "\<lambda>r. r\<lparr>fr_state := Confirmed, fr_confirmed_at := Some now\<rparr>"
  for job repo now
  by unfold_locales (auto simp: row_evolves_def finding_apply_entry)

interpretation require_update: finding_update
  "\<lambda>r. fr_job_id r = job \<and> fr_verification_required r \<noteq> 0 \<and> fr_state r = Pending \<and> fr_repo_id r = repo"
  "\<lambda>r. r\<lparr>fr_state := Validating, fr_validating_deadline := Some deadline\<rparr>"
  for job repo deadline
  by unfold_locales (auto simp: row_evolves_def finding_apply_entry)

lemma retry_update:
  assumes "finding_apply st FRetryVerification = Ok target"
  shows "finding_update (\<lambda>r. fr_id r = i \<and> fr_state r = st \<and> fr_repo_id r = repo)
    (\<lambda>r. r\<lparr>fr_state := target, fr_dismissed_at := None, fr_validating_deadline := Some deadline\<rparr>)"
  by unfold_locales (use assms in \<open>auto simp: row_evolves_def\<close>)

section \<open>Operations as steps of the table\<close>

lemma rollup_update:
  assumes "finding_apply st t = Ok target"
  shows "finding_update (\<lambda>r. fr_id r = i \<and> fr_repo_id r = repo \<and> fr_state r = st)
    (stamp_rollup target now)"
  by unfold_locales
    (use assms in \<open>auto simp: row_evolves_def stamp_rollup_def split: finding_state.splits\<close>)

lemma roll_up_verdicts_spec:
  "roll_up_verdicts st ru =
    Ok (if st \<noteq> Validating then None
        else if terminal_inconclusive ru \<or> has_dismissed ru then Some Dismissed
        else if has_confirmed ru then
          Some (if require_approval ru then AwaitingApproval else Confirmed)
        else None)"
  by (simp add: roll_up_verdicts_def Let_def finding_apply_def)

lemma findings_get_selected_Some:
  "findings_get_selected d repo i = Some r \<Longrightarrow> r \<in> set (db_findings d) \<and> fr_id r = i \<and> fr_repo_id r = repo"
  by (auto simp: findings_get_selected_def find_Some_iff)

lemma selected_unique:
  assumes "findings_wf d" and "findings_get_selected d repo i = Some row"
    and "r \<in> set (db_findings d)" and "fr_id r = i"
  shows "r = row"
  using assms findings_get_selected_Some[OF assms(2)]
    row_by_unique[of fr_id "db_findings d" r row] by (auto simp: findings_wf_def)

lemma sql_update_cong:
  "(\<And>r. r \<in> set t \<Longrightarrow> P r = Q r) \<Longrightarrow> sql_update P f t = sql_update Q f t"
  by (simp add: sql_update_def)

text \<open>On a well-formed table the roll-up's unguarded UPDATE is a guarded one.\<close>

lemma rollup_guard:
  assumes "findings_wf d" "findings_get_selected d repo i = Some row"
  shows "sql_update (\<lambda>r. fr_id r = i \<and> fr_repo_id r = repo) f (db_findings d) =
    sql_update (\<lambda>r. fr_id r = i \<and> fr_repo_id r = repo \<and> fr_state r = fr_state row) f (db_findings d)"
  by (rule sql_update_cong) (use selected_unique[OF assms] in auto)

lemma roll_up_step:
  assumes wf: "findings_wf d" and run: "roll_up_verdicts_for_finding repo i ti ra now d = Ok (res, d')"
  shows "findings_step d d' \<and> findings_wf d'"
proof -
  obtain row where row: "findings_get_selected d repo i = Some row"
    using run by (auto simp: roll_up_verdicts_for_finding_def and_then_Ok_iff ok_or_Ok_iff)
  show ?thesis
  proof (cases res)
    case None
    then show ?thesis using run row wf findings_step_refl[of d d]
      by (auto simp: roll_up_verdicts_for_finding_def roll_up_verdicts_spec
          split: if_splits option.splits)
  next
    case (Some st)
    have st: "\<exists>t. finding_apply (fr_state row) t = Ok st"
      and d': "d' = d\<lparr>db_findings := sql_update (\<lambda>r. fr_id r = i \<and> fr_repo_id r = repo)
                 (stamp_rollup st now) (db_findings d)\<rparr>"
      using run row Some
      by (auto simp: roll_up_verdicts_for_finding_def roll_up_verdicts_spec finding_apply_entry
          split: if_splits option.splits)
    then obtain t where "finding_apply (fr_state row) t = Ok st" by blast
    from finding_update.step[OF rollup_update[OF this]] finding_update.wf[OF rollup_update[OF this] wf]
    show ?thesis unfolding d' rollup_guard[OF wf row] by simp
  qed
qed

lemma insert_with_identity_cases:
  assumes "insert_with_identity repo job f vreq now gen d = Ok (res, d')"
  obtains (duplicate) "res = None" "d' = d" "\<exists>r \<in> set (db_findings d). finding_key r = (repo, f_fingerprint f)"
  | (inserted) i identity where "res = Some i" "gen = Ok identity" "i = next_rowid (map fr_id (db_findings d))"
      "d' = d\<lparr>db_findings := db_findings d @ [new_finding_row i repo job f Pending vreq now identity]\<rparr>"
      "\<forall>r \<in> set (db_findings d). finding_key r \<noteq> (repo, f_fingerprint f) \<and> fr_report_identity r \<noteq> identity"
  using assms
  by (auto simp: insert_with_identity_def and_then_Ok_iff sql_simps finding_key_def Let_def
      split: if_splits)

lemma new_finding_row_simps [simp]:
  "fr_id (new_finding_row i repo job f st v now idn) = i"
  "fr_state (new_finding_row i repo job f st v now idn) = st"
  "fr_report_identity (new_finding_row i repo job f st v now idn) = idn"
  "finding_key (new_finding_row i repo job f st v now idn) = (repo, f_fingerprint f)"
  "fr_job_id (new_finding_row i repo job f st v now idn) = job"
  "fr_repo_id (new_finding_row i repo job f st v now idn) = repo"
  by (simp_all add: new_finding_row_def finding_key_def)

lemma insert_step:
  assumes "insert_with_identity repo job f vreq now gen d = Ok (res, d')"
  shows "findings_step d d' \<and> (findings_wf d \<longrightarrow> findings_wf d')"
  using assms
proof (cases rule: insert_with_identity_cases)
  case duplicate
  then show ?thesis by (simp add: findings_step_refl)
next
  case (inserted i identity)
  then show ?thesis
    using findings_step_insert[of "new_finding_row i repo job f Pending vreq now identity" d]
      next_rowid_fresh[of "map fr_id (db_findings d)"]
    by (auto simp: findings_wf_def)
qed

lemma insert_verification_Ok:
  assumes "insert_verification repo i inp now d = Ok (v, d')"
  shows "db_findings d' = db_findings d \<and> db_jobs d' = db_jobs d \<and>
    (\<exists>row. db_verifications d' = db_verifications d @ [row] \<and> vr_finding_id row = i)"
  using assms by (auto simp: insert_verification_def Let_def split: if_splits prod.splits)

section \<open>The validating-deadline reaper\<close>

definition deadline_verdict :: "verification_row \<Rightarrow> int \<Rightarrow> int \<Rightarrow> bool" where
  "deadline_verdict v fid now \<longleftrightarrow> vr_finding_id v = fid \<and> vr_job_id v = None \<and>
     vr_verdict v = ''inconclusive'' \<and> vr_notes v = Some VALIDATING_DEADLINE_EXPIRED_NOTE \<and>
     vr_created_at v = now"

lemma reap_one_validating_Ok:
  assumes "\<exists>r \<in> set (db_findings d). fr_id r = fid \<and> fr_repo_id r = repo"
  shows "\<exists>v. deadline_verdict v fid now \<and>
    reap_one_validating Dismissed now (fid, repo) d =
      Ok (d\<lparr>db_verifications := db_verifications d @ [v],
        db_findings := sql_update (\<lambda>r. fr_id r = fid \<and> fr_state r = Validating \<and> fr_repo_id r = repo)
          (\<lambda>r. r\<lparr>fr_state := Dismissed, fr_dismissed_at := Some now\<rparr>) (db_findings d)\<rparr>)"
  using assms
  by (intro exI[of _ "\<lparr>vr_id = next_rowid (map vr_id (db_verifications d)), vr_finding_id = fid,
        vr_job_id = None, vr_verdict = ''inconclusive'',
        vr_notes = Some VALIDATING_DEADLINE_EXPIRED_NOTE, vr_created_at = now\<rparr>"])
    (auto simp: reap_one_validating_def insert_verification_def Let_def sql_simps deadline_verdict_def)

lemma reap_fold:
  assumes "\<And>fid repo. (fid, repo) \<in> set sels \<Longrightarrow>
      \<exists>r \<in> set (db_findings d). fr_id r = fid \<and> fr_repo_id r = repo"
  shows "\<exists>vs. list_all2 (\<lambda>sel v. deadline_verdict v (fst sel) now) sels vs \<and>
    try_fold (reap_one_validating Dismissed now) sels d =
      Ok (d\<lparr>db_verifications := db_verifications d @ vs,
        db_findings := sql_update (\<lambda>r. (fr_id r, fr_repo_id r) \<in> set sels \<and> fr_state r = Validating)
          (\<lambda>r. r\<lparr>fr_state := Dismissed, fr_dismissed_at := Some now\<rparr>) (db_findings d)\<rparr>)"
  using assms
proof (induction sels arbitrary: d)
  case Nil
  then show ?case by (simp add: sql_update_def)
next
  case (Cons sel sels)
  obtain fid repo where sel: "sel = (fid, repo)" by (cases sel)
  let ?g = "\<lambda>r. r\<lparr>fr_state := Dismissed, fr_dismissed_at := Some now\<rparr>"
  let ?P = "\<lambda>r. fr_id r = fid \<and> fr_state r = Validating \<and> fr_repo_id r = repo"
  obtain v where v: "deadline_verdict v fid now"
    and one: "reap_one_validating Dismissed now (fid, repo) d =
      Ok (d\<lparr>db_verifications := db_verifications d @ [v],
        db_findings := sql_update ?P ?g (db_findings d)\<rparr>)" (is "_ = Ok ?d1")
    using reap_one_validating_Ok[of d fid repo now] Cons.prems sel by auto
  have ex: "\<exists>r \<in> set (db_findings ?d1). fr_id r = i \<and> fr_repo_id r = p" if ip: "(i, p) \<in> set sels" for i p
  proof -
    obtain r where "r \<in> set (db_findings d)" "fr_id r = i" "fr_repo_id r = p"
      using Cons.prems[of i p] ip by auto
    then show ?thesis
      by (intro bexI[of _ "if ?P r then ?g r else r"]) (auto simp: sql_update_def)
  qed
  from Cons.IH[OF ex] obtain vs where
    vs: "list_all2 (\<lambda>sel v. deadline_verdict v (fst sel) now) sels vs"
    and run: "try_fold (reap_one_validating Dismissed now) sels ?d1 =
      Ok (?d1\<lparr>db_verifications := db_verifications ?d1 @ vs,
        db_findings := sql_update (\<lambda>r. (fr_id r, fr_repo_id r) \<in> set sels \<and> fr_state r = Validating)
          ?g (db_findings ?d1)\<rparr>)" by blast
  have upd: "sql_update (\<lambda>r. (fr_id r, fr_repo_id r) \<in> set sels \<and> fr_state r = Validating) ?g
      (sql_update ?P ?g (db_findings d)) =
    sql_update (\<lambda>r. (fr_id r, fr_repo_id r) \<in> set (sel # sels) \<and> fr_state r = Validating) ?g (db_findings d)"
    by (auto simp: sql_update_def sel)
  show ?case using v vs run one upd
    by (intro exI[of _ "v # vs"]) (simp add: sel)
qed

definition expire_row :: "int \<Rightarrow> finding_row \<Rightarrow> finding_row" where
  "expire_row now r = r\<lparr>fr_state := Dismissed, fr_dismissed_at := Some now\<rparr>"

lemma expire_update: "finding_update (\<lambda>r. P r \<and> fr_state r = Validating) (expire_row now)"
  by unfold_locales (auto simp: row_evolves_def finding_apply_entry expire_row_def)

lemma expire_wf:
  assumes "findings_wf d" and "\<And>r. P r \<Longrightarrow> fr_state r = Validating"
  shows "findings_wf (d\<lparr>db_findings := sql_update P (expire_row now) (db_findings d)\<rparr>)"
proof -
  have "(\<lambda>r. P r \<and> fr_state r = Validating) = P" using assms(2) by auto
  then show ?thesis using finding_update.wf[OF expire_update[of P now] assms(1)] by simp
qed

lemma stale_selection:
  assumes "findings_wf d" and "r \<in> set (db_findings d)"
  shows "(fr_id r, fr_repo_id r) \<in> set (map (\<lambda>r. (fr_id r, fr_repo_id r))
      (filter (stale_validating d now) (db_findings d))) \<and> fr_state r = Validating
    \<longleftrightarrow> stale_validating d now r"
proof
  assume "(fr_id r, fr_repo_id r) \<in> set (map (\<lambda>r. (fr_id r, fr_repo_id r))
      (filter (stale_validating d now) (db_findings d))) \<and> fr_state r = Validating"
  then obtain s where "s \<in> set (db_findings d)" "stale_validating d now s" "fr_id s = fr_id r" by auto
  then show "stale_validating d now r"
    using row_by_unique[of fr_id "db_findings d" s r] assms by (auto simp: findings_wf_def)
qed (use assms(2) in \<open>auto simp: stale_validating_def\<close>)

lemma reap_stale_validating_run:
  assumes wf: "findings_wf d"
  shows "\<exists>vs. list_all2 (\<lambda>r v. deadline_verdict v (fr_id r) now)
        (filter (stale_validating d now) (db_findings d)) vs \<and>
      reap_stale_validating now d =
        Ok (length (filter (stale_validating d now) (db_findings d)),
          d\<lparr>db_verifications := db_verifications d @ vs,
            db_findings := sql_update (stale_validating d now) (expire_row now) (db_findings d)\<rparr>)"
proof -
  let ?st = "filter (stale_validating d now) (db_findings d)"
  let ?sels = "map (\<lambda>r. (fr_id r, fr_repo_id r)) ?st"
  have "\<exists>r \<in> set (db_findings d). fr_id r = fid \<and> fr_repo_id r = repo"
    if "(fid, repo) \<in> set ?sels" for fid repo using that by auto
  from reap_fold[OF this] obtain vs where
    vs: "list_all2 (\<lambda>sel v. deadline_verdict v (fst sel) now) ?sels vs"
    and run: "try_fold (reap_one_validating Dismissed now) ?sels d =
      Ok (d\<lparr>db_verifications := db_verifications d @ vs,
        db_findings := sql_update (\<lambda>r. (fr_id r, fr_repo_id r) \<in> set ?sels \<and> fr_state r = Validating)
          (\<lambda>r. r\<lparr>fr_state := Dismissed, fr_dismissed_at := Some now\<rparr>) (db_findings d)\<rparr>)" by blast
  have "sql_update (\<lambda>r. (fr_id r, fr_repo_id r) \<in> set ?sels \<and> fr_state r = Validating)
          (\<lambda>r. r\<lparr>fr_state := Dismissed, fr_dismissed_at := Some now\<rparr>) (db_findings d) =
        sql_update (stale_validating d now) (expire_row now) (db_findings d)"
    unfolding expire_row_def by (rule sql_update_cong) (rule stale_selection[OF wf])
  with run vs show ?thesis
    by (intro exI[of _ vs])
      (simp add: reap_stale_validating_def finding_apply_def list_all2_map1 Let_def)
qed

section \<open>Sample rows\<close>

definition sample_finding :: "string \<Rightarrow> finding" where
  "sample_finding fp = \<lparr>f_scanner_id = ''regex'', f_severity = High, f_title = ''key'',
     f_description = ''found'', f_file_path = None, f_line_start = None, f_line_end = None,
     f_cwe = None, f_patch_unified = None, f_poc_unified = None, f_fingerprint = fp\<rparr>"

definition sample_row :: "int \<Rightarrow> string \<Rightarrow> finding_state \<Rightarrow> int option \<Rightarrow> finding_row" where
  "sample_row i fp st deadline =
    (new_finding_row i 1 1 (sample_finding fp) st True 0 [nat i])\<lparr>fr_validating_deadline := deadline\<rparr>"

definition sample_job :: "int \<Rightarrow> job_kind \<Rightarrow> job_state \<Rightarrow> job_row" where
  "sample_job i k st =
    \<lparr>jr_id = i, jr_repo_id = 1, jr_kind = k, jr_state = st, jr_incremental = False,
     jr_since_sha = None, jr_head_sha = None, jr_parent_job_id = None,
     jr_target_finding_id = None, jr_worker_id = None, jr_lease_expires_at = None,
     jr_attempts = 0, jr_enqueued_at = 0, jr_started_at = None, jr_finished_at = None,
     jr_error = None, jr_capability_hash = None, jr_phase = no_phase\<rparr>"

definition sample_db :: db where
  "sample_db =
    \<lparr>db_repos = [\<lparr>rp_id = 1, rp_reporting = Manual, rp_scan_interval_seconds = None,
        rp_verification_enabled = True, rp_require_approval = None, rp_last_scanned_sha = None,
        rp_last_scanned_at = None, rp_created_at = 0, rp_disabled_at = None\<rparr>],
     db_workers = [7], db_jobs = [sample_job 1 Scan Succeeded],
     db_findings = [sample_row 1 ''a'' Validating (Some 5), sample_row 2 ''b'' Validating (Some 50)],
     db_verifications = [], db_review_details = [], db_verification_intents = [],
     db_scan_history = [], db_secrets = []\<rparr>"

lemmas sample_defs = sample_finding_def sample_row_def sample_job_def sample_db_def
  new_finding_row_def no_phase_def

lemma sample_db_wf: "findings_wf sample_db"
  by (simp add: findings_wf_def sample_defs finding_key_def)

section \<open>Properties\<close>

text \<open>
  C12: The deadline reaper always succeeds on a well-formed table. It dismisses exactly the
  findings that are validating, past their deadline and not phase work, leaves every other
  row as it was, records one system inconclusive verdict for each of them in order, returns
  their number, and leaves no finding that a second run at the same time would still reap.
\<close>

theorem reap_stale_validating_correct:
  assumes "findings_wf d"
  shows "\<exists>vs d'. reap_stale_validating now d =
      Ok (length (filter (stale_validating d now) (db_findings d)), d') \<and>
    db_findings d' = map (\<lambda>r. if stale_validating d now r
        then r\<lparr>fr_state := Dismissed, fr_dismissed_at := Some now\<rparr> else r) (db_findings d) \<and>
    db_verifications d' = db_verifications d @ vs \<and>
    list_all2 (\<lambda>r v. vr_finding_id v = fr_id r \<and> vr_job_id v = None \<and>
        vr_verdict v = ''inconclusive'' \<and> vr_notes v = Some VALIDATING_DEADLINE_EXPIRED_NOTE \<and>
        vr_created_at v = now) (filter (stale_validating d now) (db_findings d)) vs \<and>
    db_jobs d' = db_jobs d \<and> findings_wf d' \<and>
    filter (stale_validating d' now) (db_findings d') = []"
proof -
  obtain vs where vs: "list_all2 (\<lambda>r v. deadline_verdict v (fr_id r) now)
        (filter (stale_validating d now) (db_findings d)) vs"
    and run: "reap_stale_validating now d =
        Ok (length (filter (stale_validating d now) (db_findings d)),
          d\<lparr>db_verifications := db_verifications d @ vs,
            db_findings := sql_update (stale_validating d now) (expire_row now) (db_findings d)\<rparr>)"
    (is "_ = Ok (_, ?d')")
    using reap_stale_validating_run[OF assms] by blast
  have left: "filter (stale_validating ?d' now) (db_findings ?d') = []"
    by (auto simp: filter_empty_conv sql_update_def stale_validating_def expire_row_def)
  have wf: "findings_wf ?d'"
    using assms expire_wf[of "d\<lparr>db_verifications := db_verifications d @ vs\<rparr>" "stale_validating d now" now]
    by (simp add: findings_wf_def stale_validating_def)
  show ?thesis using run vs left wf
    by (intro exI[of _ vs] exI[of _ ?d'])
      (simp add: sql_update_def expire_row_def deadline_verdict_def)
qed

theorem reap_stale_validating_correct_witness:
  "findings_wf sample_db \<and> (\<exists>d'. reap_stale_validating 10 sample_db = Ok (1, d') \<and>
     map fr_state (db_findings d') = [Dismissed, Validating] \<and> length (db_verifications d') = 1)"
proof -
  have st: "filter (stale_validating sample_db 10) (db_findings sample_db) =
      [sample_row 1 ''a'' Validating (Some 5)]"
    by (simp add: stale_validating_def sample_defs sql_exists_def)
  have upd: "map (\<lambda>r. if stale_validating sample_db 10 r
        then r\<lparr>fr_state := Dismissed, fr_dismissed_at := Some 10\<rparr> else r) (db_findings sample_db) =
      [(sample_row 1 ''a'' Validating (Some 5))\<lparr>fr_state := Dismissed, fr_dismissed_at := Some 10\<rparr>,
       sample_row 2 ''b'' Validating (Some 50)]"
    by (simp add: stale_validating_def sample_defs sql_exists_def)
  obtain vs d' where
    run: "reap_stale_validating 10 sample_db = Ok (length [sample_row 1 ''a'' Validating (Some 5)], d')"
    and rows: "db_findings d' = [(sample_row 1 ''a'' Validating (Some 5))
        \<lparr>fr_state := Dismissed, fr_dismissed_at := Some 10\<rparr>, sample_row 2 ''b'' Validating (Some 50)]"
    and app: "db_verifications d' = db_verifications sample_db @ vs"
    and vs: "list_all2 (\<lambda>r v. vr_finding_id v = fr_id r \<and> vr_job_id v = None \<and>
        vr_verdict v = ''inconclusive'' \<and> vr_notes v = Some VALIDATING_DEADLINE_EXPIRED_NOTE \<and>
        vr_created_at v = 10) [sample_row 1 ''a'' Validating (Some 5)] vs"
    using reap_stale_validating_correct[OF sample_db_wf, of 10, unfolded st upd]
    by (elim exE conjE) (rule that)
  have "length vs = 1" using list_all2_lengthD[OF vs] by simp
  then show ?thesis using run rows app sample_db_wf
    by (simp add: sample_row_def new_finding_row_def sample_db_def)
qed


end
