(* ===== verification/Jobs.thy ===== *)
theory Jobs
  imports Findings "HOL-Library.Product_Lexorder"
begin

text \<open>
  The DAO of the \<open>jobs\<close> table (\<open>jobs.rs\<close>) and the lease-bound issuer of \<open>scope.rs\<close>:
  enqueue, heartbeat, completion, cancellation, retry, capability lookup, listing and the
  reaper of legacy leases. An early return without commit is a result that carries the
  unchanged database.
\<close>

section \<open>Constants\<close>

definition DEFAULT_LEASE_SECONDS :: int where "DEFAULT_LEASE_SECONDS = 600"
definition MAX_ATTEMPTS :: int where "MAX_ATTEMPTS = 3"

definition JOB_CANCELLED_BY_ADMIN_ERROR :: string where
  "JOB_CANCELLED_BY_ADMIN_ERROR = ''cancelled by admin''"

definition LEASE_EXPIRED_AFTER_MAX_ATTEMPTS_ERROR :: string where
  "LEASE_EXPIRED_AFTER_MAX_ATTEMPTS_ERROR = ''lease expired after max attempts''"

definition LEGACY_RUNTIME_KINDS :: "job_kind list" where
  "LEGACY_RUNTIME_KINDS = [Scan, Verify]"

text \<open>\<open>kind IN (...)\<close> over the stored spellings of the legacy kinds.\<close>

definition legacy_kinds_sql :: "job_row \<Rightarrow> bool" where
  "legacy_kinds_sql r = (job_kind_as_str (jr_kind r) \<in> set (map job_kind_as_str LEGACY_RUNTIME_KINDS))"

definition PHASE_FINDING_TARGET_SQL :: "db \<Rightarrow> job_row \<Rightarrow> bool" where
  "PHASE_FINDING_TARGET_SQL d r =
    (case jr_target_finding_id r of
       None \<Rightarrow> False
     | Some t \<Rightarrow>
         t \<in> set (db_review_details d) \<or> t \<in> set (db_verification_intents d) \<or>
         sql_exists (\<lambda>f. fr_id f = t \<and>
             sql_exists (\<lambda>p. jr_id p = fr_job_id f \<and> jr_campaign_id p \<noteq> None) (db_jobs d))
           (db_findings d))"

definition targets_phase_finding :: "db \<Rightarrow> int \<Rightarrow> int \<Rightarrow> bool" where
  "targets_phase_finding d repo job =
    sql_exists (\<lambda>r. jr_id r = job \<and> jr_repo_id r = repo \<and> PHASE_FINDING_TARGET_SQL d r) (db_jobs d)"

section \<open>Enqueue\<close>

record lease_identity =
  li_job_id :: int
  li_worker_id :: int
  li_capability_hash :: blob

record active_lease =
  al_identity :: lease_identity
  al_now :: int

record queued_job =
  qj_kind :: job_kind
  qj_incremental :: bool
  qj_since_sha :: "string option"
  qj_parent_job_id :: "int option"
  qj_target_finding_id :: "int option"

record new_job = queued_job +
  nj_repo_id :: int

definition jobs_get_raw :: "db \<Rightarrow> int \<Rightarrow> job_row option" where
  "jobs_get_raw d i = row_by jr_id i (db_jobs d)"

definition jobs_get_scoped_raw :: "db \<Rightarrow> int \<Rightarrow> int \<Rightarrow> job_row option" where
  "jobs_get_scoped_raw d repo i =
    find (\<lambda>r. jr_id r = i \<and> jr_repo_id r = repo) (db_jobs d)"

text \<open>
  An inserted row reads back through \<open>row_to_job\<close>, which parses the stored spelling of
  the kind.
\<close>

definition new_job_row ::
  "int \<Rightarrow> int \<Rightarrow> job_kind \<Rightarrow> job_state \<Rightarrow> bool \<Rightarrow> string option \<Rightarrow> int option \<Rightarrow> int option \<Rightarrow> int
   \<Rightarrow> job_row" where
  "new_job_row i repo_id kind st incremental since_sha parent target now =
    \<lparr>jr_id = i, jr_repo_id = repo_id, jr_kind = job_kind_from_text (job_kind_as_str kind),
     jr_state = st, jr_incremental = incremental, jr_since_sha = since_sha, jr_head_sha = None,
     jr_parent_job_id = parent, jr_target_finding_id = target, jr_worker_id = None,
     jr_lease_expires_at = None, jr_attempts = 0, jr_enqueued_at = now, jr_started_at = None,
     jr_finished_at = None, jr_error = None, jr_capability_hash = None, jr_phase = no_phase\<rparr>"

definition enqueue_raw :: "new_job \<Rightarrow> int \<Rightarrow> db \<Rightarrow> (int \<times> db, storage_error) result" where
  "enqueue_raw new now d =
    (if (case qj_kind new of Scan \<Rightarrow> False | Verify \<Rightarrow> False | _ \<Rightarrow> True)
     then Err (Validation ''job_kind'')
     else and_then (map_err sql_state_transition_error (initial_job_state JEnqueue))
       (\<lambda>initial_state.
         let i = next_rowid (map jr_id (db_jobs d));
             r = new_job_row i (nj_repo_id new) (qj_kind new) initial_state (qj_incremental new)
                   (qj_since_sha new) (qj_parent_job_id new) (qj_target_finding_id new) now
         in map_ok (\<lambda>d'. (i, d')) (exec_insert_job r d)))"

definition jobs_enqueue ::
  "repo_scope \<Rightarrow> queued_job \<Rightarrow> int \<Rightarrow> db \<Rightarrow> (int \<times> db, storage_error) result" where
  "jobs_enqueue sc new now d =
    and_then (require_operator sc) (\<lambda>_.
      if (case qj_parent_job_id new of None \<Rightarrow> False
          | Some parent \<Rightarrow> jobs_get_scoped_raw d (rs_repo_id sc) parent = None)
      then Err ScopeDenied
      else if (case qj_target_finding_id new of None \<Rightarrow> False
          | Some target \<Rightarrow> findings_get d sc target = None)
      then Err ScopeDenied
      else enqueue_raw \<lparr>qj_kind = qj_kind new, qj_incremental = qj_incremental new,
             qj_since_sha = qj_since_sha new, qj_parent_job_id = qj_parent_job_id new,
             qj_target_finding_id = qj_target_finding_id new, nj_repo_id = rs_repo_id sc\<rparr> now d)"

section \<open>Leases\<close>

text \<open>The WHERE clause heartbeat and completion share.\<close>

definition live_lease :: "int \<Rightarrow> int \<Rightarrow> blob \<Rightarrow> int \<Rightarrow> job_row \<Rightarrow> bool" where
  "live_lease job_id worker_id hash now r \<longleftrightarrow>
     jr_id r = job_id \<and> jr_state r = Leased \<and> null_eq (jr_worker_id r) worker_id \<and>
     null_eq (jr_capability_hash r) hash \<and> null_ge (jr_lease_expires_at r) now \<and>
     legacy_kinds_sql r"

definition heartbeat ::
  "int \<Rightarrow> int \<Rightarrow> int \<Rightarrow> int \<Rightarrow> blob \<Rightarrow> db \<Rightarrow> (int option \<times> db, storage_error) result" where
  "heartbeat job_id worker_id now lease_seconds hash d =
    (let lease_until = wrap_i64 (now + lease_seconds)
     in and_then (map_err sql_state_transition_error (job_apply Leased JHeartbeat))
       (\<lambda>leased_state. and_then
         (exec_update_jobs
           (\<lambda>r. live_lease job_id worker_id hash now r \<and> jr_state r = leased_state)
           (\<lambda>r. r\<lparr>jr_lease_expires_at := Some lease_until\<rparr>) d)
         (\<lambda>(n, d'). Ok (if n > 0 then Some lease_until else None, d'))))"

definition complete_row ::
  "job_state \<Rightarrow> string option \<Rightarrow> string option \<Rightarrow> int \<Rightarrow> job_row \<Rightarrow> job_row" where
  "complete_row target_state head_sha err now r =
    r\<lparr>jr_state := target_state, jr_head_sha := coalesce head_sha (jr_head_sha r),
      jr_error := err, jr_finished_at := Some now, jr_lease_expires_at := None,
      jr_capability_hash := None\<rparr>"

definition jobs_complete ::
  "lease_identity \<Rightarrow> job_state \<Rightarrow> string option \<Rightarrow> string option \<Rightarrow> int \<Rightarrow> db
   \<Rightarrow> (bool \<times> db, storage_error) result" where
  "jobs_complete lease new_state head_sha err now d =
    and_then
      (case new_state of
         Succeeded \<Rightarrow> Ok JCompleteSucceeded
       | Failed \<Rightarrow> Ok JCompleteFailed
       | other \<Rightarrow> Err (Sqlite (InvalidParameterName
           (''job completion target must be succeeded or failed, got '' @ job_state_as_str other))))
      (\<lambda>transition. and_then (map_err sql_state_transition_error (job_apply Leased transition))
      (\<lambda>target_state. and_then
        (exec_update_jobs
          (live_lease (li_job_id lease) (li_worker_id lease) (li_capability_hash lease) now)
          (complete_row target_state head_sha err now) d)
        (\<lambda>(n, d'). Ok (n > 0, d'))))"

definition get_active_by_capability_hash :: "db \<Rightarrow> int \<Rightarrow> blob \<Rightarrow> int \<Rightarrow> job_row option" where
  "get_active_by_capability_hash d worker_id hash now =
    find (\<lambda>r. null_eq (jr_worker_id r) worker_id \<and> null_eq (jr_capability_hash r) hash \<and>
       jr_state r = Leased \<and> jr_lease_expires_at r \<noteq> None \<and> null_ge (jr_lease_expires_at r) now \<and>
       jr_campaign_id r = None \<and> legacy_kinds_sql r) (db_jobs d)"

record assignment_scope =
  as_repo :: repo_scope
  as_job :: job_row
  as_lease :: active_lease

text \<open>\<open>with_active_lease\<close>: None when the lease is not live; an error rolls back.\<close>

definition with_active_lease ::
  "db \<Rightarrow> active_lease \<Rightarrow> (assignment_scope \<Rightarrow> db \<Rightarrow> ('a \<times> db, storage_error) result)
   \<Rightarrow> ('a option \<times> db, storage_error) result" where
  "with_active_lease d lease body =
    (case get_active_by_capability_hash d (li_worker_id (al_identity lease))
        (li_capability_hash (al_identity lease)) (al_now lease) of
       None \<Rightarrow> Ok (None, d)
     | Some job \<Rightarrow>
         if jr_id job \<noteq> li_job_id (al_identity lease) then Ok (None, d)
         else map_ok (\<lambda>(x, d'). (Some x, d'))
           (body \<lparr>as_repo = \<lparr>rs_repo_id = jr_repo_id job, rs_operator = False\<rparr>,
                  as_job = job, as_lease = lease\<rparr> d))"

definition extend_lease ::
  "assignment_scope \<Rightarrow> int \<Rightarrow> db \<Rightarrow> (int option \<times> db, storage_error) result" where
  "extend_lease sc seconds d =
    heartbeat (jr_id (as_job sc)) (li_worker_id (al_identity (as_lease sc))) (al_now (as_lease sc))
      seconds (li_capability_hash (al_identity (as_lease sc))) d"

definition has_verdict :: "assignment_scope \<Rightarrow> db \<Rightarrow> bool" where
  "has_verdict sc d =
    sql_exists (\<lambda>v. null_eq (vr_job_id v) (jr_id (as_job sc)) \<and>
       sql_exists (\<lambda>f. fr_id f = vr_finding_id v \<and> fr_repo_id f = rs_repo_id (as_repo sc))
         (db_findings d)) (db_verifications d)"

section \<open>Cancellation and retry\<close>

datatype cancel_outcome =
    CancelledJob job_row
  | CancelNotFound
  | NotCancellable job_state
  | CancelUnsupportedKind

definition cancel_row :: "job_state \<Rightarrow> int \<Rightarrow> job_row \<Rightarrow> job_row" where
  "cancel_row target_state now r =
    r\<lparr>jr_state := target_state, jr_worker_id := None, jr_lease_expires_at := None,
      jr_capability_hash := None, jr_finished_at := Some now,
      jr_error := Some JOB_CANCELLED_BY_ADMIN_ERROR\<rparr>"

definition jobs_cancel :: "int \<Rightarrow> int \<Rightarrow> db \<Rightarrow> (cancel_outcome \<times> db, storage_error) result" where
  "jobs_cancel job_id now d =
    (case jobs_get_raw d job_id of
       None \<Rightarrow> Ok (CancelNotFound, d)
     | Some row \<Rightarrow>
         if jr_kind row \<notin> set LEGACY_RUNTIME_KINDS then Ok (CancelUnsupportedKind, d)
         else case job_apply (jr_state row) JCancel of
           Err _ \<Rightarrow> Ok (NotCancellable (jr_state row), d)
         | Ok target_state \<Rightarrow>
             and_then (exec_update_jobs
               (\<lambda>r. jr_id r = job_id \<and> jr_repo_id r = jr_repo_id row \<and> is_active (jr_state r) \<and>
                    legacy_kinds_sql r)
               (cancel_row target_state now) d)
             (\<lambda>(updated, d1).
               if updated = 0 then
                 Ok (NotCancellable (case jobs_get_raw d1 job_id of
                       Some r \<Rightarrow> jr_state r | None \<Rightarrow> Cancelled), d)
               else
                 let d2 = (if jr_kind row = Scan
                   then delete_findings (\<lambda>f. fr_job_id f = job_id \<and> fr_repo_id f = jr_repo_id row \<and>
                          fr_state f = Pending) d1
                   else d1)
                 in and_then (ok_or (jobs_get_raw d2 job_id) (Sqlite QueryReturnedNoRows))
                      (\<lambda>r. Ok (CancelledJob r, d2))))"

definition enqueue_verify_job ::
  "int \<Rightarrow> job_state \<Rightarrow> int \<Rightarrow> int \<Rightarrow> finding_row \<Rightarrow> db \<Rightarrow> (db, storage_error) result" where
  "enqueue_verify_job repo_id initial_state scan_job_id now f d =
    exec_insert_job (new_job_row (next_rowid (map jr_id (db_jobs d))) repo_id Verify initial_state
      False None (Some scan_job_id) (Some (fr_id f)) now) d"

definition enqueue_verify_jobs_for_scan ::
  "int \<Rightarrow> int \<Rightarrow> int \<Rightarrow> db \<Rightarrow> (nat \<times> db, storage_error) result" where
  "enqueue_verify_jobs_for_scan repo_id scan_job_id now d =
    and_then (map_err sql_state_transition_error (initial_job_state JEnqueue))
     (\<lambda>initial_state.
       let selected = (if sql_exists (\<lambda>j. jr_id j = scan_job_id \<and> jr_repo_id j = repo_id \<and>
                 jr_kind j = Scan) (db_jobs d)
             then filter (\<lambda>f. fr_job_id f = scan_job_id \<and> fr_repo_id f = repo_id \<and>
                 fr_state f = Validating) (db_findings d) else [])
       in map_ok (\<lambda>d'. (length selected, d'))
            (try_fold (enqueue_verify_job repo_id initial_state scan_job_id now) selected d))"

text \<open>The conflict texts of \<open>retry_failed\<close>, by case and with the ids they print.\<close>

datatype retry_conflict =
    PhaseWork
  | NotFailed int job_state
  | NoTargetFinding int
  | TargetGone int int
  | TargetRepositoryMismatch
  | DismissedByTerminalVerdict int int
  | TargetNotValidating int int finding_state
  | HasActiveVerify int int int
  | FindingChanged int int
  | JobChanged int

datatype retry_outcome =
    Retried job_row
  | RetryNotFound
  | RetryConflict retry_conflict
  | RetryUnsupportedKind

definition requeue_row :: "job_state \<Rightarrow> int \<Rightarrow> job_row \<Rightarrow> job_row" where
  "requeue_row target_state now r =
    r\<lparr>jr_state := target_state, jr_worker_id := None, jr_lease_expires_at := None,
      jr_capability_hash := None, jr_attempts := 0, jr_started_at := None,
      jr_finished_at := None, jr_error := None, jr_head_sha := None, jr_enqueued_at := now\<rparr>"

definition requeue_failed ::
  "int \<Rightarrow> int \<Rightarrow> int \<Rightarrow> db \<Rightarrow> (job_row option \<times> db, storage_error) result" where
  "requeue_failed repo_id job_id now d =
    and_then (map_err sql_state_transition_error (job_apply Failed JRetry))
     (\<lambda>target_state. and_then
       (exec_update_jobs
         (\<lambda>r. jr_id r = job_id \<and> jr_state r = Failed \<and> jr_repo_id r = repo_id \<and> legacy_kinds_sql r)
         (requeue_row target_state now) d)
       (\<lambda>(updated, d').
         if updated = 0 then Ok (None, d')
         else Ok (jobs_get_scoped_raw d' repo_id job_id, d')))"

definition active_verify_sibling :: "db \<Rightarrow> int \<Rightarrow> int \<Rightarrow> int option" where
  "active_verify_sibling d finding_id job_id =
    (case sort_key jr_id (filter (\<lambda>r. jr_kind r = Verify \<and>
        null_eq (jr_target_finding_id r) finding_id \<and> is_active (jr_state r) \<and> jr_id r \<noteq> job_id)
        (db_jobs d)) of [] \<Rightarrow> None | r # _ \<Rightarrow> Some (jr_id r))"

text \<open>The checks a failed verify job passes before its finding is put back to validation.\<close>

definition retry_verify_target :: "db \<Rightarrow> job_row \<Rightarrow> (int, retry_conflict) result" where
  "retry_verify_target d row =
    (let job_id = jr_id row in
     case jr_target_finding_id row of
       None \<Rightarrow> Err (NoTargetFinding job_id)
     | Some finding_id \<Rightarrow>
         (case findings_get_raw d finding_id of
            None \<Rightarrow> Err (TargetGone job_id finding_id)
          | Some f \<Rightarrow>
              if fr_repo_id f \<noteq> jr_repo_id row then Err TargetRepositoryMismatch
              else if fr_state f = Dismissed \<and>
                  \<not> is_deadline_dismissed_without_terminal_verdict d finding_id
                then Err (DismissedByTerminalVerdict job_id finding_id)
              else if fr_state f \<noteq> Validating \<and> fr_state f \<noteq> Dismissed
                then Err (TargetNotValidating job_id finding_id (fr_state f))
              else case active_verify_sibling d finding_id job_id of
                Some active \<Rightarrow> Err (HasActiveVerify job_id finding_id active)
              | None \<Rightarrow> Ok finding_id))"

definition retry_failed ::
  "int \<Rightarrow> int \<Rightarrow> int \<Rightarrow> db \<Rightarrow> (retry_outcome \<times> db, storage_error) result" where
  "retry_failed job_id now validating_deadline d =
    (if sql_exists (\<lambda>r. jr_id r = job_id \<and>
         (jr_campaign_id r \<noteq> None \<or> PHASE_FINDING_TARGET_SQL d r)) (db_jobs d)
     then Ok (RetryConflict PhaseWork, d)
     else case jobs_get_raw d job_id of
       None \<Rightarrow> Ok (RetryNotFound, d)
     | Some row \<Rightarrow>
         if jr_kind row \<notin> set LEGACY_RUNTIME_KINDS then Ok (RetryUnsupportedKind, d)
         else if jr_state row \<noteq> Failed then Ok (RetryConflict (NotFailed job_id (jr_state row)), d)
         else
           let requeue = (\<lambda>d1. and_then (requeue_failed (jr_repo_id row) job_id now d1)
                 (\<lambda>(res, d2). case res of
                    None \<Rightarrow> Ok (RetryConflict (JobChanged job_id), d)
                  | Some r \<Rightarrow> Ok (Retried r, d2)))
           in if jr_kind row = Verify then
                (case retry_verify_target d row of
                   Err c \<Rightarrow> Ok (RetryConflict c, d)
                 | Ok finding_id \<Rightarrow>
                     and_then (retry_verification (jr_repo_id row) finding_id validating_deadline d)
                      (\<lambda>(ok, d1). if ok then requeue d1
                         else Ok (RetryConflict (FindingChanged job_id finding_id), d)))
              else requeue d)"

section \<open>Listing and counting\<close>

record job_filter =
  jf_states :: "job_state list"
  jf_kind :: "job_kind option"
  jf_limit :: "int option"

definition jobs_list :: "db \<Rightarrow> job_filter \<Rightarrow> job_row list" where
  "jobs_list d flt =
    (let rows = filter (\<lambda>r. (jf_states flt = [] \<or> jr_state r \<in> set (jf_states flt)) \<and>
             (case jf_kind flt of None \<Rightarrow> True
              | Some k \<Rightarrow> job_kind_as_str (jr_kind r) = job_kind_as_str k)) (db_jobs d);
         sorted = sort_key (\<lambda>r. (- jr_enqueued_at r, - jr_id r)) rows
     in case jf_limit flt of None \<Rightarrow> sorted | Some n \<Rightarrow> sql_limit n sorted)"

definition count_active_scans_for_repo :: "db \<Rightarrow> int \<Rightarrow> nat" where
  "count_active_scans_for_repo d repo_id =
    sql_count (\<lambda>r. jr_repo_id r = repo_id \<and> jr_kind r = Scan \<and> is_active (jr_state r)) (db_jobs d)"

definition scan_duration_ms :: "int option \<Rightarrow> int \<Rightarrow> (int, storage_error) result" where
  "scan_duration_ms started_at now =
    (case started_at of None \<Rightarrow> Ok 0
     | Some start \<Rightarrow>
         ok_or (Option.bind (i64_checked_sub now start) (\<lambda>s. i64_checked_mul s 1000))
           (Sqlite (InvalidScalar 13)))"

section \<open>Reaping legacy leases\<close>

definition reap_fail_row :: "job_state \<Rightarrow> string \<Rightarrow> int \<Rightarrow> job_row \<Rightarrow> job_row" where
  "reap_fail_row failed_state err now r =
    r\<lparr>jr_state := failed_state, jr_worker_id := None, jr_lease_expires_at := None,
      jr_capability_hash := None, jr_finished_at := Some now,
      jr_error := coalesce (jr_error r) (Some err)\<rparr>"

definition reap_requeue_row :: "job_state \<Rightarrow> job_row \<Rightarrow> job_row" where
  "reap_requeue_row requeued_state r =
    r\<lparr>jr_state := requeued_state, jr_worker_id := None, jr_lease_expires_at := None,
      jr_capability_hash := None, jr_started_at := None\<rparr>"

definition expired_legacy :: "int \<Rightarrow> job_row \<Rightarrow> bool" where
  "expired_legacy now r \<longleftrightarrow> jr_campaign_id r = None \<and> jr_state r = Leased \<and>
     null_less (jr_lease_expires_at r) now"

definition reap_legacy :: "int \<Rightarrow> db \<Rightarrow> (nat \<times> db, storage_error) result" where
  "reap_legacy now d =
    and_then (map_err sql_state_transition_error (job_apply Leased JReapToQueued))
     (\<lambda>requeued_state. and_then (map_err sql_state_transition_error (job_apply Leased JReapToFailed))
     (\<lambda>failed_state. and_then
       (exec_update_jobs
         (\<lambda>r. expired_legacy now r \<and> jr_kind r = Verify \<and> PHASE_FINDING_TARGET_SQL d r)
         (reap_fail_row failed_state ''legacy verification cannot target phase findings'' now) d)
     (\<lambda>(incompatible, d1).
       let failing_scan_jobs = map (\<lambda>r. (jr_id r, jr_repo_id r))
             (filter (\<lambda>r. jr_kind r = Scan \<and> expired_legacy now r \<and> jr_attempts r \<ge> MAX_ATTEMPTS)
               (db_jobs d1))
       in and_then
         (exec_update_jobs
           (\<lambda>r. expired_legacy now r \<and> jr_attempts r < MAX_ATTEMPTS \<and> legacy_kinds_sql r)
           (reap_requeue_row requeued_state) d1)
     (\<lambda>(requeued, d2). and_then
         (exec_update_jobs
           (\<lambda>r. expired_legacy now r \<and> jr_attempts r \<ge> MAX_ATTEMPTS \<and> legacy_kinds_sql r)
           (reap_fail_row failed_state LEASE_EXPIRED_AFTER_MAX_ATTEMPTS_ERROR now) d2)
     (\<lambda>(failed, d3).
       Ok (incompatible + requeued + failed,
           fold (\<lambda>(job_id, repo_id). delete_pending_for_job repo_id job_id) failing_scan_jobs d3))))))"

section \<open>What a job update may do\<close>

text \<open>
  The lease columns of a row: a leased job has a worker, an expiry and a capability; any
  other job has neither expiry nor capability.
\<close>

definition lease_ok :: "job_row \<Rightarrow> bool" where
  "lease_ok r \<longleftrightarrow>
     (if jr_state r = Leased
      then jr_worker_id r \<noteq> None \<and> jr_lease_expires_at r \<noteq> None \<and> jr_capability_hash r \<noteq> None
      else jr_lease_expires_at r = None \<and> jr_capability_hash r = None)"

text \<open>A stored kind is what its spelling parses to; \<open>Unknown "scan"\<close> is never stored.\<close>

definition kind_ok :: "job_row \<Rightarrow> bool" where
  "kind_ok r \<longleftrightarrow> job_kind_from_text (job_kind_as_str (jr_kind r)) = jr_kind r"

definition jobs_wf :: "db \<Rightarrow> bool" where
  "jobs_wf d \<longleftrightarrow> distinct (map jr_id (db_jobs d)) \<and> jobs_unique (db_jobs d) \<and>
     (\<forall>r \<in> set (db_jobs d). lease_ok r \<and> kind_ok r)"

definition job_evolves :: "job_row \<Rightarrow> job_row \<Rightarrow> bool" where
  "job_evolves r r' \<longleftrightarrow>
     jr_id r' = jr_id r \<and> jr_repo_id r' = jr_repo_id r \<and> jr_kind r' = jr_kind r \<and>
     jr_target_finding_id r' = jr_target_finding_id r \<and> jr_parent_job_id r' = jr_parent_job_id r \<and>
     jr_phase r' = jr_phase r \<and>
     (jr_state r' = jr_state r \<or> (\<exists>t. job_apply (jr_state r) t = Ok (jr_state r')))"

definition jobs_step :: "db \<Rightarrow> db \<Rightarrow> bool" where
  "jobs_step d d' \<longleftrightarrow>
     (\<exists>us news. list_all2 job_evolves (db_jobs d) us \<and> db_jobs d' = us @ news \<and>
        (\<forall>r \<in> set news. jr_state r = Queued \<and> jr_capability_hash r = None \<and>
           jr_campaign_id r = None \<and> jr_id r \<notin> jr_id ` set (db_jobs d)))"

lemma job_evolves_refl [simp]: "job_evolves r r"
  by (simp add: job_evolves_def)

lemma jobs_step_refl: "db_jobs d' = db_jobs d \<Longrightarrow> jobs_step d d'"
  unfolding jobs_step_def
  by (intro exI[of _ "db_jobs d"] exI[of _ "[]"]) (simp add: list_all2_same)

lemma jobs_wf_cong: "db_jobs d' = db_jobs d \<Longrightarrow> jobs_wf d \<Longrightarrow> jobs_wf d'"
  by (simp add: jobs_wf_def)

lemma db_jobs_delete_findings [simp]: "db_jobs (delete_findings P d) = db_jobs d"
  by (simp add: delete_findings_def Let_def)

lemma db_findings_jobs_upd [simp]: "db_findings (d\<lparr>db_jobs := js\<rparr>) = db_findings d"
  by simp

locale job_update =
  fixes P :: "job_row \<Rightarrow> bool" and f :: "job_row \<Rightarrow> job_row"
  assumes evolves: "P r \<Longrightarrow> job_evolves r (f r)"
    and lease_kept: "P r \<Longrightarrow> lease_ok r \<Longrightarrow> lease_ok (f r)"
begin

lemma ids_kept: "map jr_id (sql_update P f t) = map jr_id t"
  using evolves by (auto simp: sql_update_def job_evolves_def)

lemma step:
  assumes "exec_update_jobs P f d = Ok (n, d')"
  shows "jobs_step d d'"
  unfolding jobs_step_def
  by (intro exI[of _ "sql_update P f (db_jobs d)"] exI[of _ "[]"])
    (use assms in \<open>auto simp: exec_update_jobs_Ok sql_update_def list_all2_map2 list_all2_same evolves\<close>)

lemma wf:
  assumes "jobs_wf d" and "exec_update_jobs P f d = Ok (n, d')"
  shows "jobs_wf d'"
  using assms ids_kept[of "db_jobs d"] evolves
  by (auto simp: exec_update_jobs_Ok jobs_wf_def in_sql_update_iff lease_kept kind_ok_def job_evolves_def)

lemma frame:
  assumes "exec_update_jobs P f d = Ok (n, d')"
  shows "db_findings d' = db_findings d \<and> n = sql_count P (db_jobs d)"
  using assms by (auto simp: exec_update_jobs_Ok)

end

text \<open>Updates that drop the capability keep every index, so the statement cannot fail.\<close>

locale releasing_update = job_update +
  assumes releases: "P r \<Longrightarrow> jr_capability_hash (f r) = None"
    and active_kept: "P r \<Longrightarrow> is_active (jr_state (f r)) \<Longrightarrow> is_active (jr_state r)"
begin

lemma never_fails:
  assumes "jobs_wf d"
  shows "exec_update_jobs P f d = Ok (sql_count P (db_jobs d), d\<lparr>db_jobs := sql_update P f (db_jobs d)\<rparr>)"
proof -
  have "jobs_unique (sql_update P f (db_jobs d))"
    using assms evolves releases active_kept
    by (intro jobs_unique_update) (auto simp: jobs_wf_def key_defs job_evolves_def)
  then show ?thesis by (simp add: exec_update_jobs_def Let_def)
qed

end

interpretation heartbeat_update: job_update
  "\<lambda>r. live_lease job worker hash now r \<and> jr_state r = Leased"
  "\<lambda>r. r\<lparr>jr_lease_expires_at := Some until\<rparr>" for job worker hash now until
  by unfold_locales (auto simp: job_evolves_def lease_ok_def)

lemma complete_releasing:
  assumes "target = Succeeded \<or> target = Failed"
  shows "releasing_update (live_lease job worker hash now) (complete_row target head err now)"
  by unfold_locales
    (use assms in \<open>auto simp: job_evolves_def lease_ok_def live_lease_def complete_row_def is_active_def
      job_apply_entry\<close>)

lemma jobs_complete_Ok:
  "jobs_complete lease st head err now d = Ok (res, d') \<longleftrightarrow>
     (st = Succeeded \<or> st = Failed) \<and>
     (\<exists>n. exec_update_jobs
        (live_lease (li_job_id lease) (li_worker_id lease) (li_capability_hash lease) now)
        (complete_row st head err now) d = Ok (n, d') \<and> res = (n > 0))"
  by (cases st) (auto simp: jobs_complete_def and_then_Ok_iff job_apply_def)

lemma job_apply_cancel:
  "job_apply s JCancel = (if is_active s then Ok Cancelled
     else Err (transition_error ''job'' (job_state_as_str s) ''cancel''))"
  by (cases s) (simp_all add: job_apply_def is_active_def)

lemma jobs_cancel_cases:
  assumes "jobs_cancel job now d = Ok (res, d')"
  obtains (unchanged) "d' = d"
  | (cancelled) row n d1 r where "jobs_get_raw d job = Some row" "jr_kind row \<in> set LEGACY_RUNTIME_KINDS"
      "is_active (jr_state row)"
      "exec_update_jobs (\<lambda>r. jr_id r = job \<and> jr_repo_id r = jr_repo_id row \<and> is_active (jr_state r) \<and>
         legacy_kinds_sql r) (cancel_row Cancelled now) d = Ok (n, d1)" "n \<noteq> 0"
      "d' = (if jr_kind row = Scan then delete_findings (\<lambda>f. fr_job_id f = job \<and>
         fr_repo_id f = jr_repo_id row \<and> fr_state f = Pending) d1 else d1)"
      "res = CancelledJob r" "jobs_get_raw d' job = Some r"
proof (cases "jobs_get_raw d job")
  case None
  with assms unchanged show ?thesis by (simp add: jobs_cancel_def)
next
  case (Some row)
  show ?thesis
  proof (cases "jr_kind row \<in> set LEGACY_RUNTIME_KINDS \<and> is_active (jr_state row)")
    case False
    with assms Some unchanged show ?thesis
      by (auto simp: jobs_cancel_def job_apply_cancel split: if_splits)
  next
    case True
    with assms Some obtain n d1 where run: "exec_update_jobs (\<lambda>r. jr_id r = job \<and>
        jr_repo_id r = jr_repo_id row \<and> is_active (jr_state r) \<and> legacy_kinds_sql r)
        (cancel_row Cancelled now) d = Ok (n, d1)"
      by (auto simp: jobs_cancel_def job_apply_cancel and_then_Ok_iff)
    show ?thesis
    proof (cases "n = 0")
      case True
      with assms Some \<open>jr_kind row \<in> _ \<and> _\<close> run unchanged show ?thesis
        by (simp add: jobs_cancel_def job_apply_cancel)
    next
      case False
      with assms Some True run obtain r where "res = CancelledJob r" "jobs_get_raw d' job = Some r"
        "d' = (if jr_kind row = Scan then delete_findings (\<lambda>f. fr_job_id f = job \<and>
         fr_repo_id f = jr_repo_id row \<and> fr_state f = Pending) d1 else d1)"
        by (auto simp: jobs_cancel_def job_apply_cancel Let_def and_then_Ok_iff ok_or_Ok_iff)
      with Some True run False show ?thesis using cancelled by blast
    qed
  qed
qed

lemma cancel_releasing:
  "releasing_update (\<lambda>r. jr_id r = job \<and> jr_repo_id r = repo \<and> is_active (jr_state r) \<and> legacy_kinds_sql r)
     (cancel_row Cancelled now)"
  by unfold_locales
    (auto simp: job_evolves_def lease_ok_def cancel_row_def is_active_def job_apply_entry)

interpretation requeue_update: job_update
  "\<lambda>r. jr_id r = job \<and> jr_state r = Failed \<and> jr_repo_id r = repo \<and> legacy_kinds_sql r"
  "requeue_row Queued now" for job repo now
  by unfold_locales (auto simp: job_evolves_def lease_ok_def requeue_row_def job_apply_entry)

interpretation reap_incompatible: releasing_update
  "\<lambda>r. expired_legacy now r \<and> jr_kind r = Verify \<and> Q r"
  "reap_fail_row Failed err now" for now Q err
  by unfold_locales
    (auto simp: job_evolves_def lease_ok_def reap_fail_row_def is_active_def expired_legacy_def
      job_apply_entry)

interpretation reap_requeue: releasing_update
  "\<lambda>r. expired_legacy now r \<and> jr_attempts r < MAX_ATTEMPTS \<and> legacy_kinds_sql r"
  "reap_requeue_row Queued" for now
  by unfold_locales
    (auto simp: job_evolves_def lease_ok_def reap_requeue_row_def is_active_def expired_legacy_def
      job_apply_entry)

interpretation reap_fail: releasing_update
  "\<lambda>r. expired_legacy now r \<and> jr_attempts r \<ge> MAX_ATTEMPTS \<and> legacy_kinds_sql r"
  "reap_fail_row Failed err now" for now err
  by unfold_locales
    (auto simp: job_evolves_def lease_ok_def reap_fail_row_def is_active_def expired_legacy_def
      job_apply_entry)

lemma exec_insert_job_Ok:
  assumes "exec_insert_job r d = Ok d'"
  shows "d' = d\<lparr>db_jobs := db_jobs d @ [r]\<rparr> \<and> jobs_unique (db_jobs d @ [r])"
  using assms by (auto simp: exec_insert_job_def split: if_splits)

lemma new_job_row_simps [simp]:
  "jr_id (new_job_row i repo k st inc since par tgt now) = i"
  "jr_repo_id (new_job_row i repo k st inc since par tgt now) = repo"
  "jr_kind (new_job_row i repo k st inc since par tgt now) = job_kind_from_text (job_kind_as_str k)"
  "jr_state (new_job_row i repo k st inc since par tgt now) = st"
  "jr_capability_hash (new_job_row i repo k st inc since par tgt now) = None"
  "jr_lease_expires_at (new_job_row i repo k st inc since par tgt now) = None"
  "jr_target_finding_id (new_job_row i repo k st inc since par tgt now) = tgt"
  "jr_parent_job_id (new_job_row i repo k st inc since par tgt now) = par"
  "jr_phase (new_job_row i repo k st inc since par tgt now) = no_phase"
  "campaign_id no_phase = None"
  by (simp_all add: new_job_row_def no_phase_def)

lemma new_job_row_kind_ok [simp]: "kind_ok (new_job_row i repo k st inc since par tgt now)"
  by (simp add: kind_ok_def job_kind_text_round_trip)

lemma kind_ok_str_iff: "kind_ok r \<Longrightarrow> is_known k \<Longrightarrow> job_kind_as_str (jr_kind r) = job_kind_as_str k \<longleftrightarrow> jr_kind r = k"
  by (metis kind_ok_def job_kind_known_round_trip)

lemma legacy_kinds_sql_iff: "kind_ok r \<Longrightarrow> legacy_kinds_sql r \<longleftrightarrow> jr_kind r = Scan \<or> jr_kind r = Verify"
  using kind_ok_str_iff[of r Scan] kind_ok_str_iff[of r Verify]
  by (auto simp: legacy_kinds_sql_def LEGACY_RUNTIME_KINDS_def is_known_def)

lemma insert_job_step:
  assumes "exec_insert_job r d = Ok d'" and "jr_state r = Queued" and "jr_capability_hash r = None"
    and "jr_campaign_id r = None" and "jr_lease_expires_at r = None" and "kind_ok r"
    and "jr_id r = next_rowid (map jr_id (db_jobs d))"
  shows "jobs_step d d' \<and> db_findings d' = db_findings d \<and> (jobs_wf d \<longrightarrow> jobs_wf d')"
proof (intro conjI impI)
  note d' = exec_insert_job_Ok[OF assms(1)]
  show "jobs_step d d'"
    unfolding jobs_step_def
    by (intro exI[of _ "db_jobs d"] exI[of _ "[r]"])
      (use assms d' next_rowid_fresh[of "map jr_id (db_jobs d)"] in \<open>auto simp: list_all2_same\<close>)
  show "db_findings d' = db_findings d" using d' by simp
  show "jobs_wf d'" if "jobs_wf d"
    using that d' assms next_rowid_fresh[of "map jr_id (db_jobs d)"]
    by (auto simp: jobs_wf_def lease_ok_def)
qed

end
