(* ===== verification/Claim.thy ===== *)
theory Claim
  imports Jobs
begin

text \<open>
  Claiming work through the legacy lease route: \<open>scheduler::claim\<close>, \<open>claim_raw\<close> and
  \<open>claim_filtered\<close> (\<open>scheduler.rs\<close>, \<open>scheduler/claim.rs\<close>) with their policy check, the
  selection of the queued row in claim order and the lease UPDATE. \<open>claim_raw\<close> passes no
  campaign kinds, so a campaign row never satisfies the WHERE clause; on the remaining
  rows the PROMOTED, anti-affinity, active-total and sequence keys are constants.
\<close>

section \<open>Policy\<close>

record claim_policy =
  active_jobs_per_repo :: int
  active_jobs_total :: "int option"
  active_surveys_per_repo :: int
  active_drilldowns_per_repo :: int
  active_verifications_per_repo :: int
  verify_reserved_slots :: int
  lease_seconds :: int
  lease_report_grace_seconds :: int
  urgency_burst_length :: int
  priority_aging_interval_seconds :: int
  priority_aging_cap :: int

definition claim_policy_default :: claim_policy where
  "claim_policy_default =
    \<lparr>active_jobs_per_repo = 3, active_jobs_total = None, active_surveys_per_repo = 1,
     active_drilldowns_per_repo = 2, active_verifications_per_repo = 2, verify_reserved_slots = 1,
     lease_seconds = 600, lease_report_grace_seconds = 60, urgency_burst_length = 4,
     priority_aging_interval_seconds = 3600, priority_aging_cap = 8\<rparr>"

definition claim_policy_invalid :: "claim_policy \<Rightarrow> bool" where
  "claim_policy_invalid p \<longleftrightarrow>
     priority_aging_interval_seconds p < 1 \<or> priority_aging_cap p < 0 \<or> lease_seconds p < 1 \<or>
     lease_report_grace_seconds p < 1 \<or> active_jobs_per_repo p < 1 \<or>
     (case active_jobs_total p of None \<Rightarrow> False | Some n \<Rightarrow> n < 1) \<or>
     active_surveys_per_repo p < 1 \<or> active_drilldowns_per_repo p < 1 \<or>
     active_verifications_per_repo p < 1 \<or> verify_reserved_slots p < 0 \<or>
     urgency_burst_length p < 1"

record claim_request =
  cr_worker_id :: int
  cr_kinds :: "job_kind list"
  cr_now :: int
  cr_capability_hash :: blob
  cr_legacy_lease_seconds :: int
  cr_policy :: claim_policy

record claimed =
  cl_job :: job_row
  cl_assigned_units :: "int list"
  cl_resumed :: bool

section \<open>Selection\<close>

definition BAND_RANK :: "job_row \<Rightarrow> int" where
  "BAND_RANK j =
    (if jr_campaign_id j = None then 2
     else case scheduling_band (jr_phase j) of
       Some Urgent \<Rightarrow> 0 | Some HighBand \<Rightarrow> 1 | Some Normal \<Rightarrow> 2 | _ \<Rightarrow> 3)"

definition SCORE :: "claim_policy \<Rightarrow> int \<Rightarrow> job_row \<Rightarrow> int" where
  "SCORE p now j =
    (if jr_campaign_id j = None then (if jr_kind j = Verify then 1 else 0)
     else (case effective_priority (jr_phase j) of None \<Rightarrow> 0 | Some x \<Rightarrow> x) +
       min (max (now - jr_enqueued_at j) 0 div priority_aging_interval_seconds p)
           (priority_aging_cap p))"

definition sql_kind_list :: "job_kind list \<Rightarrow> string list" where
  "sql_kind_list kinds =
    map job_kind_as_str
      (filter (\<lambda>k. case k of Scan \<Rightarrow> True | Survey \<Rightarrow> True | Drilldown \<Rightarrow> True | Verify \<Rightarrow> True
                 | Unknown _ \<Rightarrow> False) kinds)"

definition claim_candidates :: "string list \<Rightarrow> db \<Rightarrow> job_row list" where
  "claim_candidates kinds d =
    filter (\<lambda>j. jr_state j = Queued \<and> job_kind_as_str (jr_kind j) \<in> set kinds \<and>
       jr_campaign_id j = None) (db_jobs d)"

definition claim_order :: "claim_policy \<Rightarrow> int \<Rightarrow> job_row \<Rightarrow> int \<times> int \<times> int \<times> int" where
  "claim_order p now j = (BAND_RANK j, - SCORE p now j, jr_enqueued_at j, jr_id j)"

definition claim_select :: "claim_request \<Rightarrow> string list \<Rightarrow> db \<Rightarrow> job_row option" where
  "claim_select req kinds d =
    (case sort_key (claim_order (cr_policy req) (cr_now req)) (claim_candidates kinds d) of
       [] \<Rightarrow> None | j # _ \<Rightarrow> Some j)"

definition lease_row :: "claim_request \<Rightarrow> int \<Rightarrow> job_row \<Rightarrow> job_row" where
  "lease_row req lease r =
    r\<lparr>jr_state := Leased, jr_worker_id := Some (cr_worker_id req),
      jr_lease_expires_at := Some lease, jr_attempts := jr_attempts r + 1,
      jr_started_at := coalesce (jr_started_at r) (Some (cr_now req)),
      jr_capability_hash := Some (cr_capability_hash req)\<rparr>"

definition claim_filtered ::
  "claim_request \<Rightarrow> job_kind list \<Rightarrow> db \<Rightarrow> (claimed option \<times> db, storage_error) result" where
  "claim_filtered req kinds d =
    (let kinds = sql_kind_list kinds in
     if kinds = [] then Ok (None, d)
     else if claim_policy_invalid (cr_policy req) then Err (Validation ''claim_policy'')
     else and_then (ok_or (i64_checked_add (cr_now req) (cr_legacy_lease_seconds req))
                      (Validation ''lease_expires_at''))
       (\<lambda>lease.
         case claim_select req kinds d of
           None \<Rightarrow> Ok (None, d)
         | Some j \<Rightarrow>
             if cr_worker_id req \<notin> set (db_workers d) then Err (Sqlite ConstraintViolation)
             else and_then (exec_update_jobs (\<lambda>r. jr_id r = jr_id j) (lease_row req lease) d)
               (\<lambda>(_, d').
                 if jr_attempts j + 1 > 4294967295
                 then Err (Sqlite (IntegralValueOutOfRange 11 (jr_attempts j + 1)))
                 else Ok (Some \<lparr>cl_job = lease_row req lease j, cl_assigned_units = [],
                            cl_resumed = False\<rparr>, d'))))"

definition claim_raw ::
  "claim_request \<Rightarrow> db \<Rightarrow> (claimed option \<times> db, storage_error) result" where
  "claim_raw req d =
    claim_filtered req
      (filter (\<lambda>kind. list_ex (\<lambda>allowed. is_known kind \<and>
          job_kind_as_str allowed = job_kind_as_str kind) LEGACY_RUNTIME_KINDS) (cr_kinds req)) d"

section \<open>The claiming transaction\<close>

record claimed_lease =
  cle_claimed :: claimed
  cle_repository :: repo_row
  cle_target :: "finding_row option"
  cle_reviewed_revision :: "string option"

definition claim :: "claim_request \<Rightarrow> db \<Rightarrow> (claimed_lease option \<times> db, storage_error) result" where
  "claim req d =
    and_then (claim_raw req d)
     (\<lambda>(res, d'). case res of
        None \<Rightarrow> Ok (None, d')
      | Some claimed \<Rightarrow>
          let job = cl_job claimed in
          and_then (ok_or (row_by rp_id (jr_repo_id job) (db_repos d')) ScopeDenied)
           (\<lambda>repository.
             if jr_kind job = Verify then
               and_then (ok_or (jr_target_finding_id job) ScopeDenied)
                (\<lambda>target_id. and_then
                  (ok_or (findings_get_selected d' (jr_repo_id job) target_id) ScopeDenied)
                (\<lambda>target.
                  let reviewed_id = (case jr_parent_job_id job of Some p \<Rightarrow> p | None \<Rightarrow> fr_job_id target);
                      reviewed = Option.bind
                        (find (\<lambda>r. jr_id r = reviewed_id \<and> jr_repo_id r = jr_repo_id job \<and>
                           jr_kind r = Scan) (db_jobs d')) jr_head_sha
                  in Ok (Some \<lparr>cle_claimed = claimed, cle_repository = repository,
                       cle_target = Some target, cle_reviewed_revision = reviewed\<rparr>, d')))
             else Ok (Some \<lparr>cle_claimed = claimed, cle_repository = repository,
                       cle_target = None, cle_reviewed_revision = None\<rparr>, d')))"

end
