(* ===== verification/Reports.thy ===== *)
theory Reports
  imports Claim
begin

text \<open>
  Report selection and the two worker transactions that end a lease (\<open>reports.rs\<close>):
  \<open>complete_assignment\<close>, \<open>submit_verdict\<close>, the operator's \<open>approve\<close>, and the receipt that
  marks delivered findings after commit. A prepared report is its receipt: the exact rows
  (id and row identity) selected in the transaction.
\<close>

section \<open>Selection\<close>

datatype unavailable = UStoredInput | UCredential | URevision

record member =
  mb_id :: int
  mb_identity :: blob
  mb_completed :: bool

record report_receipt =
  rr_database :: nat
  rr_committed :: bool
  rr_repo_id :: int
  rr_members :: "member list"

datatype preparation =
    NoReport
  | Unavailable unavailable
  | Ready report_receipt

datatype selection = SelJob int | SelFinding int

definition credential_missing :: "db \<Rightarrow> reporting_destination \<Rightarrow> bool" where
  "credential_missing d dest =
    (case dest of
       GithubIssue _ _ (Some i) \<Rightarrow> \<not> sql_exists (\<lambda>s. sec_id s = i) (db_secrets d)
     | GithubIssue _ _ None \<Rightarrow>
         \<not> sql_exists (\<lambda>s. sec_kind s = ''github_app'' \<and> sec_label s = ''server'') (db_secrets d)
     | _ \<Rightarrow> False)"

text \<open>\<open>identity\<close> is the \<open>DbIdentity\<close> of the open database; the receipt is inactive until commit.\<close>

definition report_select ::
  "nat \<Rightarrow> int \<Rightarrow> selection \<Rightarrow> db \<Rightarrow> (preparation, storage_error) result" where
  "report_select identity repo_id sel d =
    and_then (ok_or (row_by rp_id repo_id (db_repos d)) ScopeDenied)
     (\<lambda>repo.
       if rp_reporting repo = Manual then Ok NoReport
       else
         let chosen = (\<lambda>r. case sel of SelJob j \<Rightarrow> fr_job_id r = j | SelFinding i \<Rightarrow> fr_id r = i);
             rows = filter (\<lambda>r. fr_state r = Confirmed)
               (sort_key fr_id (filter (\<lambda>r. fr_repo_id r = repo_id \<and> chosen r) (db_findings d)))
         in if rows = [] then Ok NoReport
            else if credential_missing d (rp_reporting repo) then Ok (Unavailable UCredential)
            else Ok (Ready \<lparr>rr_database = identity, rr_committed = False, rr_repo_id = repo_id,
                   rr_members = map (\<lambda>r. \<lparr>mb_id = fr_id r, mb_identity = fr_report_identity r,
                                         mb_completed = False\<rparr>) rows\<rparr>))"

definition report_prepare ::
  "nat \<Rightarrow> int \<Rightarrow> selection \<Rightarrow> db \<Rightarrow> (preparation, storage_error) result" where
  "report_prepare identity repo_id sel d =
    (case report_select identity repo_id sel d of
       Ok p \<Rightarrow> Ok p
     | Err (Sqlite (InvalidScalar _)) \<Rightarrow> Ok (Unavailable UStoredInput)
     | Err (Sqlite (IntegralValueOutOfRange _ _)) \<Rightarrow> Ok (Unavailable UStoredInput)
     | Err (Validation _) \<Rightarrow> Ok (Unavailable UStoredInput)
     | Err e \<Rightarrow> Err e)"

definition prepare_assignment ::
  "nat \<Rightarrow> assignment_scope \<Rightarrow> db \<Rightarrow> (preparation, storage_error) result" where
  "prepare_assignment identity sc d =
    and_then
      (case jr_kind (as_job sc) of
         Scan \<Rightarrow> Ok (SelJob (jr_id (as_job sc)))
       | Verify \<Rightarrow> map_ok SelFinding (ok_or (jr_target_finding_id (as_job sc)) ScopeDenied)
       | _ \<Rightarrow> Err ScopeDenied)
      (\<lambda>sel. report_prepare identity (rs_repo_id (as_repo sc)) sel d)"

definition prepare_operator ::
  "nat \<Rightarrow> repo_scope \<Rightarrow> int \<Rightarrow> db \<Rightarrow> (preparation, storage_error) result" where
  "prepare_operator identity sc finding_id d =
    and_then (require_operator sc)
      (\<lambda>_. report_prepare identity (rs_repo_id sc) (SelFinding finding_id) d)"

section \<open>Completion\<close>

text \<open>\<open>sha.trim().is_empty()\<close> on the UTF-8 bytes: every character is Unicode White\_Space.\<close>

fun blank_bytes :: "nat list \<Rightarrow> bool" where
  "blank_bytes [] = True"
| "blank_bytes (a # bs) =
    (if (9 \<le> a \<and> a \<le> 13) \<or> a = 32 then blank_bytes bs
     else case bs of
       [] \<Rightarrow> False
     | b # cs \<Rightarrow>
         if a = 0xC2 \<and> (b = 0x85 \<or> b = 0xA0) then blank_bytes cs
         else case cs of
           [] \<Rightarrow> False
         | c # ds \<Rightarrow>
             if (a = 0xE1 \<and> b = 0x9A \<and> c = 0x80)
                \<or> (a = 0xE2 \<and> b = 0x80 \<and> ((0x80 \<le> c \<and> c \<le> 0x8A) \<or> c = 0xA8 \<or> c = 0xA9 \<or> c = 0xAF))
                \<or> (a = 0xE2 \<and> b = 0x81 \<and> c = 0x9F)
                \<or> (a = 0xE3 \<and> b = 0x80 \<and> c = 0x80)
             then blank_bytes ds else False)"

definition is_blank :: "string \<Rightarrow> bool" where
  "is_blank s = blank_bytes (map of_char s)"

definition option_filter :: "('a \<Rightarrow> bool) \<Rightarrow> 'a option \<Rightarrow> 'a option" where
  "option_filter P x = (case x of Some y \<Rightarrow> if P y then Some y else None | None \<Rightarrow> None)"

definition complete_scan ::
  "nat \<Rightarrow> assignment_scope \<Rightarrow> string option \<Rightarrow> bool \<Rightarrow> int \<Rightarrow> db
   \<Rightarrow> (preparation \<times> db, storage_error) result" where
  "complete_scan identity sc head_sha approval_default validating_deadline d =
    (let job = as_job sc; repo_id = rs_repo_id (as_repo sc); now = al_now (as_lease sc) in
     and_then (scan_duration_ms (jr_started_at job) now) (\<lambda>duration_ms.
     and_then (ok_or (option_filter (\<lambda>s. \<not> is_blank s) head_sha) (ConflictErr JobStateConflict)) (\<lambda>revision.
     and_then (ok_or (row_by rp_id repo_id (db_repos d)) ScopeDenied) (\<lambda>repo.
     and_then (exec_update_jobs
       (\<lambda>r. jr_id r = jr_id job \<and> jr_repo_id r = repo_id \<and> jr_state r = Leased)
       (\<lambda>r. r\<lparr>jr_head_sha := Some revision\<rparr>) d) (\<lambda>(_, d1).
     let d2 = d1\<lparr>db_repos := sql_update (\<lambda>r. rp_id r = repo_id)
                  (\<lambda>r. r\<lparr>rp_last_scanned_sha := Some revision, rp_last_scanned_at := Some now\<rparr>)
                  (db_repos d1)\<rparr>;
         count = sql_count (\<lambda>f. fr_job_id f = jr_id job \<and> fr_repo_id f = repo_id) (db_findings d2);
         d3 = d2\<lparr>db_scan_history := db_scan_history d2 @
                  [\<lparr>sh_repo_id = repo_id, sh_job_id = jr_id job, sh_head_sha = revision,
                    sh_base_sha = jr_since_sha job, sh_finding_count = count,
                    sh_duration_ms = duration_ms, sh_finished_at = now\<rparr>]\<rparr>
     in and_then (transition_scan_findings_after_success repo_id (jr_id job)
            (effective_require_approval repo approval_default) validating_deadline now d3) (\<lambda>(_, d4).
        and_then (enqueue_verify_jobs_for_scan repo_id (jr_id job) now d4) (\<lambda>(_, d5).
        map_ok (\<lambda>p. (p, d5)) (prepare_assignment identity sc d5))))))))"

definition complete_verify_check :: "assignment_scope \<Rightarrow> db \<Rightarrow> bool" where
  "complete_verify_check sc d =
    (let repo_id = rs_repo_id (as_repo sc) in
     sql_exists (\<lambda>v. null_eq (vr_job_id v) (jr_id (as_job sc)) \<and>
       sql_exists (\<lambda>f. fr_id f = vr_finding_id v \<and> fr_repo_id f = repo_id \<and>
          null_eq (jr_target_finding_id (as_job sc)) (fr_id f)) (db_findings d)) (db_verifications d))"

definition complete_assignment ::
  "nat \<Rightarrow> job_state \<Rightarrow> string option \<Rightarrow> string option \<Rightarrow> bool \<Rightarrow> int \<Rightarrow> assignment_scope \<Rightarrow> db
   \<Rightarrow> (preparation \<times> db, storage_error) result" where
  "complete_assignment identity st head_sha err approval_default validating_deadline sc d =
    (let job = as_job sc; now = al_now (as_lease sc) in
     and_then
       (if st = Succeeded then
          (case jr_kind job of
             Scan \<Rightarrow> complete_scan identity sc head_sha approval_default validating_deadline d
           | Verify \<Rightarrow> if complete_verify_check sc d then Ok (NoReport, d)
                       else Err (ConflictErr JobStateConflict)
           | _ \<Rightarrow> Err ScopeDenied)
        else if st = Failed \<and> jr_kind job = Scan then
          Ok (NoReport, delete_pending_for_job (rs_repo_id (as_repo sc)) (jr_id job) d)
        else Ok (NoReport, d))
       (\<lambda>(prep, d1). and_then (jobs_complete (al_identity (as_lease sc)) st head_sha err now d1)
         (\<lambda>(done, d2). if done then Ok (prep, d2) else Err ScopeDenied)))"

section \<open>Verdicts\<close>

definition submit_verdict ::
  "nat \<Rightarrow> verdict \<Rightarrow> string \<Rightarrow> bool \<Rightarrow> bool \<Rightarrow> assignment_scope \<Rightarrow> db
   \<Rightarrow> ((finding_state option \<times> preparation) \<times> db, storage_error) result" where
  "submit_verdict identity vd by_cn terminal approval_default sc d =
    (if jr_kind (as_job sc) \<noteq> Verify then Err ScopeDenied
     else and_then (ok_or (jr_target_finding_id (as_job sc)) ScopeDenied) (\<lambda>target.
       let repo_id = rs_repo_id (as_repo sc); now = al_now (as_lease sc) in
       if \<not> sql_exists (\<lambda>f. fr_id f = target \<and> fr_repo_id f = repo_id) (db_findings d)
       then Err ScopeDenied
       else and_then (ok_or (row_by rp_id repo_id (db_repos d)) ScopeDenied) (\<lambda>repo.
         and_then (insert_verification repo_id target (Submitted (jr_id (as_job sc)) vd) now d) (\<lambda>(_, d1).
         let d2 = (case vd of
               VConfirmed _ (Some p) \<Rightarrow>
                 snd (attach_proposed_patch repo_id target (vp_patch_unified p) (vp_notes p) by_cn now d1)
             | _ \<Rightarrow> d1)
         in and_then (roll_up_verdicts_for_finding repo_id target terminal
               (effective_require_approval repo approval_default) now d2) (\<lambda>(st, d3).
            if st = Some Confirmed
            then map_ok (\<lambda>p. ((st, p), d3)) (prepare_assignment identity sc d3)
            else Ok ((st, NoReport), d3))))))"

definition reports_approve ::
  "nat \<Rightarrow> repo_scope \<Rightarrow> int \<Rightarrow> string \<Rightarrow> int \<Rightarrow> db
   \<Rightarrow> ((approval_outcome \<times> preparation) \<times> db, storage_error) result" where
  "reports_approve identity sc i by_cn now d =
    and_then (require_operator sc) (\<lambda>_.
      if \<not> sql_exists (\<lambda>f. fr_id f = i \<and> fr_repo_id f = rs_repo_id sc) (db_findings d)
      then Ok ((NotFound, NoReport), d)
      else and_then (findings_approve (rs_repo_id sc) i by_cn now d) (\<lambda>(outcome, d1).
        if outcome = Applied
        then map_ok (\<lambda>p. ((outcome, p), d1)) (prepare_operator identity sc i d1)
        else Ok ((outcome, NoReport), d1)))"

definition findings_submit ::
  "assignment_scope \<Rightarrow> finding \<Rightarrow> (blob, storage_error) result \<Rightarrow> db
   \<Rightarrow> (int option \<times> db, storage_error) result" where
  "findings_submit sc f generate d =
    (if jr_kind (as_job sc) \<noteq> Scan then Err ScopeDenied
     else and_then (ok_or (row_by rp_id (rs_repo_id (as_repo sc)) (db_repos d)) ScopeDenied)
       (\<lambda>repo. insert_with_identity (rs_repo_id (as_repo sc)) (jr_id (as_job sc)) f
          (rp_verification_enabled repo) (al_now (as_lease sc)) generate d))"

section \<open>Receipts\<close>

definition mark_member ::
  "int \<Rightarrow> int \<Rightarrow> member \<Rightarrow> nat \<times> db \<Rightarrow> (nat \<times> db, storage_error) result" where
  "mark_member repo_id now m st =
    (case st of (changed, d) \<Rightarrow>
      if \<not> sql_exists (\<lambda>f. fr_id f = mb_id m \<and> fr_repo_id f = repo_id \<and>
             fr_report_identity f = mb_identity m) (db_findings d)
      then Err ReportReceiptErr
      else
        let P = (\<lambda>f. fr_id f = mb_id m \<and> fr_repo_id f = repo_id \<and>
                   fr_report_identity f = mb_identity m \<and> fr_state f = Confirmed)
        in Ok (changed + sql_count P (db_findings d),
               d\<lparr>db_findings := sql_update P
                  (\<lambda>f. f\<lparr>fr_state := Reported, fr_reported_at := Some now\<rparr>) (db_findings d)\<rparr>))"

definition selects :: "nat option \<Rightarrow> nat \<Rightarrow> bool" where
  "selects selected i = (case selected of None \<Rightarrow> True | Some s \<Rightarrow> s = i)"

definition receipt_complete ::
  "report_receipt \<Rightarrow> nat option \<Rightarrow> int \<Rightarrow> db \<Rightarrow> (nat \<times> report_receipt \<times> db, storage_error) result" where
  "receipt_complete rc selected now d =
    (let ms = enumerate 0 (rr_members rc);
         todo = map snd (filter (\<lambda>(i, m). \<not> mb_completed m \<and> selects selected i) ms)
     in map_ok (\<lambda>(changed, d'). (changed,
            rc\<lparr>rr_members := map (\<lambda>(i, m). if selects selected i then m\<lparr>mb_completed := True\<rparr> else m) ms\<rparr>,
            d'))
          (try_fold (mark_member (rr_repo_id rc) now) todo (0, d)))"

definition member_position :: "int \<Rightarrow> member list \<Rightarrow> nat option" where
  "member_position i ms = map_option fst (find (\<lambda>(k, m). mb_id m = i) (enumerate 0 ms))"

definition mark_one ::
  "nat \<Rightarrow> report_receipt \<Rightarrow> int \<Rightarrow> int \<Rightarrow> db \<Rightarrow> (nat \<times> report_receipt \<times> db, storage_error) result" where
  "mark_one identity rc i now d =
    (if \<not> rr_committed rc \<or> rr_database rc \<noteq> identity then Err ReportReceiptErr
     else and_then (ok_or (member_position i (rr_members rc)) ReportReceiptErr)
       (\<lambda>k. receipt_complete rc (Some k) now d))"

definition mark_all ::
  "nat \<Rightarrow> report_receipt \<Rightarrow> int \<Rightarrow> db \<Rightarrow> (nat \<times> report_receipt \<times> db, storage_error) result" where
  "mark_all identity rc now d =
    (if \<not> rr_committed rc \<or> rr_database rc \<noteq> identity then Err ReportReceiptErr
     else receipt_complete rc None now d)"

end
