(* ===== verification/Recovery.thy ===== *)
theory Recovery
  imports Reports
begin

text \<open>
  Operator recovery of verification work (\<open>recovery.rs\<close>): candidate selection, the
  per-candidate decision (leave an active verify job alone, requeue the newest failed
  one, or create one) and the dry run, which rolls the transaction back.
\<close>

record recovery_request =
  rq_repo_id :: "int option"
  rq_limit :: "int option"
  rq_include_inconclusive :: bool
  rq_dry_run :: bool

record recovery_counts =
  rc_dry_run :: bool
  rc_matched :: nat
  rc_revived :: nat
  rc_requeued_jobs :: nat
  rc_created_jobs :: nat
  rc_left_queued_or_leased :: nat

definition recovery_candidate :: "db \<Rightarrow> recovery_request \<Rightarrow> finding_row \<Rightarrow> bool" where
  "recovery_candidate d req f \<longleftrightarrow>
     fr_verification_required f \<noteq> 0
     \<and> fr_id f \<notin> set (db_review_details d)
     \<and> fr_id f \<notin> set (db_verification_intents d)
     \<and> \<not> sql_exists (\<lambda>p. jr_id p = fr_job_id f \<and> jr_campaign_id p \<noteq> None) (db_jobs d)
     \<and> sql_exists (\<lambda>p. jr_id p = fr_job_id f \<and> jr_repo_id p = fr_repo_id f) (db_jobs d)
     \<and> (case rq_repo_id req of None \<Rightarrow> True | Some repo \<Rightarrow> fr_repo_id f = repo)
     \<and> ((fr_state f = Dismissed \<and>
           sql_exists (\<lambda>v. vr_finding_id v = fr_id f \<and> vr_job_id v = None \<and>
             vr_verdict v = ''inconclusive'' \<and> vr_notes v = Some VALIDATING_DEADLINE_EXPIRED_NOTE)
             (db_verifications d))
        \<or> (fr_state f = Pending \<and>
           sql_exists (\<lambda>j. jr_id j = fr_job_id f \<and> jr_kind j = Scan \<and>
             (jr_state j = Succeeded \<or> jr_state j = Failed \<or> jr_state j = Cancelled) \<and>
             jr_finished_at j \<noteq> None) (db_jobs d))
        \<or> fr_state f = Validating)
     \<and> \<not> sql_exists (\<lambda>v. vr_finding_id v = fr_id f \<and>
           (vr_verdict v = ''confirmed'' \<or> vr_verdict v = ''dismissed'')) (db_verifications d)
     \<and> (rq_include_inconclusive req \<or>
        \<not> sql_exists (\<lambda>v. vr_finding_id v = fr_id f \<and> vr_job_id v \<noteq> None \<and>
           vr_verdict v = ''inconclusive'') (db_verifications d))"

definition recovery_candidates :: "db \<Rightarrow> recovery_request \<Rightarrow> finding_row list" where
  "recovery_candidates d req =
    sql_limit (case rq_limit req of None \<Rightarrow> -1 | Some n \<Rightarrow> n)
      (sort_key (\<lambda>f. (case fr_validating_deadline f of Some t \<Rightarrow> t | None \<Rightarrow> fr_created_at f, fr_id f))
        (filter (recovery_candidate d req) (db_findings d)))"

definition active_verify_exists :: "db \<Rightarrow> int \<Rightarrow> int \<Rightarrow> bool" where
  "active_verify_exists d finding_id repo_id =
    sql_exists (\<lambda>j. jr_kind j = Verify \<and> null_eq (jr_target_finding_id j) finding_id \<and>
      jr_repo_id j = repo_id \<and> is_active (jr_state j)) (db_jobs d)"

definition latest_failed_verify :: "db \<Rightarrow> int \<Rightarrow> int \<Rightarrow> int option" where
  "latest_failed_verify d finding_id repo_id =
    (case sort_key (\<lambda>j. (- jr_enqueued_at j, - jr_id j))
        (filter (\<lambda>j. jr_kind j = Verify \<and> null_eq (jr_target_finding_id j) finding_id \<and>
           jr_repo_id j = repo_id \<and> jr_state j = Failed) (db_jobs d)) of
       [] \<Rightarrow> None | j # _ \<Rightarrow> Some (jr_id j))"

definition recover_candidate ::
  "recovery_request \<Rightarrow> int \<Rightarrow> int \<Rightarrow> finding_row \<Rightarrow> recovery_counts \<times> db
   \<Rightarrow> (recovery_counts \<times> db, storage_error) result" where
  "recover_candidate req now budget_seconds f st =
    (case st of (out, d) \<Rightarrow>
      if active_verify_exists d (fr_id f) (fr_repo_id f)
      then Ok (out\<lparr>rc_left_queued_or_leased := rc_left_queued_or_leased out + 1\<rparr>, d)
      else
        let out1 = out\<lparr>rc_revived := rc_revived out + 1\<rparr> in
        and_then
          (case latest_failed_verify d (fr_id f) (fr_repo_id f) of
             Some job_id \<Rightarrow>
               let out2 = out1\<lparr>rc_requeued_jobs := rc_requeued_jobs out1 + 1\<rparr> in
               if rq_dry_run req then Ok (out2, d)
               else map_ok (\<lambda>(_, d1). (out2, d1)) (requeue_failed (fr_repo_id f) job_id now d)
           | None \<Rightarrow>
               let out2 = out1\<lparr>rc_created_jobs := rc_created_jobs out1 + 1\<rparr> in
               if rq_dry_run req then Ok (out2, d)
               else map_ok (\<lambda>(_, d1). (out2, d1)) (enqueue_raw
                 \<lparr>qj_kind = Verify, qj_incremental = False, qj_since_sha = None,
                  qj_parent_job_id = Some (fr_job_id f), qj_target_finding_id = Some (fr_id f),
                  nj_repo_id = fr_repo_id f\<rparr> now d))
          (\<lambda>(out3, d1).
            if rq_dry_run req then Ok (out3, d1)
            else map_ok (\<lambda>(_, d2). (out3, d2))
              (retry_verification (fr_repo_id f) (fr_id f) (wrap_i64 (now + budget_seconds)) d1)))"

definition retry_verification_candidates ::
  "recovery_request \<Rightarrow> int \<Rightarrow> int \<Rightarrow> db \<Rightarrow> (recovery_counts \<times> db, storage_error) result" where
  "retry_verification_candidates req now budget_seconds d =
    (let candidates = recovery_candidates d req;
         out = \<lparr>rc_dry_run = rq_dry_run req, rc_matched = length candidates, rc_revived = 0,
                rc_requeued_jobs = 0, rc_created_jobs = 0, rc_left_queued_or_leased = 0\<rparr>
     in map_ok (\<lambda>(out', d'). (out', if rq_dry_run req then d else d'))
          (try_fold (recover_candidate req now budget_seconds) candidates (out, d)))"

end
