(* ===== verification/Pipeline.thy ===== *)
theory Pipeline
  imports Recovery
begin

text \<open>
  Every operation of the store as a sequence of table steps. \<open>preserves d d'\<close> says that a
  well-formed store stays well-formed and that its jobs and findings only took machine
  transitions; it is a preorder, so a handler is covered by the lemmas of the statements
  it executes.
\<close>

section \<open>Store steps\<close>

definition store_wf :: "db \<Rightarrow> bool" where
  "store_wf d \<longleftrightarrow> jobs_wf d \<and> findings_wf d"

definition store_step :: "db \<Rightarrow> db \<Rightarrow> bool" where
  "store_step d d' \<longleftrightarrow> jobs_step d d' \<and> findings_step d d'"

definition preserves :: "db \<Rightarrow> db \<Rightarrow> bool" where
  "preserves d d' \<longleftrightarrow> (store_wf d \<longrightarrow> store_wf d' \<and> store_step\<^sup>*\<^sup>* d d')"

lemma preserves_trans: "preserves d d1 \<Longrightarrow> preserves d1 d2 \<Longrightarrow> preserves d d2"
  by (auto simp: preserves_def intro: rtranclp_trans)

lemma preserves_step:
  assumes "jobs_step d d'" and "findings_step d d'"
    and "jobs_wf d \<Longrightarrow> jobs_wf d'" and "findings_wf d \<Longrightarrow> findings_wf d'"
  shows "preserves d d'"
  using assms by (auto simp: preserves_def store_wf_def store_step_def)

lemma preserves_frame: "db_jobs d' = db_jobs d \<Longrightarrow> db_findings d' = db_findings d \<Longrightarrow> preserves d d'"
  by (intro preserves_step jobs_step_refl findings_step_refl)
    (auto simp: jobs_wf_def findings_wf_def)

lemma preserves_refl [simp]: "preserves d d"
  by (rule preserves_frame) simp_all

lemma preserves_jobs:
  assumes "jobs_step d d'" "db_findings d' = db_findings d" "jobs_wf d \<Longrightarrow> jobs_wf d'"
  shows "preserves d d'"
  by (intro preserves_step findings_step_refl assms) (use assms(2) in \<open>auto simp: findings_wf_def\<close>)

lemma preserves_findings:
  assumes "findings_step d d'" "db_jobs d' = db_jobs d" "findings_wf d \<Longrightarrow> findings_wf d'"
  shows "preserves d d'"
  by (intro preserves_step jobs_step_refl assms) (use assms(2) in \<open>auto simp: jobs_wf_def\<close>)

lemma preserves_wf: "preserves d d' \<Longrightarrow> store_wf d \<Longrightarrow> store_wf d'"
  by (simp add: preserves_def)

lemma preserves_try_fold:
  assumes "try_fold f xs s = Ok s'"
    and "\<And>x s s'. x \<in> set xs \<Longrightarrow> f x s = Ok s' \<Longrightarrow> preserves (g s) (g s')"
  shows "preserves (g s) (g s')"
  by (rule try_fold_invariant[where I = "\<lambda>u. preserves (g s) (g u)", OF assms(1)])
    (auto intro: preserves_trans assms(2))

section \<open>Job statements\<close>

lemma job_update_preserves:
  assumes "job_update P f" and "exec_update_jobs P f d = Ok (n, d')"
  shows "preserves d d'"
  using job_update.step[OF assms] job_update.wf[OF assms(1) _ assms(2)] job_update.frame[OF assms]
  by (intro preserves_jobs) auto

lemmas releasing_update_preserves = job_update_preserves[OF releasing_update.axioms(1)]

lemma enqueue_raw_preserves:
  assumes "enqueue_raw new now d = Ok (i, d')"
  shows "preserves d d'"
proof -
  obtain r where "exec_insert_job r d = Ok d'" "jr_state r = Queued" "jr_capability_hash r = None"
    "jr_campaign_id r = None" "jr_lease_expires_at r = None" "kind_ok r"
    "jr_id r = next_rowid (map jr_id (db_jobs d))"
    using assms by (auto simp: enqueue_raw_def Let_def map_ok_Ok_iff split: if_splits)
  from insert_job_step[OF this] show ?thesis by (intro preserves_jobs) auto
qed

lemma jobs_enqueue_preserves: "jobs_enqueue sc new now d = Ok (i, d') \<Longrightarrow> preserves d d'"
  by (auto simp: jobs_enqueue_def and_then_Ok_iff intro: enqueue_raw_preserves split: if_splits)

lemma enqueue_verify_jobs_preserves:
  assumes "enqueue_verify_jobs_for_scan repo job now d = Ok (n, d')"
  shows "preserves d d'"
proof -
  have one: "preserves d d'" if "enqueue_verify_job repo Queued job now f d = Ok d'" for f d d'
    using insert_job_step[OF that[unfolded enqueue_verify_job_def]] by (intro preserves_jobs) auto
  show ?thesis using assms
    by (auto simp: enqueue_verify_jobs_for_scan_def Let_def map_ok_Ok_iff
        intro: preserves_try_fold[where g = id, simplified] one)
qed

lemma heartbeat_preserves: "heartbeat job worker now secs hash d = Ok (res, d') \<Longrightarrow> preserves d d'"
  by (auto simp: heartbeat_def Let_def and_then_Ok_iff job_apply_def
      intro: job_update_preserves[OF heartbeat_update.job_update_axioms])

lemma jobs_complete_preserves:
  "jobs_complete lease st head err now d = Ok (res, d') \<Longrightarrow> preserves d d'"
  by (auto simp: jobs_complete_Ok intro: releasing_update_preserves[OF complete_releasing])

lemma requeue_failed_preserves: "requeue_failed repo job now d = Ok (res, d') \<Longrightarrow> preserves d d'"
  by (auto simp: requeue_failed_def and_then_Ok_iff job_apply_def split: if_splits
      intro: job_update_preserves[OF requeue_update.job_update_axioms])

lemma delete_pending_preserves:
  assumes "\<And>r. P r \<Longrightarrow> fr_state r = Pending"
  shows "preserves d (delete_findings P d)"
  by (intro preserves_findings findings_step_delete findings_wf_delete) (auto intro: assms)

lemma delete_pending_for_job_preserves: "preserves d (delete_pending_for_job repo job d)"
  unfolding delete_pending_for_job_def by (rule delete_pending_preserves) simp

lemma jobs_cancel_preserves:
  assumes "jobs_cancel job now d = Ok (res, d')"
  shows "preserves d d'"
  using assms
proof (cases rule: jobs_cancel_cases)
  case (cancelled row n d1 r)
  have "preserves d d1" using cancelled(4) by (rule releasing_update_preserves[OF cancel_releasing])
  moreover have "preserves d1 d'" unfolding cancelled(6) by (auto intro: delete_pending_preserves)
  ultimately show ?thesis by (rule preserves_trans)
qed simp

lemma reap_legacy_preserves:
  assumes "reap_legacy now d = Ok (n, d')"
  shows "preserves d d'"
proof -
  obtain n1 d1 n2 d2 n3 d3 js where
    s1: "exec_update_jobs (\<lambda>r. expired_legacy now r \<and> jr_kind r = Verify \<and> PHASE_FINDING_TARGET_SQL d r)
      (reap_fail_row Failed ''legacy verification cannot target phase findings'' now) d = Ok (n1, d1)"
    and s2: "exec_update_jobs (\<lambda>r. expired_legacy now r \<and> jr_attempts r < MAX_ATTEMPTS \<and> legacy_kinds_sql r)
      (reap_requeue_row Queued) d1 = Ok (n2, d2)"
    and s3: "exec_update_jobs (\<lambda>r. expired_legacy now r \<and> jr_attempts r \<ge> MAX_ATTEMPTS \<and> legacy_kinds_sql r)
      (reap_fail_row Failed LEASE_EXPIRED_AFTER_MAX_ATTEMPTS_ERROR now) d2 = Ok (n3, d3)"
    and d': "d' = fold (\<lambda>(job, repo). delete_pending_for_job repo job) js d3"
    using assms by (auto simp: reap_legacy_def and_then_Ok_iff job_apply_def Let_def)
  have "preserves d3 (fold (\<lambda>(job, repo). delete_pending_for_job repo job) js d3)" for js d3
    by (induction js arbitrary: d3) (auto intro: preserves_trans delete_pending_for_job_preserves)
  with d' show ?thesis
    using job_update_preserves[OF reap_incompatible.job_update_axioms s1]
      job_update_preserves[OF reap_requeue.job_update_axioms s2]
      job_update_preserves[OF reap_fail.job_update_axioms s3]
    by (blast intro: preserves_trans)
qed

section \<open>Finding statements\<close>

lemma preservesI: "(store_wf d \<Longrightarrow> preserves d d') \<Longrightarrow> preserves d d'"
  by (auto simp: preserves_def)

lemma finding_update_preserves:
  assumes "finding_update P f"
  shows "preserves d (d\<lparr>db_findings := sql_update P f (db_findings d)\<rparr>)"
  by (intro preserves_findings finding_update.step[OF assms] finding_update.wf[OF assms]) simp_all

lemma retry_verification_preserves:
  "retry_verification repo i deadline d = Ok (ok, d') \<Longrightarrow> preserves d d'"
  by (auto simp: retry_verification_def and_then_Ok_iff map_err_Ok_iff Let_def split: option.splits
      intro: finding_update_preserves[OF retry_update])

lemma insert_with_identity_preserves:
  assumes "insert_with_identity repo job f vreq now gen d = Ok (res, d')"
  shows "preserves d d'"
proof -
  have "db_jobs d' = db_jobs d"
    using assms by (cases rule: insert_with_identity_cases) simp_all
  with insert_step[OF assms] show ?thesis by (intro preserves_findings) auto
qed

lemma findings_submit_preserves: "findings_submit sc f gen d = Ok (res, d') \<Longrightarrow> preserves d d'"
  by (auto simp: findings_submit_def and_then_Ok_iff intro: insert_with_identity_preserves
      split: if_splits)

lemma insert_verification_preserves: "insert_verification repo i inp now d = Ok (v, d') \<Longrightarrow> preserves d d'"
  using insert_verification_Ok[of repo i inp now d v d'] by (auto intro: preserves_frame)

lemma db_jobs_roll_up:
  "roll_up_verdicts_for_finding repo i ti ra now d = Ok (res, d') \<Longrightarrow> db_jobs d' = db_jobs d"
  by (cases "findings_get_selected d repo i")
    (auto simp: roll_up_verdicts_for_finding_def roll_up_verdicts_spec split: option.splits if_splits)

lemma roll_up_preserves:
  assumes "roll_up_verdicts_for_finding repo i ti ra now d = Ok (res, d')"
  shows "preserves d d'"
  by (rule preservesI, rule preserves_findings)
    (use roll_up_step[OF _ assms] db_jobs_roll_up[OF assms] in \<open>auto simp: store_wf_def\<close>)

lemma transition_scan_run:
  "transition_scan_findings_after_success repo job approval deadline now d =
    (let A = (\<lambda>r. fr_job_id r = job \<and> fr_verification_required r = 0 \<and> fr_state r = Pending \<and> fr_repo_id r = repo);
         V = (\<lambda>r. fr_job_id r = job \<and> fr_verification_required r \<noteq> 0 \<and> fr_state r = Pending \<and> fr_repo_id r = repo);
         d1 = (if approval then d\<lparr>db_findings := sql_update A (\<lambda>r. r\<lparr>fr_state := AwaitingApproval\<rparr>) (db_findings d)\<rparr>
               else d\<lparr>db_findings := sql_update A (\<lambda>r. r\<lparr>fr_state := Confirmed, fr_confirmed_at := Some now\<rparr>)
                 (db_findings d)\<rparr>)
     in Ok (sql_count A (db_findings d) + sql_count V (db_findings d1),
        d1\<lparr>db_findings := sql_update V (\<lambda>r. r\<lparr>fr_state := Validating, fr_validating_deadline := Some deadline\<rparr>)
          (db_findings d1)\<rparr>))"
  by (simp add: transition_scan_findings_after_success_def finding_apply_def Let_def)

lemma transition_scan_preserves:
  assumes "transition_scan_findings_after_success repo job approval deadline now d = Ok (n, d')"
  shows "preserves d d'"
proof -
  let ?A = "\<lambda>r. fr_job_id r = job \<and> fr_verification_required r = 0 \<and> fr_state r = Pending \<and> fr_repo_id r = repo"
  define d1 where "d1 = (if approval
      then d\<lparr>db_findings := sql_update ?A (\<lambda>r. r\<lparr>fr_state := AwaitingApproval\<rparr>) (db_findings d)\<rparr>
      else d\<lparr>db_findings := sql_update ?A (\<lambda>r. r\<lparr>fr_state := Confirmed, fr_confirmed_at := Some now\<rparr>)
        (db_findings d)\<rparr>)"
  have "preserves d d1"
    unfolding d1_def
    using finding_update_preserves[OF await_update.finding_update_axioms]
      finding_update_preserves[OF confirm_update.finding_update_axioms] by simp
  moreover have "preserves d1 d'"
    using assms finding_update_preserves[OF require_update.finding_update_axioms]
    unfolding transition_scan_run Let_def d1_def[symmetric] by auto
  ultimately show ?thesis by (rule preserves_trans)
qed

lemma reap_one_validating_preserves:
  assumes "reap_one_validating Dismissed now sel d = Ok d'"
  shows "preserves d d'"
proof -
  obtain fid repo v d1 where "insert_verification repo fid DeadlineExpired now d = Ok (v, d1)"
    and "d' = d1\<lparr>db_findings := sql_update
      (\<lambda>r. fr_id r = fid \<and> fr_state r = Validating \<and> fr_repo_id r = repo)
      (\<lambda>r. r\<lparr>fr_state := Dismissed, fr_dismissed_at := Some now\<rparr>) (db_findings d1)\<rparr>"
    using assms by (auto simp: reap_one_validating_def and_then_Ok_iff split: prod.splits)
  then show ?thesis
    using insert_verification_preserves finding_update_preserves[OF deadline_update.finding_update_axioms]
    by (blast intro: preserves_trans)
qed

lemma reap_stale_validating_preserves:
  "reap_stale_validating now d = Ok (n, d') \<Longrightarrow> preserves d d'"
  by (auto simp: reap_stale_validating_def and_then_Ok_iff finding_apply_def Let_def map_ok_Ok_iff
      intro: preserves_try_fold[where g = id, simplified] reap_one_validating_preserves)

lemma attach_patch_preserves: "preserves d (snd (attach_proposed_patch repo i patch nts cn now d))"
  by (simp add: attach_proposed_patch_def Let_def
      finding_update_preserves[OF patch_update.finding_update_axioms])

lemma findings_approve_preserves: "findings_approve repo i cn now d = Ok (out, d') \<Longrightarrow> preserves d d'"
  by (auto simp: findings_approve_def finding_apply_def Let_def
      intro: finding_update_preserves[OF approve_update.finding_update_axioms])

lemma findings_reject_preserves: "findings_reject sc i cn now d = Ok (out, d') \<Longrightarrow> preserves d d'"
  by (auto simp: findings_reject_def finding_apply_def Let_def and_then_Ok_iff
      intro: finding_update_preserves[OF reject_update.finding_update_axioms])

interpretation mark_update: finding_update
  "\<lambda>f. fr_id f = i \<and> fr_repo_id f = repo \<and> fr_report_identity f = idn \<and> fr_state f = Confirmed"
  "\<lambda>f. f\<lparr>fr_state := Reported, fr_reported_at := Some now\<rparr>" for i repo idn now
  by unfold_locales (auto simp: row_evolves_def finding_apply_entry)

lemma mark_member_preserves: "mark_member repo now m (n, d) = Ok (n', d') \<Longrightarrow> preserves d d'"
  by (auto simp: mark_member_def Let_def split: if_splits
      intro: finding_update_preserves[OF mark_update.finding_update_axioms])

lemma receipt_complete_preserves:
  assumes "receipt_complete rc sel now d = Ok (n, rc', d')"
  shows "preserves d d'"
proof -
  obtain todo where "try_fold (mark_member (rr_repo_id rc) now) todo (0, d) = Ok (n, d')"
    using assms by (auto simp: receipt_complete_def Let_def map_ok_Ok_iff)
  from preserves_try_fold[OF this, where g = snd] show ?thesis
    using mark_member_preserves by fastforce
qed

section \<open>Transactions\<close>

lemma retry_failed_preserves:
  assumes "retry_failed job now deadline d = Ok (res, d')"
  shows "preserves d d'"
proof -
  have req: "preserves d1 d'" if "and_then (requeue_failed repo job now d1) (\<lambda>(res, d2). case res of
      None \<Rightarrow> Ok (RetryConflict (JobChanged job), d) | Some r \<Rightarrow> Ok (Retried r, d2)) = Ok (res, d')"
      and "d' \<noteq> d" for repo d1
    using that by (auto simp: and_then_Ok_iff intro: requeue_failed_preserves split: option.splits)
  show ?thesis
  proof (cases "d' = d")
    case False
    then show ?thesis using assms
      by (auto simp: retry_failed_def Let_def and_then_Ok_iff[of "retry_verification _ _ _ _"]
          split: if_splits option.splits result.splits prod.splits
          intro: req preserves_trans[OF retry_verification_preserves])
  qed simp
qed

lemma exec_update_cong:
  assumes "\<And>r. r \<in> set (db_jobs d) \<Longrightarrow> P r = Q r"
  shows "exec_update_jobs P f d = exec_update_jobs Q f d"
  using assms by (auto simp: exec_update_jobs_def Let_def sql_count_def cong: sql_update_cong filter_cong)

interpretation lease_update: job_update
  "\<lambda>r. jr_id r = i \<and> jr_state r = Queued" "lease_row req lease" for i req lease
  by unfold_locales (auto simp: job_evolves_def lease_ok_def lease_row_def job_apply_entry)

lemma claim_select_mem:
  assumes "claim_select req kinds d = Some j"
  shows "j \<in> set (db_jobs d) \<and> jr_state j = Queued \<and> job_kind_as_str (jr_kind j) \<in> set kinds \<and>
    jr_campaign_id j = None"
proof -
  let ?s = "sort_key (claim_order (cr_policy req) (cr_now req)) (claim_candidates kinds d)"
  have "j \<in> set ?s"
    using assms by (cases ?s) (simp_all add: claim_select_def del: set_sort)
  then show ?thesis by (auto simp: claim_candidates_def)
qed

lemma claimed_row_unique:
  assumes "store_wf d" "j \<in> set (db_jobs d)" "jr_state j = Queued" "r \<in> set (db_jobs d)"
  shows "(jr_id r = jr_id j) = (jr_id r = jr_id j \<and> jr_state r = Queued)"
  using assms row_by_unique[of jr_id "db_jobs d" r j] by (auto simp: store_wf_def jobs_wf_def)

lemma claim_raw_preserves:
  assumes "claim_raw req d = Ok (res, d')"
  shows "preserves d d'"
proof (rule preservesI, cases "d' = d")
  case False
  assume wf: "store_wf d"
  obtain kinds j lease n where sel: "claim_select req kinds d = Some j"
    and run: "exec_update_jobs (\<lambda>r. jr_id r = jr_id j) (lease_row req lease) d = Ok (n, d')"
    using assms False
    by (auto simp: claim_raw_def claim_filtered_def Let_def and_then_Ok_iff
        split: if_splits option.splits)
  note j = claim_select_mem[OF sel]
  have "exec_update_jobs (\<lambda>r. jr_id r = jr_id j) (lease_row req lease) d =
      exec_update_jobs (\<lambda>r. jr_id r = jr_id j \<and> jr_state r = Queued) (lease_row req lease) d"
    by (rule exec_update_cong) (use claimed_row_unique[OF wf] j in blast)
  with run show "preserves d d'"
    by (auto intro: job_update_preserves[OF lease_update.job_update_axioms])
qed simp

lemma claim_preserves: "claim req d = Ok (res, d') \<Longrightarrow> preserves d d'"
  by (auto simp: claim_def Let_def and_then_Ok_iff intro: claim_raw_preserves
      split: option.splits if_splits prod.splits)

interpretation head_update: job_update
  "\<lambda>r. jr_id r = i \<and> jr_repo_id r = repo \<and> jr_state r = Leased"
  "\<lambda>r. r\<lparr>jr_head_sha := Some sha\<rparr>" for i repo sha
  by unfold_locales (auto simp: job_evolves_def lease_ok_def)

lemma complete_scan_chain:
  assumes "exec_update_jobs (\<lambda>r. jr_id r = i \<and> jr_repo_id r = repo \<and> jr_state r = Leased)
      (jr_head_sha_update (\<lambda>_. Some sha)) d = Ok (n, d1)"
    and "transition_scan_findings_after_success repo' job appr deadline now
      (d1\<lparr>db_repos := rows, db_scan_history := hist\<rparr>) = Ok (n', d4)"
    and "enqueue_verify_jobs_for_scan repo'' job' now' d4 = Ok (n'', d')"
  shows "preserves d d'"
proof -
  have "preserves d d1" by (rule job_update_preserves[OF head_update.job_update_axioms assms(1)])
  moreover have "preserves d1 (d1\<lparr>db_repos := rows, db_scan_history := hist\<rparr>)"
    by (rule preserves_frame) simp_all
  moreover note transition_scan_preserves[OF assms(2)] enqueue_verify_jobs_preserves[OF assms(3)]
  ultimately show ?thesis by (blast intro: preserves_trans)
qed

lemma complete_scan_preserves:
  assumes "complete_scan idn sc head appr deadline d = Ok (prep, d')"
  shows "preserves d d'"
  using assms
  by (auto simp: complete_scan_def Let_def and_then_Ok_iff map_ok_Ok_iff split: prod.splits)
    (rule complete_scan_chain)

lemma complete_assignment_chain:
  assumes "complete_assignment idn st head err appr deadline sc d = Ok (prep, d')"
  obtains p d1 where "preserves d d1"
    "(if st = Succeeded then
        (case jr_kind (as_job sc) of
           Scan \<Rightarrow> complete_scan idn sc head appr deadline d
         | Verify \<Rightarrow> if complete_verify_check sc d then Ok (NoReport, d)
                     else Err (ConflictErr JobStateConflict)
         | _ \<Rightarrow> Err ScopeDenied)
      else if st = Failed \<and> jr_kind (as_job sc) = Scan then
        Ok (NoReport, delete_pending_for_job (rs_repo_id (as_repo sc)) (jr_id (as_job sc)) d)
      else Ok (NoReport, d)) = Ok (p, d1)"
    "jobs_complete (al_identity (as_lease sc)) st head err (al_now (as_lease sc)) d1 = Ok (True, d')"
    "prep = p"
proof -
  obtain p d1 where
    s1: "(if st = Succeeded then
          (case jr_kind (as_job sc) of
             Scan \<Rightarrow> complete_scan idn sc head appr deadline d
           | Verify \<Rightarrow> if complete_verify_check sc d then Ok (NoReport, d)
                       else Err (ConflictErr JobStateConflict)
           | _ \<Rightarrow> Err ScopeDenied)
        else if st = Failed \<and> jr_kind (as_job sc) = Scan then
          Ok (NoReport, delete_pending_for_job (rs_repo_id (as_repo sc)) (jr_id (as_job sc)) d)
        else Ok (NoReport, d)) = Ok (p, d1)"
    and s2: "jobs_complete (al_identity (as_lease sc)) st head err (al_now (as_lease sc)) d1 = Ok (True, d')"
    and s3: "prep = p"
    using assms unfolding complete_assignment_def Let_def
    by (auto simp: and_then_Ok_iff simp del: if_split split: if_split_asm)
  have "preserves d d1"
    using s1 by (auto split: if_splits job_kind.splits
        intro: complete_scan_preserves delete_pending_for_job_preserves)
  from that[OF this s1 s2 s3] show ?thesis .
qed

lemma complete_assignment_preserves:
  assumes "complete_assignment idn st head err appr deadline sc d = Ok (prep, d')"
  shows "preserves d d'"
  using assms
proof (cases rule: complete_assignment_chain)
  case (1 p d1)
  then show ?thesis using jobs_complete_preserves by (blast intro: preserves_trans)
qed

lemma submit_verdict_preserves:
  assumes "submit_verdict idn vd cn terminal appr sc d = Ok (res, d')"
  shows "preserves d d'"
proof -
  obtain repo target inp now v d1 patch ra st where
    s1: "insert_verification repo target inp now d = Ok (v, d1)"
    and s2: "roll_up_verdicts_for_finding repo target terminal ra now
      (case vd of VConfirmed _ (Some p) \<Rightarrow>
         snd (attach_proposed_patch repo target (vp_patch_unified p) (vp_notes p) cn now d1)
       | _ \<Rightarrow> d1) = Ok (st, d')" (is "roll_up_verdicts_for_finding _ _ _ _ _ ?d2 = _")
    using assms unfolding submit_verdict_def Let_def
    by (auto simp: and_then_Ok_iff map_ok_Ok_iff split: if_splits)
  have "preserves d d1" by (rule insert_verification_preserves[OF s1])
  moreover have "preserves d1 ?d2" by (auto split: verdict.split option.split intro: attach_patch_preserves)
  moreover have "preserves ?d2 d'" by (rule roll_up_preserves[OF s2])
  ultimately show ?thesis by (blast intro: preserves_trans)
qed

lemma reports_approve_preserves: "reports_approve idn sc i cn now d = Ok (res, d') \<Longrightarrow> preserves d d'"
  by (auto simp: reports_approve_def and_then_Ok_iff map_ok_Ok_iff split: if_splits
      intro: findings_approve_preserves)

lemma recover_candidate_preserves:
  assumes "recover_candidate req now budget f (out, d) = Ok (out', d')"
  shows "preserves d d'"
proof (cases "active_verify_exists d (fr_id f) (fr_repo_id f) \<or> rq_dry_run req")
  case True
  then show ?thesis using assms
    by (auto simp: recover_candidate_def Let_def split: if_splits option.splits)
next
  case False
  then show ?thesis using assms
    by (auto simp: recover_candidate_def Let_def and_then_Ok_iff map_ok_Ok_iff split: option.splits)
      (blast intro: preserves_trans requeue_failed_preserves enqueue_raw_preserves
        retry_verification_preserves)+
qed

lemma retry_verification_candidates_preserves:
  assumes "retry_verification_candidates req now budget d = Ok (out, d')"
  shows "preserves d d'"
proof -
  obtain out0 d1 where run: "try_fold (recover_candidate req now budget) (recovery_candidates d req) (out0, d) = Ok (out, d1)"
    and d': "d' = (if rq_dry_run req then d else d1)"
    using assms by (auto simp: retry_verification_candidates_def Let_def map_ok_Ok_iff)
  have "preserves d d1"
    using preserves_try_fold[OF run, where g = snd] recover_candidate_preserves by fastforce
  then show ?thesis using d' by simp
qed

section \<open>The server\<close>

text \<open>
  One committed request or maintenance pass of the server. A worker request runs under
  \<open>with_active_lease\<close>, an operator request under \<open>with_operator_repository\<close>; \<open>idn\<close> is the
  identity of the open database. A request that fails leaves the database alone and is no step.
\<close>

inductive server_step :: "nat \<Rightarrow> db \<Rightarrow> db \<Rightarrow> bool" for idn :: nat where
  enqueue: "with_operator_repository d target (\<lambda>sc. jobs_enqueue sc new now) = Ok (i, d')
    \<Longrightarrow> server_step idn d d'"
| lease: "claim req d = Ok (res, d') \<Longrightarrow> server_step idn d d'"
| heartbeat: "with_active_lease d lease (\<lambda>sc. extend_lease sc secs) = Ok (res, d')
    \<Longrightarrow> server_step idn d d'"
| submit: "with_active_lease d lease (\<lambda>sc. findings_submit sc f gen) = Ok (r, d')
    \<Longrightarrow> server_step idn d d'"
| vote: "with_active_lease d lease (submit_verdict idn vd cn terminal appr) = Ok (v, d')
    \<Longrightarrow> server_step idn d d'"
| complete: "with_active_lease d lease (complete_assignment idn st head err appr deadline) = Ok (p, d')
    \<Longrightarrow> server_step idn d d'"
| cancel: "jobs_cancel job now d = Ok (c, d') \<Longrightarrow> server_step idn d d'"
| retry: "retry_failed job now deadline d = Ok (o1, d') \<Longrightarrow> server_step idn d d'"
| recover: "retry_verification_candidates rq now budget d = Ok (o2, d') \<Longrightarrow> server_step idn d d'"
| approve: "with_operator_repository d target (\<lambda>sc. reports_approve idn sc i cn now) = Ok (a, d')
    \<Longrightarrow> server_step idn d d'"
| reject: "with_operator_repository d target (\<lambda>sc. findings_reject sc i cn now) = Ok (o3, d')
    \<Longrightarrow> server_step idn d d'"
| reported: "mark_one idn rc i now d = Ok (n, rc', d') \<Longrightarrow> server_step idn d d'"
| reported_all: "mark_all idn rc now d = Ok (n, rc', d') \<Longrightarrow> server_step idn d d'"
| reap_jobs: "reap_legacy now d = Ok (n, d') \<Longrightarrow> server_step idn d d'"
| reap_findings: "reap_stale_validating now d = Ok (n, d') \<Longrightarrow> server_step idn d d'"

inductive_cases server_stepE: "server_step idn d d'"

inductive server_reach :: "nat \<Rightarrow> db \<Rightarrow> bool" for idn :: nat where
  start: "db_jobs d = [] \<Longrightarrow> db_findings d = [] \<Longrightarrow> server_reach idn d"
| step: "server_reach idn d \<Longrightarrow> server_step idn d d' \<Longrightarrow> server_reach idn d'"

lemma with_operator_repository_Ok:
  "with_operator_repository d t body = Ok (x, d') \<Longrightarrow> \<exists>sc. rs_operator sc \<and> body sc d = Ok (x, d')"
  by (force simp: with_operator_repository_def and_then_Ok_iff)

lemma with_active_lease_Ok:
  "with_active_lease d lease body = Ok (x, d') \<Longrightarrow> d' = d \<or> (\<exists>sc y. body sc d = Ok (y, d'))"
  by (auto simp: with_active_lease_def map_ok_Ok_iff split: option.splits if_splits)

lemma extend_lease_preserves: "extend_lease sc secs d = Ok (res, d') \<Longrightarrow> preserves d d'"
  unfolding extend_lease_def by (rule heartbeat_preserves)

lemma mark_one_preserves: "mark_one idn rc i now d = Ok (n, rc', d') \<Longrightarrow> preserves d d'"
  by (auto simp: mark_one_def and_then_Ok_iff intro: receipt_complete_preserves split: if_splits)

lemma mark_all_preserves: "mark_all idn rc now d = Ok (n, rc', d') \<Longrightarrow> preserves d d'"
  by (auto simp: mark_all_def intro: receipt_complete_preserves split: if_splits)

lemma server_step_preserves: "server_step idn d d' \<Longrightarrow> preserves d d'"
proof (induction rule: server_step.induct)
  case (enqueue d target new now i d')
  then show ?case using with_operator_repository_Ok jobs_enqueue_preserves by metis
next
  case (lease req d res d')
  then show ?case by (rule claim_preserves)
next
  case (heartbeat d lease secs res d')
  then show ?case using with_active_lease_Ok extend_lease_preserves preserves_refl by metis
next
  case (submit d lease f gen r d')
  then show ?case using with_active_lease_Ok findings_submit_preserves preserves_refl by metis
next
  case (vote d lease vd cn terminal appr v d')
  then show ?case using with_active_lease_Ok submit_verdict_preserves preserves_refl by metis
next
  case (complete d lease st head err appr deadline p d')
  then show ?case using with_active_lease_Ok complete_assignment_preserves preserves_refl by metis
next
  case (approve d target i cn now a d')
  then show ?case using with_operator_repository_Ok reports_approve_preserves by metis
next
  case (reject d target i cn now o3 d')
  then show ?case using with_operator_repository_Ok findings_reject_preserves by metis
qed (blast intro: jobs_cancel_preserves retry_failed_preserves retry_verification_candidates_preserves
      mark_one_preserves mark_all_preserves reap_legacy_preserves reap_stale_validating_preserves)+

end
