(* ===== verification/Guarantees.thy ===== *)
theory Guarantees
  imports Pipeline
begin

text \<open>
  What the queue and the finding pipeline guarantee: invariants of every reachable
  store, the lifetime of findings and jobs, capability revocation, and the functional
  behaviour of claim, reap, cancel, retry, recovery, completion and report receipts.
\<close>

section \<open>Lifetime\<close>

lemma findings_step_survives:
  assumes "findings_step d d'" "r \<in> set (db_findings d)" "fr_state r \<noteq> Pending"
  shows "\<exists>r' \<in> set (db_findings d'). row_evolves r r' \<and> fr_state r' \<noteq> Pending"
proof -
  obtain P us news where st: "list_all2 row_evolves (sql_delete P (db_findings d)) us"
    "db_findings d' = us @ news" "\<forall>r \<in> set (db_findings d). P r \<longrightarrow> fr_state r = Pending"
    using assms(1) by (auto simp: findings_step_def)
  have "r \<in> set (sql_delete P (db_findings d))" using st(3) assms by (auto simp: sql_simps)
  then obtain r' where "r' \<in> set us" "row_evolves r r'"
    using st(1) by (metis list_all2_conv_all_nth in_set_conv_nth)
  then show ?thesis using st(2) assms(3)
    by (intro bexI[of _ r']) (auto simp: row_evolves_def finding_apply_entry)
qed

definition same_finding :: "finding_row \<Rightarrow> finding_row \<Rightarrow> bool" where
  "same_finding r r' \<longleftrightarrow> fr_id r' = fr_id r \<and> fr_repo_id r' = fr_repo_id r \<and>
     fr_job_id r' = fr_job_id r \<and> f_fingerprint (fr_finding r') = f_fingerprint (fr_finding r) \<and>
     fr_report_identity r' = fr_report_identity r"

lemma run_machine_step:
  "run_machine app s ts = Ok u \<Longrightarrow> app u t = Ok v \<Longrightarrow> run_machine app s (ts @ [t]) = Ok v"
  by (simp add: run_machine_append)

lemma store_steps_finding:
  assumes "store_step\<^sup>*\<^sup>* d d'" "r \<in> set (db_findings d)" "fr_state r \<noteq> Pending"
  shows "\<exists>r' \<in> set (db_findings d'). same_finding r r' \<and> fr_state r' \<noteq> Pending \<and>
    (\<exists>ts. run_machine finding_apply (fr_state r) ts = Ok (fr_state r'))"
  using assms(1)
proof (induction rule: rtranclp_induct)
  case base
  then show ?case using assms(2,3)
    by (intro bexI[of _ r] conjI exI[of _ "[]"]) (auto simp: same_finding_def)
next
  case (step d1 d2)
  then obtain r1 ts where r1: "r1 \<in> set (db_findings d1)" "same_finding r r1" "fr_state r1 \<noteq> Pending"
    "run_machine finding_apply (fr_state r) ts = Ok (fr_state r1)" by blast
  obtain r2 where r2: "r2 \<in> set (db_findings d2)" "row_evolves r1 r2" "fr_state r2 \<noteq> Pending"
    using findings_step_survives[OF _ r1(1,3)] step(2) by (auto simp: store_step_def)
  have "\<exists>us. run_machine finding_apply (fr_state r) us = Ok (fr_state r2)"
    using r1(4) r2(2) run_machine_step[OF r1(4)] by (auto simp: row_evolves_def)
  then show ?case using r1(2) r2 by (intro bexI[of _ r2]) (auto simp: same_finding_def row_evolves_def)
qed

definition same_job :: "job_row \<Rightarrow> job_row \<Rightarrow> bool" where
  "same_job r r' \<longleftrightarrow> jr_id r' = jr_id r \<and> jr_repo_id r' = jr_repo_id r \<and> jr_kind r' = jr_kind r \<and>
     jr_target_finding_id r' = jr_target_finding_id r \<and> jr_parent_job_id r' = jr_parent_job_id r \<and>
     jr_phase r' = jr_phase r"

lemma store_steps_job:
  assumes "store_step\<^sup>*\<^sup>* d d'" "r \<in> set (db_jobs d)"
  shows "\<exists>r' \<in> set (db_jobs d'). same_job r r' \<and>
    (\<exists>ts. run_machine job_apply (jr_state r) ts = Ok (jr_state r'))"
  using assms(1)
proof (induction rule: rtranclp_induct)
  case base
  then show ?case using assms(2)
    by (intro bexI[of _ r] conjI exI[of _ "[]"]) (auto simp: same_job_def)
next
  case (step d1 d2)
  then obtain r1 ts where r1: "r1 \<in> set (db_jobs d1)" "same_job r r1"
    "run_machine job_apply (jr_state r) ts = Ok (jr_state r1)" by blast
  obtain us news where us: "list_all2 job_evolves (db_jobs d1) us" "db_jobs d2 = us @ news"
    using step(2) by (auto simp: store_step_def jobs_step_def)
  then obtain r2 where r2: "r2 \<in> set us" "job_evolves r1 r2"
    using r1(1) by (metis list_all2_conv_all_nth in_set_conv_nth)
  have "\<exists>us. run_machine job_apply (jr_state r) us = Ok (jr_state r2)"
    using r1(3) r2(2) run_machine_step[OF r1(3)] by (auto simp: job_evolves_def)
  then show ?case using r1(2) r2 us(2)
    by (intro bexI[of _ r2]) (auto simp: same_job_def job_evolves_def)
qed

lemma server_reach_wf: "server_reach idn d \<Longrightarrow> store_wf d"
proof (induction rule: server_reach.induct)
  case (start d)
  then show ?case by (simp add: store_wf_def jobs_wf_def findings_wf_def jobs_unique_def)
next
  case (step d d')
  then show ?case using server_step_preserves preserves_wf by blast
qed

lemma server_steps_store:
  assumes "store_wf d" and "(server_step idn)\<^sup>*\<^sup>* d d'"
  shows "store_wf d' \<and> store_step\<^sup>*\<^sup>* d d'"
  using assms(2)
proof (induction rule: rtranclp_induct)
  case (step d1 d2)
  then show ?case using server_step_preserves[OF step(2)]
    by (auto simp: preserves_def intro: rtranclp_trans)
qed (use assms(1) in simp)

definition empty_db :: db where
  "empty_db = sample_db\<lparr>db_jobs := [], db_findings := []\<rparr>"

definition scan_request :: queued_job where
  "scan_request = \<lparr>qj_kind = Scan, qj_incremental = False, qj_since_sha = None,
     qj_parent_job_id = None, qj_target_finding_id = None\<rparr>"

definition enqueued_db :: db where
  "enqueued_db = empty_db\<lparr>db_jobs := [new_job_row 1 1 Scan Queued False None None None 5]\<rparr>"

lemma empty_reach: "server_reach 0 empty_db"
  by (rule server_reach.start) (simp_all add: empty_db_def)

lemma enqueued_run:
  "with_operator_repository empty_db (TRepository 1) (\<lambda>sc. jobs_enqueue sc scan_request 5) = Ok (1, enqueued_db)"
  by (simp add: with_operator_repository_def jobs_enqueue_def require_operator_def scan_request_def
      enqueue_raw_def Let_def exec_insert_job_def enqueued_db_def empty_db_def sample_db_def
      next_rowid_def jobs_unique_def unique_index_Cons)

lemma enqueued_reach: "server_reach 0 enqueued_db"
  by (rule server_reach.step[OF empty_reach server_step.enqueue[OF enqueued_run]])

lemma sample_store_wf: "store_wf sample_db"
  using sample_db_wf
  by (simp add: store_wf_def jobs_wf_def jobs_unique_def unique_index_Cons lease_ok_def kind_ok_def
      sample_db_def sample_job_def job_kind_from_text_def)

lemma sample_reap_step: "\<exists>d'. server_step 0 sample_db d' \<and> length (db_verifications d') = 1"
proof -
  have st: "filter (stale_validating sample_db 10) (db_findings sample_db) =
      [sample_row 1 ''a'' Validating (Some 5)]"
    by (simp add: stale_validating_def sample_defs sql_exists_def)
  obtain vs where vs: "list_all2 (\<lambda>r v. deadline_verdict v (fr_id r) 10)
      [sample_row 1 ''a'' Validating (Some 5)] vs"
    and run: "reap_stale_validating 10 sample_db =
        Ok (length [sample_row 1 ''a'' Validating (Some 5)],
          sample_db\<lparr>db_verifications := db_verifications sample_db @ vs,
            db_findings := sql_update (stale_validating sample_db 10) (expire_row 10) (db_findings sample_db)\<rparr>)"
    using reap_stale_validating_run[OF sample_db_wf, of 10, unfolded st] by blast
  show ?thesis
    by (intro exI conjI, rule server_step.reap_findings[OF run])
      (use list_all2_lengthD[OF vs] in \<open>simp add: sample_db_def\<close>)
qed

section \<open>Invariants\<close>

text \<open>
  C1: In every store the server reaches from an empty queue by any sequence of requests and
  maintenance passes: job ids and finding ids are unique; a lease capability names at most
  one job; a job holds a capability exactly while it is leased, and then also a worker and
  an expiry; at most one verify job per finding is queued or leased; and no repository has two
  findings with one fingerprint.
\<close>

theorem reachable_store_invariant:
  assumes "server_reach idn d"
  shows "distinct (map jr_id (db_jobs d)) \<and> distinct (map fr_id (db_findings d)) \<and>
    (\<forall>r \<in> set (db_jobs d). \<forall>s \<in> set (db_jobs d).
       jr_capability_hash r \<noteq> None \<and> jr_capability_hash r = jr_capability_hash s \<longrightarrow> r = s) \<and>
    (\<forall>r \<in> set (db_jobs d). (jr_state r = Leased) = (jr_capability_hash r \<noteq> None) \<and>
       (jr_state r = Leased) = (jr_lease_expires_at r \<noteq> None) \<and>
       (jr_state r = Leased \<longrightarrow> jr_worker_id r \<noteq> None)) \<and>
    (\<forall>r \<in> set (db_jobs d). \<forall>s \<in> set (db_jobs d). is_active (jr_state r) \<and> is_active (jr_state s) \<and>
       jr_kind r = Verify \<and> jr_kind s = Verify \<and> jr_target_finding_id r \<noteq> None \<and>
       jr_target_finding_id r = jr_target_finding_id s \<longrightarrow> r = s) \<and>
    (\<forall>r \<in> set (db_findings d). \<forall>s \<in> set (db_findings d). fr_repo_id r = fr_repo_id s \<and>
       f_fingerprint (fr_finding r) = f_fingerprint (fr_finding s) \<longrightarrow> r = s)"
proof -
  have wf: "jobs_wf d" "findings_wf d" using server_reach_wf[OF assms] by (auto simp: store_wf_def)
  have cap: "r = s" if "r \<in> set (db_jobs d)" "s \<in> set (db_jobs d)" "jr_capability_hash r \<noteq> None"
    "jr_capability_hash r = jr_capability_hash s" for r s
    using that wf(1) unique_index_same[of jr_capability_hash "db_jobs d" r s]
    by (auto simp: jobs_wf_def jobs_unique_def)
  have ver: "r = s" if "r \<in> set (db_jobs d)" "s \<in> set (db_jobs d)"
    "is_active (jr_state r)" "is_active (jr_state s)" "jr_kind r = Verify" "jr_kind s = Verify"
    "jr_target_finding_id r \<noteq> None" "jr_target_finding_id r = jr_target_finding_id s" for r s
    using that wf(1) unique_index_same[of active_verify_key "db_jobs d" r s]
    by (auto simp: jobs_wf_def jobs_unique_def active_verify_key_def)
  have fp: "r = s" if "r \<in> set (db_findings d)" "s \<in> set (db_findings d)" "fr_repo_id r = fr_repo_id s"
    "f_fingerprint (fr_finding r) = f_fingerprint (fr_finding s)" for r s
    using that wf(2) by (auto simp: findings_wf_def distinct_map finding_key_def inj_on_def)
  have lease: "\<forall>r \<in> set (db_jobs d). (jr_state r = Leased) = (jr_capability_hash r \<noteq> None) \<and>
       (jr_state r = Leased) = (jr_lease_expires_at r \<noteq> None) \<and>
       (jr_state r = Leased \<longrightarrow> jr_worker_id r \<noteq> None)"
    using wf(1) by (auto simp: jobs_wf_def lease_ok_def split: if_splits)
  show ?thesis
  proof (intro conjI lease ballI impI)
    show "distinct (map jr_id (db_jobs d))" "distinct (map fr_id (db_findings d))"
      using wf by (auto simp: jobs_wf_def findings_wf_def)
  qed (elim conjE, (rule cap ver fp; assumption))+
qed

theorem reachable_store_invariant_witness:
  "server_reach 0 enqueued_db \<and> length (db_jobs enqueued_db) = 1 \<and>
   distinct (map jr_id (db_jobs enqueued_db)) \<and>
   list_all (\<lambda>r. (jr_state r = Leased) = (jr_capability_hash r \<noteq> None)) (db_jobs enqueued_db)"
proof -
  note inv = reachable_store_invariant[OF enqueued_reach]
  have "length (db_jobs enqueued_db) = 1" by (simp add: enqueued_db_def)
  with inv enqueued_reach show ?thesis by (simp add: list_all_iff)
qed

text \<open>
  C2: No finding that has left the pending state is ever lost, re-identified or moved
  against the lifecycle: after any number of server steps the same row (id, repository,
  producing job, fingerprint, report identity) is still there and its state is reachable in the finding machine. In
  particular a reported finding stays reported.
\<close>

theorem findings_survive:
  assumes "store_wf d" and "(server_step idn)\<^sup>*\<^sup>* d d'"
    and "r \<in> set (db_findings d)" and "fr_state r \<noteq> Pending"
  shows "\<exists>r' \<in> set (db_findings d'). same_finding r r' \<and>
    (\<exists>ts. run_machine finding_apply (fr_state r) ts = Ok (fr_state r')) \<and>
    (fr_state r = Reported \<longrightarrow> fr_state r' = Reported)"
proof -
  obtain r' ts where r': "r' \<in> set (db_findings d')" "same_finding r r'"
    "run_machine finding_apply (fr_state r) ts = Ok (fr_state r')"
    using store_steps_finding[OF _ assms(3,4)] server_steps_store[OF assms(1,2)] by blast
  then show ?thesis using finding.absorbing_run[of "fr_state r" ts "fr_state r'"]
    by (intro bexI[of _ r']) auto
qed

theorem findings_survive_witness:
  "\<exists>d'. server_step 0 sample_db d' \<and> length (db_verifications d') = 1 \<and>
     (\<exists>r' \<in> set (db_findings d'). same_finding (sample_row 2 ''b'' Validating (Some 50)) r')"
proof -
  obtain d' where d': "server_step 0 sample_db d'" "length (db_verifications d') = 1"
    using sample_reap_step by blast
  have "sample_row 2 ''b'' Validating (Some 50) \<in> set (db_findings sample_db)"
    and "fr_state (sample_row 2 ''b'' Validating (Some 50)) \<noteq> Pending"
    by (simp_all add: sample_defs)
  from findings_survive[OF sample_store_wf r_into_rtranclp[where r = "server_step 0", OF d'(1)] this] d' show ?thesis by blast
qed

text \<open>
  C3: No job is ever lost or re-targeted: after any number of server steps every job is
  still there with its repository, kind, target and parent, and its state is one the job
  machine reaches; succeeded and cancelled jobs keep their state for good.
\<close>

theorem jobs_survive:
  assumes "store_wf d" and "(server_step idn)\<^sup>*\<^sup>* d d'" and "r \<in> set (db_jobs d)"
  shows "\<exists>r' \<in> set (db_jobs d'). same_job r r' \<and>
    (\<exists>ts. run_machine job_apply (jr_state r) ts = Ok (jr_state r')) \<and>
    (jr_state r = Succeeded \<or> jr_state r = Cancelled \<longrightarrow> jr_state r' = jr_state r)"
proof -
  obtain r' ts where r': "r' \<in> set (db_jobs d')" "same_job r r'"
    "run_machine job_apply (jr_state r) ts = Ok (jr_state r')"
    using store_steps_job[OF _ assms(3)] server_steps_store[OF assms(1,2)] by blast
  then show ?thesis using job.absorbing_run[of "jr_state r" ts "jr_state r'"]
    by (intro bexI[of _ r']) auto
qed

theorem jobs_survive_witness:
  "\<exists>d'. server_step 0 sample_db d' \<and> length (db_verifications d') = 1 \<and>
     (\<exists>r' \<in> set (db_jobs d'). same_job (sample_job 1 Scan Succeeded) r' \<and> jr_state r' = Succeeded)"
proof -
  obtain d' where d': "server_step 0 sample_db d'" "length (db_verifications d') = 1"
    using sample_reap_step by blast
  have "sample_job 1 Scan Succeeded \<in> set (db_jobs sample_db)" by (simp add: sample_db_def)
  from jobs_survive[OF sample_store_wf r_into_rtranclp[where r = "server_step 0", OF d'(1)] this] d' show ?thesis
    by (auto simp: sample_job_def)
qed

end
