(* ===== verification/Leases.thy ===== *)
theory Leases
  imports Pipeline
begin

text \<open>
  What the lease protocol promises: a claimed capability resolves to the claimed job, the
  claim takes the least row in claim order, a lease-bound request runs only under a live
  lease, and completion, cancellation and reaping revoke the capability for good.
\<close>

section \<open>Revocation\<close>

definition capability_dead :: "db \<Rightarrow> blob \<Rightarrow> bool" where
  "capability_dead d h \<longleftrightarrow> (\<forall>r \<in> set (db_jobs d). jr_capability_hash r \<noteq> Some h)"

lemma capability_dead_lookup:
  "capability_dead d h \<Longrightarrow> get_active_by_capability_hash d worker h now = None"
  by (auto simp: capability_dead_def get_active_by_capability_hash_def find_None_iff)

lemma capability_dead_request:
  "capability_dead d (li_capability_hash (al_identity lease)) \<Longrightarrow>
     with_active_lease d lease body = Ok (None, d)"
  by (simp add: with_active_lease_def capability_dead_lookup)

lemma null_ge_iff: "null_ge x y \<longleftrightarrow> (\<exists>z. x = Some z \<and> y \<le> z)"
  by (cases x) auto

context releasing_update
begin

lemma revokes:
  assumes "jobs_wf d" "exec_update_jobs P f d = Ok (n, d')"
    and "r \<in> set (db_jobs d)" "P r" "jr_capability_hash r = Some h"
  shows "capability_dead d' h"
  unfolding capability_dead_def
proof
  fix s' assume "s' \<in> set (db_jobs d')"
  then obtain s where s: "s \<in> set (db_jobs d)" "s' = (if P s then f s else s)"
    using assms(2) by (auto simp: exec_update_jobs_Ok in_sql_update_iff)
  show "jr_capability_hash s' \<noteq> Some h"
  proof (cases "P s")
    case True
    then show ?thesis using releases s(2) by simp
  next
    case False
    then have "s \<noteq> r" using assms(4) by auto
    then show ?thesis
      using False s assms(1,3,5) unique_index_same[of jr_capability_hash "db_jobs d" s r]
      by (auto simp: jobs_wf_def jobs_unique_def)
  qed
qed

end

lemma jobs_complete_revokes:
  assumes "jobs_wf d" and "jobs_complete lease st head err now d = Ok (True, d')"
  shows "capability_dead d' (li_capability_hash lease) \<and>
    (\<exists>r \<in> set (db_jobs d'). jr_id r = li_job_id lease \<and> jr_state r = st)"
proof -
  let ?P = "live_lease (li_job_id lease) (li_worker_id lease) (li_capability_hash lease) now"
  obtain n where run: "exec_update_jobs ?P (complete_row st head err now) d = Ok (n, d')" and "n > 0"
    and st: "st = Succeeded \<or> st = Failed"
    using assms(2) by (auto simp: jobs_complete_Ok)
  then have "sql_count ?P (db_jobs d) \<noteq> 0" by (auto simp: exec_update_jobs_Ok)
  then obtain r where r: "r \<in> set (db_jobs d)" "?P r" by (auto simp: sql_count_zero_iff)
  have "capability_dead d' (li_capability_hash lease)"
    by (rule releasing_update.revokes[OF complete_releasing[OF st] assms(1) run r])
      (use r(2) in \<open>simp add: live_lease_def\<close>)
  moreover have "complete_row st head err now r \<in> set (db_jobs d')"
    using run r by (auto simp: exec_update_jobs_Ok sql_simps)
  ultimately show ?thesis using r(2)
    by (intro conjI bexI[of _ "complete_row st head err now r"])
      (simp_all add: complete_row_def live_lease_def)
qed

lemma with_active_lease_Some:
  assumes "with_active_lease d lease body = Ok (Some x, d')"
  obtains job where "get_active_by_capability_hash d (li_worker_id (al_identity lease))
      (li_capability_hash (al_identity lease)) (al_now lease) = Some job"
    "jr_id job = li_job_id (al_identity lease)"
    "body \<lparr>as_repo = \<lparr>rs_repo_id = jr_repo_id job, rs_operator = False\<rparr>, as_job = job,
       as_lease = lease\<rparr> d = Ok (x, d')"
  using assms that
  by (auto simp: with_active_lease_def map_ok_Ok_iff split: option.splits if_splits)

section \<open>Claim order\<close>

definition claimable :: "claim_request \<Rightarrow> job_row \<Rightarrow> bool" where
  "claimable req j \<longleftrightarrow> jr_state j = Queued \<and> jr_campaign_id j = None \<and>
     (jr_kind j = Scan \<or> jr_kind j = Verify) \<and> jr_kind j \<in> set (cr_kinds req)"

definition queue_rank :: "job_row \<Rightarrow> nat \<times> int \<times> int" where
  "queue_rank j = (if jr_kind j = Verify then 0 else 1, jr_enqueued_at j, jr_id j)"

definition claim_kinds :: "claim_request \<Rightarrow> string list" where
  "claim_kinds req = sql_kind_list (filter (\<lambda>kind. list_ex (\<lambda>allowed. is_known kind \<and>
     job_kind_as_str allowed = job_kind_as_str kind) LEGACY_RUNTIME_KINDS) (cr_kinds req))"

lemma in_claim_kinds:
  "s \<in> set (claim_kinds req) \<longleftrightarrow>
     (\<exists>k \<in> set (cr_kinds req). (k = Scan \<or> k = Verify) \<and> s = job_kind_as_str k)"
proof -
  have legacy: "(case k of Scan \<Rightarrow> True | Survey \<Rightarrow> True | Drilldown \<Rightarrow> True | Verify \<Rightarrow> True
                 | Unknown _ \<Rightarrow> False) \<and>
      list_ex (\<lambda>allowed. is_known k \<and> job_kind_as_str allowed = job_kind_as_str k) LEGACY_RUNTIME_KINDS
      \<longleftrightarrow> k = Scan \<or> k = Verify" for k
    by (cases k) (simp_all add: LEGACY_RUNTIME_KINDS_def is_known_def)
  show ?thesis unfolding claim_kinds_def sql_kind_list_def using legacy by auto
qed

lemma claim_candidates_iff:
  assumes "kind_ok j"
  shows "j \<in> set (claim_candidates (claim_kinds req) d) \<longleftrightarrow> j \<in> set (db_jobs d) \<and> claimable req j"
  using assms kind_ok_str_iff[of j Scan] kind_ok_str_iff[of j Verify]
  by (auto simp: claim_candidates_def in_claim_kinds claimable_def is_known_def)

lemma claim_order_legacy:
  "claimable req j \<Longrightarrow> claimable req j' \<Longrightarrow>
     claim_order p now j \<le> claim_order p now j' \<longleftrightarrow> queue_rank j \<le> queue_rank j'"
  by (auto simp: claimable_def claim_order_def BAND_RANK_def SCORE_def queue_rank_def less_eq_prod_def)

lemma sort_key_hd_least:
  fixes k :: "'a \<Rightarrow> 'b :: linorder"
  assumes "sort_key k xs = j # rest" and "x \<in> set xs"
  shows "k j \<le> k x"
proof -
  have "sorted (map k (j # rest))" using assms(1) sorted_sort_key[of k xs] by simp
  moreover have "x \<in> set (j # rest)" using assms set_sort[of k xs] by simp
  ultimately show ?thesis by auto
qed

lemma find_unique:
  assumes "r \<in> set t" "P r" and "\<And>s. s \<in> set t \<Longrightarrow> P s \<Longrightarrow> s = r"
  shows "find P t = Some r"
proof (cases "find P t")
  case None
  then show ?thesis using assms(1,2) by (auto simp: find_None_iff)
next
  case (Some s)
  then have "s \<in> set t" "P s" by (auto simp: find_Some_iff)
  then show ?thesis using Some assms(3) by blast
qed

lemma claim_raw_cases:
  assumes "claim_raw req d = Ok (res, d')"
  obtains (none) "res = None" "d' = d"
  | (some) j lease n where "claim_select req (claim_kinds req) d = Some j"
      "lease = cr_now req + cr_legacy_lease_seconds req"
      "exec_update_jobs (\<lambda>r. jr_id r = jr_id j) (lease_row req lease) d = Ok (n, d')"
      "res = Some \<lparr>cl_job = lease_row req lease j, cl_assigned_units = [], cl_resumed = False\<rparr>"
  using assms unfolding claim_raw_def claim_kinds_def[symmetric] claim_filtered_def
  by (auto simp: Let_def and_then_Ok_iff ok_or_Ok_iff i64_ops claim_kinds_def[symmetric]
      split: if_splits option.splits)

lemma claim_select_least:
  assumes "claim_select req kinds d = Some j" and "j' \<in> set (claim_candidates kinds d)"
  shows "claim_order (cr_policy req) (cr_now req) j \<le> claim_order (cr_policy req) (cr_now req) j'"
proof -
  obtain rest where "sort_key (claim_order (cr_policy req) (cr_now req)) (claim_candidates kinds d) = j # rest"
    using assms(1) by (auto simp: claim_select_def split: list.splits)
  then show ?thesis using assms(2) by (rule sort_key_hd_least)
qed

interpretation lease_key: row_update jr_id "lease_row req lease" for req lease
  by unfold_locales (simp add: lease_row_def)

lemma lease_row_simps [simp]:
  "jr_id (lease_row req lease j) = jr_id j" "jr_state (lease_row req lease j) = Leased"
  "jr_worker_id (lease_row req lease j) = Some (cr_worker_id req)"
  "jr_lease_expires_at (lease_row req lease j) = Some lease"
  "jr_capability_hash (lease_row req lease j) = Some (cr_capability_hash req)"
  "jr_kind (lease_row req lease j) = jr_kind j" "jr_phase (lease_row req lease j) = jr_phase j"
  by (simp_all add: lease_row_def)

lemma claimed_lookup:
  assumes "jobs_wf d'" and "lease_row req lease j \<in> set (db_jobs d')" and "claimable req j" and "t \<le> lease"
  shows "get_active_by_capability_hash d' (cr_worker_id req) (cr_capability_hash req) t =
    Some (lease_row req lease j)"
  unfolding get_active_by_capability_hash_def
proof (rule find_unique[OF assms(2)])
  show "null_eq (jr_worker_id (lease_row req lease j)) (cr_worker_id req) \<and>
    null_eq (jr_capability_hash (lease_row req lease j)) (cr_capability_hash req) \<and>
    jr_state (lease_row req lease j) = Leased \<and> jr_lease_expires_at (lease_row req lease j) \<noteq> None \<and>
    null_ge (jr_lease_expires_at (lease_row req lease j)) t \<and>
    jr_campaign_id (lease_row req lease j) = None \<and> legacy_kinds_sql (lease_row req lease j)"
    using assms(3,4)
    by (auto simp: claimable_def legacy_kinds_sql_def LEGACY_RUNTIME_KINDS_def)
  show "s = lease_row req lease j" if "s \<in> set (db_jobs d')"
    and "null_eq (jr_worker_id s) (cr_worker_id req) \<and> null_eq (jr_capability_hash s) (cr_capability_hash req) \<and>
    jr_state s = Leased \<and> jr_lease_expires_at s \<noteq> None \<and> null_ge (jr_lease_expires_at s) t \<and>
    jr_campaign_id s = None \<and> legacy_kinds_sql s" for s
    using that assms(1,2) unique_index_same[of jr_capability_hash "db_jobs d'" s "lease_row req lease j"]
    by (auto simp: jobs_wf_def jobs_unique_def)
qed

section \<open>A sample queue\<close>

text \<open>
  Five jobs of one repository: a finished scan, a queued scan, a younger queued verify job,
  a leased scan on its first attempt and one on its last, which has a pending finding.
\<close>

definition leased_scan :: "int \<Rightarrow> int \<Rightarrow> int \<Rightarrow> job_row" where
  "leased_scan i attempts expiry = (sample_job i Scan Leased)\<lparr>jr_worker_id := Some 7,
     jr_lease_expires_at := Some expiry, jr_capability_hash := Some [nat i], jr_attempts := attempts,
     jr_started_at := Some 1\<rparr>"

definition queue_db :: db where
  "queue_db = sample_db\<lparr>db_jobs := [sample_job 1 Scan Succeeded, (sample_job 2 Scan Queued)\<lparr>jr_enqueued_at := 3\<rparr>,
      (sample_job 3 Verify Queued)\<lparr>jr_enqueued_at := 9, jr_target_finding_id := Some 1\<rparr>,
      leased_scan 4 1 50, leased_scan 5 3 60],
    db_findings := [sample_row 1 ''a'' Validating (Some 5), sample_row 2 ''b'' Validating (Some 50),
      (sample_row 3 ''c'' Pending None)\<lparr>fr_job_id := 5\<rparr>]\<rparr>"

definition sample_claim :: claim_request where
  "sample_claim = \<lparr>cr_worker_id = 7, cr_kinds = [Scan, Unknown ''scan'', Verify], cr_now = 10,
     cr_capability_hash = [9], cr_legacy_lease_seconds = 600, cr_policy = claim_policy_default\<rparr>"

lemmas queue_defs = queue_db_def leased_scan_def sample_defs sample_claim_def

lemma queue_db_wf: "store_wf queue_db"
  by (simp add: store_wf_def jobs_wf_def findings_wf_def jobs_unique_def unique_index_Cons lease_ok_def
      kind_ok_def job_kind_from_text_def finding_key_def key_defs queue_defs)

lemma queue_claim_run:
  "\<exists>c d'. claim_raw sample_claim queue_db = Ok (Some c, d') \<and> jr_id (cl_job c) = 3"
proof -
  have kinds: "claim_kinds sample_claim = [''scan'', ''verify'']"
    by (simp add: claim_kinds_def sql_kind_list_def sample_claim_def LEGACY_RUNTIME_KINDS_def is_known_def)
  have sel: "claim_select sample_claim [''scan'', ''verify''] queue_db =
      Some ((sample_job 3 Verify Queued)\<lparr>jr_enqueued_at := 9, jr_target_finding_id := Some 1\<rparr>)"
    by (simp add: claim_select_def claim_candidates_def queue_defs claim_order_def BAND_RANK_def
        SCORE_def less_eq_prod_def)
  have "jobs_unique (sql_update (\<lambda>r. jr_id r = 3) (lease_row sample_claim 610) (db_jobs queue_db))"
    by (simp add: jobs_unique_def unique_index_Cons key_defs sql_update_def queue_defs lease_row_def)
  then show ?thesis
    by (simp add: claim_raw_def claim_filtered_def claim_kinds_def[symmetric] kinds sel Let_def
        exec_update_jobs_def i64_ops i64_bounds claim_policy_invalid_def claim_policy_default_def)
      (simp add: queue_defs claim_policy_default_def exec_update_jobs_def)
qed

section \<open>Properties\<close>

text \<open>
  C4: A successful claim takes the first job in queue order: among the queued, non-campaign
  scan and verify jobs of a requested kind, verify jobs come before scans, then the oldest
  enqueue time, then the smallest id. Exactly that row changes: it is leased to the requesting worker until
  now plus the lease time with one more attempt, and until then the new
  capability resolves to it and to nothing else.
\<close>

theorem claim_takes_first:
  assumes "store_wf d" and "claim_raw req d = Ok (Some c, d')"
  shows "\<exists>j \<in> set (db_jobs d). claimable req j \<and>
    (\<forall>j' \<in> set (db_jobs d). claimable req j' \<longrightarrow> queue_rank j \<le> queue_rank j') \<and>
    cl_job c = lease_row req (cr_now req + cr_legacy_lease_seconds req) j \<and>
    d' = d\<lparr>db_jobs := map (\<lambda>r. if r = j then cl_job c else r) (db_jobs d)\<rparr> \<and>
    (\<forall>t \<le> cr_now req + cr_legacy_lease_seconds req.
       get_active_by_capability_hash d' (cr_worker_id req) (cr_capability_hash req) t = Some (cl_job c))"
  using assms(2)
proof (cases rule: claim_raw_cases)
  case (some j lease n)
  have wf: "jobs_wf d" "jobs_wf d'"
    using assms preserves_wf[OF claim_raw_preserves[OF assms(2)]] by (auto simp: store_wf_def)
  have ok: "kind_ok r" if "r \<in> set (db_jobs d)" for r using wf(1) that by (auto simp: jobs_wf_def)
  have j: "j \<in> set (db_jobs d)" using claim_select_mem[OF some(1)] by simp
  then have cand: "claimable req j"
    using claim_select_mem[OF some(1)] claim_candidates_iff[OF ok, of j req d]
    by (simp add: claim_candidates_def)
  have least: "queue_rank j \<le> queue_rank j'" if "j' \<in> set (db_jobs d)" "claimable req j'" for j'
    using claim_select_least[OF some(1), of j'] that claim_order_legacy[OF cand that(2)]
      claim_candidates_iff[OF ok[OF that(1)], of req d] by simp
  have same: "(jr_id r = jr_id j) = (r = j)" if "r \<in> set (db_jobs d)" for r
    using row_by_unique[of jr_id "db_jobs d" r j] that j wf(1) by (auto simp: jobs_wf_def)
  have d': "d' = d\<lparr>db_jobs := map (\<lambda>r. if r = j then lease_row req lease j else r) (db_jobs d)\<rparr>"
    using some(3) same by (auto simp: exec_update_jobs_Ok sql_update_def)
  have "lease_row req lease j \<in> set (db_jobs d')" using d' j by force
  then have "get_active_by_capability_hash d' (cr_worker_id req) (cr_capability_hash req) t =
      Some (lease_row req lease j)" if "t \<le> lease" for t
    using claimed_lookup[OF wf(2) _ cand that] by simp
  then show ?thesis using j cand least d' some(2,4) by (intro bexI[of _ j]) auto
qed simp

theorem claim_takes_first_witness:
  "\<exists>c d'. claim_raw sample_claim queue_db = Ok (Some c, d') \<and> jr_id (cl_job c) = 3 \<and>
     get_active_by_capability_hash d' 7 [9] 610 = Some (cl_job c)"
proof -
  obtain c d' where run: "claim_raw sample_claim queue_db = Ok (Some c, d')" "jr_id (cl_job c) = 3"
    using queue_claim_run by blast
  have "\<forall>t \<le> cr_now sample_claim + cr_legacy_lease_seconds sample_claim.
      get_active_by_capability_hash d' (cr_worker_id sample_claim) (cr_capability_hash sample_claim) t =
      Some (cl_job c)"
    using claim_takes_first[OF queue_db_wf run(1)] by blast
  then show ?thesis using run by (intro exI[of _ c] exI[of _ d']) (simp add: sample_claim_def)
qed

lemma unique_index_set_one:
  assumes "unique_index k t" and "distinct (map key t)"
    and "\<And>r. r \<in> set t \<Longrightarrow> key r = i \<Longrightarrow> k (f r) = k r \<or> (\<forall>s \<in> set t. \<forall>x. k (f r) = Some x \<longrightarrow> k s \<noteq> Some x)"
  shows "unique_index k (sql_update (\<lambda>r. key r = i) f t)"
  using assms
proof (induction t)
  case (Cons r t)
  have tl: "unique_index k (sql_update (\<lambda>r. key r = i) f t)"
    using Cons by (auto simp: unique_index_Cons)
  show ?case
  proof (cases "key r = i")
    case True
    then have "sql_update (\<lambda>r. key r = i) f t = t"
      using Cons.prems(2) by (intro sql_update_none ballI) (auto simp: image_iff)
    then show ?thesis using True Cons.prems(1) Cons.prems(3)[of r]
      by (auto simp: sql_update_def unique_index_Cons)
  next
    case False
    have "k s' \<noteq> Some x" if x: "k r = Some x" and s': "s' \<in> set (sql_update (\<lambda>r. key r = i) f t)" for s' x
    proof -
      obtain s where s: "s \<in> set t" "s' = (if key s = i then f s else s)"
        using s' by (auto simp: in_sql_update_iff)
      then have "k s \<noteq> Some x" using Cons.prems(1) x by (auto simp: unique_index_Cons)
      then show ?thesis using s x Cons.prems(3)[of s] by auto
    qed
    then show ?thesis using tl False by (simp add: sql_update_def unique_index_Cons)
  qed
qed (simp add: sql_update_def)

lemma lease_update_unique:
  assumes "jobs_wf d" and "j \<in> set (db_jobs d)" and "jr_state j = Queued"
    and "capability_dead d (cr_capability_hash req)"
  shows "jobs_unique (sql_update (\<lambda>r. jr_id r = jr_id j) (lease_row req lease) (db_jobs d))"
proof -
  have only: "r = j" if "r \<in> set (db_jobs d)" "jr_id r = jr_id j" for r
    using row_by_unique[of jr_id "db_jobs d" r j] that assms(1,2) by (auto simp: jobs_wf_def)
  have "active_verify_key (lease_row req lease j) = active_verify_key j"
    "active_drilldown_key (lease_row req lease j) = active_drilldown_key j"
    using assms(3) by (auto simp: key_defs lease_row_def)
  with only show ?thesis
    using assms(1,4) unfolding jobs_unique_def
    by (intro conjI unique_index_set_one)
      (auto simp: jobs_wf_def jobs_unique_def capability_dead_def)
qed

lemma claim_select_None: "claim_select req kinds d = None \<longleftrightarrow> claim_candidates kinds d = []"
  by (cases "sort_key (claim_order (cr_policy req) (cr_now req)) (claim_candidates kinds d)")
    (auto simp: claim_select_def)



definition lease_live :: "active_lease \<Rightarrow> job_row \<Rightarrow> bool" where
  "lease_live lease r \<longleftrightarrow> jr_id r = li_job_id (al_identity lease) \<and> jr_state r = Leased \<and>
     jr_worker_id r = Some (li_worker_id (al_identity lease)) \<and>
     jr_capability_hash r = Some (li_capability_hash (al_identity lease)) \<and>
     null_ge (jr_lease_expires_at r) (al_now lease) \<and> jr_campaign_id r = None \<and>
     (jr_kind r = Scan \<or> jr_kind r = Verify)"

text \<open>
  C6: A lease-bound request fails closed. The body runs only for the one job that the
  capability names, and only while that job is leased to the presenting worker, unexpired,
  outside every campaign and of a legacy kind; it sees that job's repository without
  operator authority. In every other case nothing runs and the store is unchanged.
\<close>

theorem lease_bound_request:
  assumes "store_wf d"
  shows "(\<forall>r \<in> set (db_jobs d). lease_live lease r \<longrightarrow>
      with_active_lease d lease body = map_ok (\<lambda>(x, d'). (Some x, d'))
        (body \<lparr>as_repo = \<lparr>rs_repo_id = jr_repo_id r, rs_operator = False\<rparr>, as_job = r,
           as_lease = lease\<rparr> d)) \<and>
    ((\<nexists>r. r \<in> set (db_jobs d) \<and> lease_live lease r) \<longrightarrow> with_active_lease d lease body = Ok (None, d))"
proof (intro conjI ballI impI)
  have wf: "jobs_wf d" using assms by (simp add: store_wf_def)
  show "with_active_lease d lease body = map_ok (\<lambda>(x, d'). (Some x, d'))
        (body \<lparr>as_repo = \<lparr>rs_repo_id = jr_repo_id r, rs_operator = False\<rparr>, as_job = r,
           as_lease = lease\<rparr> d)" if r: "r \<in> set (db_jobs d)" "lease_live lease r" for r
  proof -
    have "get_active_by_capability_hash d (li_worker_id (al_identity lease))
        (li_capability_hash (al_identity lease)) (al_now lease) = Some r"
      using r wf unfolding get_active_by_capability_hash_def
      by (intro find_unique unique_index_same[of jr_capability_hash "db_jobs d" _ r])
        (auto simp: lease_live_def null_ge_iff legacy_kinds_sql_iff jobs_wf_def jobs_unique_def)
    then show ?thesis using r(2) by (simp add: with_active_lease_def lease_live_def)
  qed
  show "with_active_lease d lease body = Ok (None, d)" if "\<nexists>r. r \<in> set (db_jobs d) \<and> lease_live lease r"
  proof -
    have "jr_id r \<noteq> li_job_id (al_identity lease)"
      if "get_active_by_capability_hash d (li_worker_id (al_identity lease))
        (li_capability_hash (al_identity lease)) (al_now lease) = Some r" for r
      using that \<open>\<nexists>r. _\<close> wf
      by (auto simp: get_active_by_capability_hash_def find_Some_iff lease_live_def legacy_kinds_sql_iff
          jobs_wf_def)
    then show ?thesis by (auto simp: with_active_lease_def split: option.split)
  qed
qed

definition sample_lease :: "int \<Rightarrow> int \<Rightarrow> int \<Rightarrow> active_lease" where
  "sample_lease i worker now =
    \<lparr>al_identity = \<lparr>li_job_id = i, li_worker_id = worker, li_capability_hash = [nat i]\<rparr>, al_now = now\<rparr>"

theorem lease_bound_request_witness:
  "with_active_lease queue_db (sample_lease 4 7 50) (\<lambda>sc d. Ok (jr_attempts (as_job sc), d)) =
     Ok (Some 1, queue_db) \<and>
   with_active_lease queue_db (sample_lease 4 7 51) (\<lambda>sc d. Ok (jr_attempts (as_job sc), d)) =
     Ok (None, queue_db)"
proof
  have live: "leased_scan 4 1 50 \<in> set (db_jobs queue_db)" "lease_live (sample_lease 4 7 50) (leased_scan 4 1 50)"
    by (simp_all add: queue_defs lease_live_def sample_lease_def)
  show "with_active_lease queue_db (sample_lease 4 7 50) (\<lambda>sc d. Ok (jr_attempts (as_job sc), d)) =
      Ok (Some 1, queue_db)"
    using lease_bound_request[OF queue_db_wf, THEN conjunct1, rule_format, OF live,
        where body = "\<lambda>sc d. Ok (jr_attempts (as_job sc), d)"]
    by (simp add: leased_scan_def)
  have "\<not> (\<exists>r \<in> set (db_jobs queue_db). lease_live (sample_lease 4 7 51) r)"
    by (simp add: queue_defs lease_live_def sample_lease_def)
  then have "\<nexists>r. r \<in> set (db_jobs queue_db) \<and> lease_live (sample_lease 4 7 51) r" by blast
  then show "with_active_lease queue_db (sample_lease 4 7 51) (\<lambda>sc d. Ok (jr_attempts (as_job sc), d)) =
      Ok (None, queue_db)"
    using lease_bound_request[OF queue_db_wf] by blast
qed



end
