(* ===== verification/Queue_Control.thy ===== *)
theory Queue_Control
  imports Leases
begin

text \<open>
  Cancellation, reaping and retry on well-formed stores: which row each of them changes,
  what happens to the findings, and that none of them can fail there.
\<close>

section \<open>Cancellation\<close>

lemma jobs_row_unique:
  assumes "store_wf d" "r \<in> set (db_jobs d)" "s \<in> set (db_jobs d)" "jr_id r = jr_id s"
  shows "r = s"
  using assms row_by_unique[of jr_id "db_jobs d" r s] by (auto simp: store_wf_def jobs_wf_def)

lemma jobs_get_raw_iff:
  assumes "store_wf d"
  shows "jobs_get_raw d i = Some r \<longleftrightarrow> r \<in> set (db_jobs d) \<and> jr_id r = i"
  using assms row_by_mem[of jr_id "db_jobs d" r] row_by_Some[of jr_id i "db_jobs d" r]
  by (auto simp: jobs_get_raw_def store_wf_def jobs_wf_def)

lemma sql_update_one:
  assumes "r \<in> set t" and "\<And>s. s \<in> set t \<Longrightarrow> P s \<longleftrightarrow> s = r"
  shows "sql_update P f t = map (\<lambda>s. if s = r then f r else s) t"
  using assms by (auto simp: sql_update_def)

text \<open>
  C10: Cancelling queued or leased scan or verify work succeeds and changes exactly that job:
  it becomes cancelled with the administrator's reason, and its capability, if it had one,
  names no job any more. Of the findings, exactly the still pending
  ones a cancelled scan had inserted are removed.
\<close>

theorem cancel_correct:
  assumes "store_wf d" and "r \<in> set (db_jobs d)" and "is_active (jr_state r)"
    and "jr_kind r = Scan \<or> jr_kind r = Verify"
  shows "\<exists>d'. jobs_cancel (jr_id r) now d = Ok (CancelledJob (cancel_row Cancelled now r), d') \<and>
    db_jobs d' = map (\<lambda>s. if s = r then cancel_row Cancelled now r else s) (db_jobs d) \<and>
    db_findings d' = filter (\<lambda>f. \<not> (jr_kind r = Scan \<and> fr_job_id f = jr_id r \<and>
      fr_repo_id f = jr_repo_id r \<and> fr_state f = Pending)) (db_findings d) \<and>
    (\<forall>h. jr_capability_hash r = Some h \<longrightarrow> capability_dead d' h)"
proof -
  let ?P = "\<lambda>s. jr_id s = jr_id r \<and> jr_repo_id s = jr_repo_id r \<and> is_active (jr_state s) \<and> legacy_kinds_sql s"
  have wf: "jobs_wf d" using assms(1) by (simp add: store_wf_def)
  have leg: "legacy_kinds_sql r" using legacy_kinds_sql_iff[of r] wf assms by (auto simp: jobs_wf_def)
  have P: "?P s \<longleftrightarrow> s = r" if "s \<in> set (db_jobs d)" for s
    using jobs_row_unique[OF assms(1) that assms(2)] leg assms(3) by blast
  note run = releasing_update.never_fails[OF cancel_releasing wf, of "jr_id r" "jr_repo_id r" now]
  define d1 where "d1 = d\<lparr>db_jobs := sql_update ?P (cancel_row Cancelled now) (db_jobs d)\<rparr>"
  have d1: "db_jobs d1 = map (\<lambda>s. if s = r then cancel_row Cancelled now r else s) (db_jobs d)"
    "db_findings d1 = db_findings d"
    using sql_update_one[OF assms(2) P] by (simp_all add: d1_def)
  have cnt: "sql_count ?P (db_jobs d) \<noteq> 0" using P assms(2) by (auto simp: sql_count_zero_iff)
  define d2 where "d2 = (if jr_kind r = Scan then delete_findings (\<lambda>f. fr_job_id f = jr_id r \<and>
      fr_repo_id f = jr_repo_id r \<and> fr_state f = Pending) d1 else d1)"
  have jobs: "db_jobs d2 = db_jobs d1" by (simp add: d2_def)
  have "store_wf d1" using job_update_preserves[OF releasing_update.axioms(1)[OF cancel_releasing] run]
    assms(1) preserves_wf by (simp add: d1_def)
  then have got: "jobs_get_raw d2 (jr_id r) = Some (cancel_row Cancelled now r)"
    using jobs_get_raw_iff[of d1 "jr_id r"] assms(2) d1 jobs
    by (auto simp: jobs_get_raw_def cancel_row_def)
  have "jobs_cancel (jr_id r) now d = Ok (CancelledJob (cancel_row Cancelled now r), d2)"
    using assms(3,4) run cnt got jobs_get_raw_iff[OF assms(1), of "jr_id r" r] assms(2)
    by (auto simp: jobs_cancel_def job_apply_cancel LEGACY_RUNTIME_KINDS_def d1_def[symmetric]
        d2_def[symmetric] Let_def)
  moreover have "db_findings d2 = filter (\<lambda>f. \<not> (jr_kind r = Scan \<and> fr_job_id f = jr_id r \<and>
      fr_repo_id f = jr_repo_id r \<and> fr_state f = Pending)) (db_findings d)"
    using d1(2) by (auto simp: d2_def delete_findings_def sql_delete_def Let_def)
  moreover have "capability_dead d2 h" if "jr_capability_hash r = Some h" for h
    using releasing_update.revokes[OF cancel_releasing wf run assms(2) _ that] assms(3) leg jobs
    by (simp add: capability_dead_def d1_def)
  ultimately show ?thesis using d1(1) jobs by (intro exI[of _ d2]) simp
qed

theorem cancel_correct_witness:
  "\<exists>d'. jobs_cancel 5 70 queue_db = Ok (CancelledJob (cancel_row Cancelled 70 (leased_scan 5 3 60)), d') \<and>
     map fr_id (db_findings d') = [1, 2] \<and> capability_dead d' [5]"
proof -
  have r: "leased_scan 5 3 60 \<in> set (db_jobs queue_db)" "is_active (jr_state (leased_scan 5 3 60))"
    "jr_kind (leased_scan 5 3 60) = Scan \<or> jr_kind (leased_scan 5 3 60) = Verify"
    by (simp_all add: queue_defs is_active_def)
  have row: "jr_id (leased_scan 5 3 60) = 5" "jr_capability_hash (leased_scan 5 3 60) = Some [5]"
    by (simp_all add: queue_defs)
  obtain d' where d': "jobs_cancel 5 70 queue_db = Ok (CancelledJob (cancel_row Cancelled 70 (leased_scan 5 3 60)), d')"
    "db_findings d' = filter (\<lambda>f. \<not> (jr_kind (leased_scan 5 3 60) = Scan \<and> fr_job_id f = 5 \<and>
      fr_repo_id f = jr_repo_id (leased_scan 5 3 60) \<and> fr_state f = Pending)) (db_findings queue_db)"
    "capability_dead d' [5]"
    using cancel_correct[OF queue_db_wf r, of 70, unfolded row] by blast
  have "map fr_id (db_findings d') = [1, 2]" unfolding d'(2) by (simp add: queue_defs)
  then show ?thesis using d'(1,3) by (intro exI[of _ d'] conjI)
qed

section \<open>Reaping\<close>

definition reapable :: "int \<Rightarrow> job_row \<Rightarrow> bool" where
  "reapable now r \<longleftrightarrow> expired_legacy now r \<and> (jr_kind r = Scan \<or> jr_kind r = Verify)"

definition reap_row :: "int \<Rightarrow> db \<Rightarrow> job_row \<Rightarrow> job_row" where
  "reap_row now d r =
    (if \<not> reapable now r then r
     else if jr_kind r = Verify \<and> PHASE_FINDING_TARGET_SQL d r
       then reap_fail_row Failed ''legacy verification cannot target phase findings'' now r
     else if jr_attempts r < MAX_ATTEMPTS then reap_requeue_row Queued r
     else reap_fail_row Failed LEASE_EXPIRED_AFTER_MAX_ATTEMPTS_ERROR now r)"

lemma sql_count_Cons: "sql_count P (r # t) = (if P r then 1 else 0) + sql_count P t"
  by (simp add: sql_count_def)

lemma sql_update_Cons: "sql_update P f (r # t) = (if P r then f r else r) # sql_update P f t"
  by (simp add: sql_update_def)

text \<open>Three updates in sequence whose conditions split one condition \<open>R\<close>.\<close>

lemma three_updates:
  assumes "\<And>r. r \<in> set t \<Longrightarrow> P1 r \<Longrightarrow> R r \<and> \<not> P2 (f1 r) \<and> \<not> P3 (f1 r)"
    and "\<And>r. r \<in> set t \<Longrightarrow> \<not> P1 r \<Longrightarrow> P2 r \<Longrightarrow> R r \<and> \<not> P3 (f2 r)"
    and "\<And>r. r \<in> set t \<Longrightarrow> \<not> P1 r \<Longrightarrow> \<not> P2 r \<Longrightarrow> P3 r = R r"
  shows "sql_update P3 f3 (sql_update P2 f2 (sql_update P1 f1 t)) =
      map (\<lambda>r. if P1 r then f1 r else if P2 r then f2 r else if P3 r then f3 r else r) t \<and>
    sql_count P1 t + sql_count P2 (sql_update P1 f1 t) + sql_count P3 (sql_update P2 f2 (sql_update P1 f1 t)) =
      length (filter R t)"
  using assms
proof (induction t)
  case (Cons r t)
  have "sql_update P3 f3 (sql_update P2 f2 (sql_update P1 f1 t)) =
      map (\<lambda>r. if P1 r then f1 r else if P2 r then f2 r else if P3 r then f3 r else r) t \<and>
    sql_count P1 t + sql_count P2 (sql_update P1 f1 t) + sql_count P3 (sql_update P2 f2 (sql_update P1 f1 t)) =
      length (filter R t)"
    using Cons.prems by (intro Cons.IH) auto
  then show ?case using Cons.prems[of r]
    by (cases "P1 r"; cases "P2 r"; cases "P3 r") (simp_all add: sql_update_Cons sql_count_Cons)
qed (simp add: sql_update_def sql_count_def)

lemma fold_delete_pending:
  "db_findings (fold (\<lambda>(job, repo). delete_pending_for_job repo job) js d) =
     filter (\<lambda>f. \<not> (fr_state f = Pending \<and> (fr_job_id f, fr_repo_id f) \<in> set js)) (db_findings d) \<and>
   db_jobs (fold (\<lambda>(job, repo). delete_pending_for_job repo job) js d) = db_jobs d"
proof (induction js arbitrary: d)
  case (Cons j js)
  obtain job repo where j: "j = (job, repo)" by (cases j)
  have "db_findings (delete_pending_for_job repo job d) =
      filter (\<lambda>f. \<not> (fr_job_id f = job \<and> fr_repo_id f = repo \<and> fr_state f = Pending)) (db_findings d)"
    by (simp add: delete_pending_for_job_def delete_findings_def Let_def sql_delete_def conj_commute
        conj_left_commute)
  then show ?case using Cons.IH[of "delete_pending_for_job repo job d"] j
    by (auto simp: delete_pending_for_job_def intro!: filter_cong)
qed simp

lemma reap_legacy_run:
  fixes now :: int and d :: db
  assumes "store_wf d"
  defines "P1 \<equiv> \<lambda>r. expired_legacy now r \<and> jr_kind r = Verify \<and> PHASE_FINDING_TARGET_SQL d r"
    and "P2 \<equiv> \<lambda>r. expired_legacy now r \<and> jr_attempts r < MAX_ATTEMPTS \<and> legacy_kinds_sql r"
    and "P3 \<equiv> \<lambda>r. expired_legacy now r \<and> jr_attempts r \<ge> MAX_ATTEMPTS \<and> legacy_kinds_sql r"
    and "f1 \<equiv> reap_fail_row Failed ''legacy verification cannot target phase findings'' now"
    and "f3 \<equiv> reap_fail_row Failed LEASE_EXPIRED_AFTER_MAX_ATTEMPTS_ERROR now"
  shows "\<exists>d3. reap_legacy now d =
      Ok (sql_count P1 (db_jobs d) + sql_count P2 (sql_update P1 f1 (db_jobs d)) +
            sql_count P3 (sql_update P2 (reap_requeue_row Queued) (sql_update P1 f1 (db_jobs d))),
          fold (\<lambda>(job, repo). delete_pending_for_job repo job)
            (map (\<lambda>r. (jr_id r, jr_repo_id r)) (filter (\<lambda>r. jr_kind r = Scan \<and> expired_legacy now r \<and>
               jr_attempts r \<ge> MAX_ATTEMPTS) (sql_update P1 f1 (db_jobs d)))) d3) \<and>
    db_jobs d3 = sql_update P3 f3 (sql_update P2 (reap_requeue_row Queued) (sql_update P1 f1 (db_jobs d))) \<and>
    db_findings d3 = db_findings d"
proof -
  have wf: "jobs_wf d" using assms(1) by (simp add: store_wf_def)
  note s1 = reap_incompatible.never_fails[OF wf, of now "PHASE_FINDING_TARGET_SQL d"
      "''legacy verification cannot target phase findings''", folded P1_def f1_def]
  have wf1: "jobs_wf (d\<lparr>db_jobs := sql_update P1 f1 (db_jobs d)\<rparr>)"
    using reap_incompatible.wf[OF wf s1[unfolded P1_def f1_def]] by (simp add: P1_def f1_def)
  note s2 = reap_requeue.never_fails[OF wf1, of now, folded P2_def]
  have wf2: "jobs_wf (d\<lparr>db_jobs := sql_update P2 (reap_requeue_row Queued) (sql_update P1 f1 (db_jobs d))\<rparr>)"
    using reap_requeue.wf[OF wf1 s2[unfolded P2_def]] by (simp add: P2_def)
  note s3 = reap_fail.never_fails[OF wf2, of now LEASE_EXPIRED_AFTER_MAX_ATTEMPTS_ERROR, folded P3_def f3_def]
  show ?thesis
    unfolding reap_legacy_def
    by (simp add: job_apply_def P1_def[symmetric] f1_def[symmetric] P2_def[symmetric] P3_def[symmetric]
        f3_def[symmetric] s1 s2[simplified] s3[simplified] Let_def) (rule exI, rule conjI, rule refl, simp)
qed

lemma reap_split:
  fixes now :: int and d :: db
  assumes "store_wf d"
  defines "P1 \<equiv> \<lambda>r. expired_legacy now r \<and> jr_kind r = Verify \<and> PHASE_FINDING_TARGET_SQL d r"
    and "P2 \<equiv> \<lambda>r. expired_legacy now r \<and> jr_attempts r < MAX_ATTEMPTS \<and> legacy_kinds_sql r"
    and "P3 \<equiv> \<lambda>r. expired_legacy now r \<and> jr_attempts r \<ge> MAX_ATTEMPTS \<and> legacy_kinds_sql r"
    and "f1 \<equiv> reap_fail_row Failed ''legacy verification cannot target phase findings'' now"
    and "f3 \<equiv> reap_fail_row Failed LEASE_EXPIRED_AFTER_MAX_ATTEMPTS_ERROR now"
  shows "sql_update P3 f3 (sql_update P2 (reap_requeue_row Queued) (sql_update P1 f1 (db_jobs d))) =
      map (reap_row now d) (db_jobs d) \<and>
    sql_count P1 (db_jobs d) + sql_count P2 (sql_update P1 f1 (db_jobs d)) +
      sql_count P3 (sql_update P2 (reap_requeue_row Queued) (sql_update P1 f1 (db_jobs d))) =
      length (filter (reapable now) (db_jobs d))"
proof -
  have leg: "legacy_kinds_sql r \<longleftrightarrow> jr_kind r = Scan \<or> jr_kind r = Verify" if "r \<in> set (db_jobs d)" for r
    using that assms(1) legacy_kinds_sql_iff by (auto simp: store_wf_def jobs_wf_def)
  have row: "reap_row now d r = (if P1 r then f1 r else if P2 r then reap_requeue_row Queued r
      else if P3 r then f3 r else r)" if "r \<in> set (db_jobs d)" for r
    using leg[OF that] by (auto simp: reap_row_def reapable_def P1_def P2_def P3_def f1_def f3_def)
  have "map (reap_row now d) (db_jobs d) = map (\<lambda>r. if P1 r then f1 r else if P2 r then reap_requeue_row Queued r
      else if P3 r then f3 r else r) (db_jobs d)"
    using row by simp
  moreover have "sql_update P3 f3 (sql_update P2 (reap_requeue_row Queued) (sql_update P1 f1 (db_jobs d))) =
      map (\<lambda>r. if P1 r then f1 r else if P2 r then reap_requeue_row Queued r else if P3 r then f3 r else r)
        (db_jobs d) \<and>
    sql_count P1 (db_jobs d) + sql_count P2 (sql_update P1 f1 (db_jobs d)) +
      sql_count P3 (sql_update P2 (reap_requeue_row Queued) (sql_update P1 f1 (db_jobs d))) =
      length (filter (reapable now) (db_jobs d))"
    by (rule three_updates)
      (auto simp: leg reapable_def P1_def P2_def P3_def f1_def reap_fail_row_def reap_requeue_row_def
        expired_legacy_def)
  ultimately show ?thesis by simp
qed

lemma reap_row_released:
  assumes "reapable now r"
  shows "jr_capability_hash (reap_row now d r) = None \<and> \<not> reapable now (reap_row now d r)"
  using assms by (auto simp: reap_row_def reap_fail_row_def reap_requeue_row_def reapable_def expired_legacy_def)

text \<open>
  C11: Reaping legacy leases never fails on a well-formed store. It acts on exactly the
  expired leases of scan and verify jobs outside every campaign and returns their number: a
  verify job that targets a phase finding fails, any other job is requeued below three
  attempts and fails otherwise. Every other job is untouched; exactly the pending findings
  of the scans that failed are removed; no expired lease is left; and the capabilities of the
  reaped leases name no job any more.
\<close>

theorem reap_legacy_correct:
  assumes "store_wf d"
  shows "\<exists>d'. reap_legacy now d = Ok (length (filter (reapable now) (db_jobs d)), d') \<and>
    db_jobs d' = map (reap_row now d) (db_jobs d) \<and>
    db_findings d' = filter (\<lambda>f. \<not> (fr_state f = Pending \<and> (\<exists>r \<in> set (db_jobs d). reapable now r \<and>
      jr_kind r = Scan \<and> 3 \<le> jr_attempts r \<and> fr_job_id f = jr_id r \<and> fr_repo_id f = jr_repo_id r)))
      (db_findings d) \<and>
    (\<forall>r \<in> set (db_jobs d'). \<not> reapable now r) \<and>
    (\<forall>r \<in> set (db_jobs d). \<forall>h. reapable now r \<and> jr_capability_hash r = Some h \<longrightarrow> capability_dead d' h)"
proof -
  define P1 where "P1 = (\<lambda>r. expired_legacy now r \<and> jr_kind r = Verify \<and> PHASE_FINDING_TARGET_SQL d r)"
  define f1 where "f1 = reap_fail_row Failed ''legacy verification cannot target phase findings'' now"
  define js where "js = map (\<lambda>r. (jr_id r, jr_repo_id r)) (filter (\<lambda>r. jr_kind r = Scan \<and>
      expired_legacy now r \<and> jr_attempts r \<ge> MAX_ATTEMPTS) (sql_update P1 f1 (db_jobs d)))"
  obtain d3 where run: "reap_legacy now d = Ok (length (filter (reapable now) (db_jobs d)),
        fold (\<lambda>(job, repo). delete_pending_for_job repo job) js d3)"
    and d3: "db_jobs d3 = map (reap_row now d) (db_jobs d)" "db_findings d3 = db_findings d"
    using reap_legacy_run[OF assms, of now] reap_split[OF assms, of now]
    unfolding js_def P1_def f1_def by auto
  define d' where "d' = fold (\<lambda>(job, repo). delete_pending_for_job repo job) js d3"
  have js: "(i, repo) \<in> set js \<longleftrightarrow> (\<exists>r \<in> set (db_jobs d). reapable now r \<and> jr_kind r = Scan \<and>
      3 \<le> jr_attempts r \<and> i = jr_id r \<and> repo = jr_repo_id r)" for i repo
    by (auto simp: js_def sql_update_def P1_def f1_def reap_fail_row_def reapable_def MAX_ATTEMPTS_def
        expired_legacy_def image_iff)
  note del = fold_delete_pending[of js d3, folded d'_def]
  have left: "\<not> reapable now r" if "r \<in> set (db_jobs d')" for r
  proof -
    obtain s where "r = reap_row now d s" using \<open>r \<in> _\<close> del d3 by auto
    then show ?thesis using reap_row_released[of now s d] by (cases "reapable now s") (auto simp: reap_row_def)
  qed
  have dead: "capability_dead d' h" if r: "r \<in> set (db_jobs d)" "reapable now r" "jr_capability_hash r = Some h" for r h
    unfolding capability_dead_def
  proof
    fix s' assume "s' \<in> set (db_jobs d')"
    then obtain s where s: "s \<in> set (db_jobs d)" "s' = reap_row now d s" using del d3 by auto
    show "jr_capability_hash s' \<noteq> Some h"
    proof (cases "reapable now s")
      case True
      then show ?thesis using s reap_row_released by simp
    next
      case False
      then have "s \<noteq> r" using r by auto
      then show ?thesis using False s r assms unique_index_same[of jr_capability_hash "db_jobs d" s r]
        by (auto simp: reap_row_def store_wf_def jobs_wf_def jobs_unique_def)
    qed
  qed
  show ?thesis
    using run del d3 left dead by (intro exI[of _ d']) (auto simp: d'_def[symmetric] js)
qed

theorem reap_legacy_correct_witness:
  "\<exists>d'. reap_legacy 70 queue_db = Ok (2, d') \<and>
     map jr_state (db_jobs d') = [Succeeded, Queued, Queued, Queued, Failed] \<and>
     map fr_id (db_findings d') = [1, 2] \<and> capability_dead d' [4] \<and> capability_dead d' [5]"
proof -
  have n: "length (filter (reapable 70) (db_jobs queue_db)) = 2"
    by (simp add: queue_defs reapable_def expired_legacy_def)
  have rows: "map jr_state (map (reap_row 70 queue_db) (db_jobs queue_db)) =
      [Succeeded, Queued, Queued, Queued, Failed]"
    by (simp add: queue_defs reap_row_def reapable_def expired_legacy_def reap_fail_row_def
        reap_requeue_row_def MAX_ATTEMPTS_def)
  have mem: "leased_scan 4 1 50 \<in> set (db_jobs queue_db)" "leased_scan 5 3 60 \<in> set (db_jobs queue_db)"
    by (simp_all add: queue_db_def)
  have cap: "reapable 70 (leased_scan 4 1 50) \<and> jr_capability_hash (leased_scan 4 1 50) = Some [4]"
    "reapable 70 (leased_scan 5 3 60) \<and> jr_capability_hash (leased_scan 5 3 60) = Some [5]"
    by (simp_all add: queue_defs reapable_def expired_legacy_def)
  obtain d' where d': "reap_legacy 70 queue_db = Ok (2, d')"
    "db_jobs d' = map (reap_row 70 queue_db) (db_jobs queue_db)"
    "db_findings d' = filter (\<lambda>f. \<not> (fr_state f = Pending \<and> (\<exists>r \<in> set (db_jobs queue_db). reapable 70 r \<and>
      jr_kind r = Scan \<and> 3 \<le> jr_attempts r \<and> fr_job_id f = jr_id r \<and> fr_repo_id f = jr_repo_id r)))
      (db_findings queue_db)"
    "\<forall>r \<in> set (db_jobs queue_db). \<forall>h. reapable 70 r \<and> jr_capability_hash r = Some h \<longrightarrow> capability_dead d' h"
    using reap_legacy_correct[OF queue_db_wf, of 70, unfolded n] by (elim exE conjE) (rule that)
  have "map fr_id (db_findings d') = [1, 2]"
    unfolding d'(3) by (simp add: queue_defs reapable_def expired_legacy_def)
  moreover have "capability_dead d' [4]" "capability_dead d' [5]"
    using d'(4) mem cap by (metis+)
  ultimately show ?thesis using d'(1,2) rows by (intro exI[of _ d'] conjI) simp_all
qed

end
