(* ===== verification/Retry.thy ===== *)
theory Retry
  imports Queue_Control
begin

text \<open>
  Retry of failed work and operator recovery of verification on well-formed stores: what a
  retried job and its finding become, that a refused retry changes nothing, and that the
  dry run of a recovery predicts it.
\<close>

section \<open>Requeueing\<close>

lemma unique_index_set_row:
  fixes key :: "'r \<Rightarrow> int"
  assumes "unique_index k t" and "distinct (map key t)" and "row \<in> set t"
    and "k (f row) = k row \<or> (\<forall>s \<in> set t. \<forall>x. k (f row) = Some x \<longrightarrow> k s \<noteq> Some x)"
  shows "unique_index k (sql_update (\<lambda>r. key r = key row) f t)"
proof (rule unique_index_set_one[OF assms(1,2)])
  fix r assume "r \<in> set t" "key r = key row"
  then have "r = row" using row_by_unique[OF assms(2)] assms(3) by blast
  then show "k (f r) = k r \<or> (\<forall>s \<in> set t. \<forall>x. k (f r) = Some x \<longrightarrow> k s \<noteq> Some x)"
    using assms(4) by simp
qed

lemma requeue_run:
  assumes "store_wf d" and "row \<in> set (db_jobs d)" and "jr_state row = Failed"
    and "jr_kind row = Scan \<or> jr_kind row = Verify"
    and "\<And>s t. jr_kind row = Verify \<Longrightarrow> jr_target_finding_id row = Some t \<Longrightarrow> s \<in> set (db_jobs d) \<Longrightarrow>
           jr_kind s = Verify \<Longrightarrow> jr_target_finding_id s = Some t \<Longrightarrow> \<not> is_active (jr_state s)"
  shows "requeue_failed (jr_repo_id row) (jr_id row) now d =
    Ok (Some (requeue_row Queued now row),
        d\<lparr>db_jobs := map (\<lambda>s. if s = row then requeue_row Queued now row else s) (db_jobs d)\<rparr>)"
proof -
  let ?P = "\<lambda>r. jr_id r = jr_id row \<and> jr_state r = Failed \<and> jr_repo_id r = jr_repo_id row \<and> legacy_kinds_sql r"
  have wf: "jobs_wf d" using assms(1) by (simp add: store_wf_def)
  have leg: "legacy_kinds_sql row" using legacy_kinds_sql_iff[of row] wf assms(2,4) by (auto simp: jobs_wf_def)
  have P: "?P s \<longleftrightarrow> s = row" if "s \<in> set (db_jobs d)" for s
    using jobs_row_unique[OF assms(1) that assms(2)] leg assms(3) by blast
  have upd: "sql_update ?P (requeue_row Queued now) (db_jobs d) =
      map (\<lambda>s. if s = row then requeue_row Queued now row else s) (db_jobs d)"
    by (rule sql_update_one[OF assms(2) P])
  have by_id: "sql_update ?P (requeue_row Queued now) (db_jobs d) =
      sql_update (\<lambda>r. jr_id r = jr_id row) (requeue_row Queued now) (db_jobs d)"
    unfolding upd using jobs_row_unique[OF assms(1) _ assms(2)] by (auto simp: sql_update_def)
  have only: "r = row" if "r \<in> set (db_jobs d)" "jr_id r = jr_id row" for r
    using jobs_row_unique[OF assms(1) that(1) assms(2) that(2)] .
  have uniq: "jobs_unique (sql_update ?P (requeue_row Queued now) (db_jobs d))"
    unfolding by_id jobs_unique_def
  proof (intro conjI unique_index_set_row)
    show "unique_index jr_capability_hash (db_jobs d)" "unique_index active_drilldown_key (db_jobs d)"
      "unique_index active_verify_key (db_jobs d)"
      using wf by (auto simp: jobs_wf_def jobs_unique_def)
    have sib: "active_verify_key s \<noteq> Some t" if "jr_kind row = Verify" "jr_target_finding_id row = Some t"
      "s \<in> set (db_jobs d)" for s t
      using assms(5)[OF that] by (auto simp: active_verify_key_def)
    have "active_verify_key (requeue_row Queued now row) =
        (if jr_kind row = Verify then jr_target_finding_id row else None)"
      by (simp add: active_verify_key_def requeue_row_def is_active_def)
    with sib show "active_verify_key (requeue_row Queued now row) = active_verify_key row \<or>
        (\<forall>s \<in> set (db_jobs d). \<forall>x. active_verify_key (requeue_row Queued now row) = Some x \<longrightarrow>
           active_verify_key s \<noteq> Some x)" by auto
  qed (use assms(2,4) wf in \<open>auto simp: requeue_row_def active_drilldown_key_def jobs_wf_def\<close>)
  have "\<exists>s \<in> set (db_jobs d). ?P s" using P[OF assms(2)] assms(2) by blast
  then have cnt: "sql_count ?P (db_jobs d) \<noteq> 0" unfolding sql_count_zero_iff by blast
  define js where "js = map (\<lambda>s. if s = row then requeue_row Queued now row else s) (db_jobs d)"
  have "jobs_get_scoped_raw (d\<lparr>db_jobs := js\<rparr>) (jr_repo_id row) (jr_id row) = Some (requeue_row Queued now row)"
    unfolding jobs_get_scoped_raw_def
  proof (rule find_unique)
    show "requeue_row Queued now row \<in> set (db_jobs (d\<lparr>db_jobs := js\<rparr>))"
      using assms(2) by (force simp: js_def)
    fix s assume "s \<in> set (db_jobs (d\<lparr>db_jobs := js\<rparr>))" and id: "jr_id s = jr_id row \<and> jr_repo_id s = jr_repo_id row"
    then obtain r where r: "r \<in> set (db_jobs d)" "s = (if r = row then requeue_row Queued now row else r)"
      by (auto simp: js_def)
    then have "jr_id r = jr_id row" using id by (auto simp: requeue_row_def split: if_splits)
    then show "s = requeue_row Queued now row" using only r by simp
  qed (simp add: requeue_row_def)
  then show ?thesis using uniq cnt unfolding upd
    by (simp add: requeue_failed_def job_apply_def exec_update_jobs_def upd js_def)
qed

definition revive_finding :: "int \<Rightarrow> finding_row \<Rightarrow> finding_row" where
  "revive_finding deadline f =
    f\<lparr>fr_state := Validating, fr_dismissed_at := None, fr_validating_deadline := Some deadline\<rparr>"

lemma finding_row_unique:
  assumes "store_wf d" "f \<in> set (db_findings d)" "g \<in> set (db_findings d)" "fr_id f = fr_id g"
  shows "f = g"
  using assms row_by_unique[of fr_id "db_findings d" f g] by (auto simp: store_wf_def findings_wf_def)

lemma retry_verification_run:
  assumes "store_wf d" and "f \<in> set (db_findings d)"
    and "fr_state f = Validating \<or> fr_state f = Dismissed \<or> fr_state f = Pending"
  shows "retry_verification (fr_repo_id f) (fr_id f) deadline d =
    Ok (True, d\<lparr>db_findings := map (\<lambda>g. if g = f then revive_finding deadline f else g) (db_findings d)\<rparr>)"
proof -
  have only: "g = f" if "g \<in> set (db_findings d)" "fr_id g = fr_id f" for g
    using finding_row_unique[OF assms(1) that(1) assms(2) that(2)] .
  have sel: "findings_get_selected d (fr_repo_id f) (fr_id f) = Some f"
    unfolding findings_get_selected_def by (rule find_unique[OF assms(2)]) (use only in auto)
  have ap: "finding_apply (fr_state f) FRetryVerification = Ok Validating"
    using assms(3) by (auto simp: finding_apply_entry)
  let ?P = "\<lambda>r. fr_id r = fr_id f \<and> fr_state r = fr_state f \<and> fr_repo_id r = fr_repo_id f"
  have P: "?P g \<longleftrightarrow> g = f" if "g \<in> set (db_findings d)" for g using only that by blast
  have "\<exists>g \<in> set (db_findings d). ?P g" using assms(2) by blast
  then have "sql_count ?P (db_findings d) \<noteq> 0" unfolding sql_count_zero_iff by blast
  moreover have "sql_update ?P (\<lambda>r. r\<lparr>fr_state := Validating, fr_dismissed_at := None,
      fr_validating_deadline := Some deadline\<rparr>) (db_findings d) =
      map (\<lambda>g. if g = f then revive_finding deadline f else g) (db_findings d)"
    unfolding revive_finding_def by (rule sql_update_one[OF assms(2) P])
  ultimately show ?thesis by (simp add: retry_verification_def sel ap Let_def)
qed

section \<open>Retry\<close>

definition retry_admitted :: "db \<Rightarrow> job_row \<Rightarrow> bool" where
  "retry_admitted d row \<longleftrightarrow>
     jr_state row = Failed \<and> jr_campaign_id row = None \<and> \<not> PHASE_FINDING_TARGET_SQL d row \<and>
     (jr_kind row = Scan \<or>
      jr_kind row = Verify \<and>
        (\<exists>f \<in> set (db_findings d). jr_target_finding_id row = Some (fr_id f) \<and> fr_repo_id f = jr_repo_id row \<and>
           (fr_state f = Validating \<or> fr_state f = Dismissed \<and> is_deadline_dismissed_without_terminal_verdict d (fr_id f)) \<and>
           (\<forall>s \<in> set (db_jobs d). s \<noteq> row \<and> jr_kind s = Verify \<and> jr_target_finding_id s = Some (fr_id f) \<longrightarrow>
              \<not> is_active (jr_state s))))"

definition retry_effect :: "int \<Rightarrow> int \<Rightarrow> job_row \<Rightarrow> db \<Rightarrow> db" where
  "retry_effect now deadline row d =
    d\<lparr>db_jobs := map (\<lambda>s. if s = row then requeue_row Queued now row else s) (db_jobs d),
      db_findings := map (\<lambda>f. if jr_kind row = Verify \<and> jr_target_finding_id row = Some (fr_id f)
        then revive_finding deadline f else f) (db_findings d)\<rparr>"

lemma findings_get_raw_iff:
  assumes "store_wf d"
  shows "findings_get_raw d i = Some f \<longleftrightarrow> f \<in> set (db_findings d) \<and> fr_id f = i"
  using assms row_by_mem[of fr_id "db_findings d" f] row_by_Some[of fr_id i "db_findings d" f]
  by (auto simp: findings_get_raw_def store_wf_def findings_wf_def)

lemma sibling_None_iff:
  assumes "store_wf d" and "row \<in> set (db_jobs d)"
  shows "active_verify_sibling d t (jr_id row) = None \<longleftrightarrow>
    (\<forall>s \<in> set (db_jobs d). s \<noteq> row \<and> jr_kind s = Verify \<and> jr_target_finding_id s = Some t \<longrightarrow>
       \<not> is_active (jr_state s))"
proof -
  let ?xs = "filter (\<lambda>r. jr_kind r = Verify \<and> null_eq (jr_target_finding_id r) t \<and>
      is_active (jr_state r) \<and> jr_id r \<noteq> jr_id row) (db_jobs d)"
  have "active_verify_sibling d t (jr_id row) = None \<longleftrightarrow> ?xs = []"
  proof (cases "sort_key jr_id ?xs")
    case Nil
    then have "?xs = []" unfolding sort_key_Nil_iff .
    with Nil show ?thesis by (simp add: active_verify_sibling_def)
  next
    case (Cons r rs)
    then have "?xs \<noteq> []" by (metis sort_key_Nil_iff list.distinct(1))
    with Cons show ?thesis by (simp add: active_verify_sibling_def)
  qed
  moreover have "(jr_id s \<noteq> jr_id row) = (s \<noteq> row)" if "s \<in> set (db_jobs d)" for s
    using jobs_row_unique[OF assms(1) that assms(2)] by blast
  ultimately show ?thesis by (fastforce simp: filter_empty_conv)
qed

lemma retry_verify_target_iff:
  assumes "store_wf d" and "row \<in> set (db_jobs d)"
  shows "retry_verify_target d row = Ok i \<longleftrightarrow>
    (\<exists>f \<in> set (db_findings d). fr_id f = i \<and> jr_target_finding_id row = Some i \<and> fr_repo_id f = jr_repo_id row \<and>
      (fr_state f = Validating \<or> fr_state f = Dismissed \<and> is_deadline_dismissed_without_terminal_verdict d i) \<and>
      (\<forall>s \<in> set (db_jobs d). s \<noteq> row \<and> jr_kind s = Verify \<and> jr_target_finding_id s = Some i \<longrightarrow>
         \<not> is_active (jr_state s)))"
proof (cases "jr_target_finding_id row")
  case None
  then show ?thesis by (simp add: retry_verify_target_def)
next
  case (Some t)
  show ?thesis
  proof (cases "findings_get_raw d t")
    case None
    then have "f \<in> set (db_findings d) \<Longrightarrow> fr_id f \<noteq> t" for f
      using findings_get_raw_iff[OF assms(1), of t f] by auto
    with None Some show ?thesis by (auto simp: retry_verify_target_def)
  next
    case f: (Some f)
    then have "f \<in> set (db_findings d)" "fr_id f = t" using findings_get_raw_iff[OF assms(1)] by auto
    moreover have "g = f" if "g \<in> set (db_findings d)" "fr_id g = t" for g
      using finding_row_unique[OF assms(1) that(1)] calculation that by blast
    ultimately have ex: "(\<exists>g \<in> set (db_findings d). fr_id g = t \<and> Q g) \<longleftrightarrow> Q f" for Q by blast
    show ?thesis
      unfolding retry_verify_target_def Let_def Some option.case f
      using ex[of "\<lambda>g. fr_repo_id g = jr_repo_id row \<and>
        (fr_state g = Validating \<or> fr_state g = Dismissed \<and> is_deadline_dismissed_without_terminal_verdict d t) \<and>
        (\<forall>s \<in> set (db_jobs d). s \<noteq> row \<and> jr_kind s = Verify \<and> jr_target_finding_id s = Some t \<longrightarrow>
         \<not> is_active (jr_state s))"] sibling_None_iff[OF assms, of t]
      by (cases "active_verify_sibling d t (jr_id row)"; cases "i = t") (auto split: if_splits)
  qed
qed

lemma retry_scan_run:
  assumes "store_wf d" "row \<in> set (db_jobs d)" "retry_admitted d row" "jr_kind row = Scan"
  shows "requeue_failed (jr_repo_id row) (jr_id row) now d =
    Ok (Some (requeue_row Queued now row), retry_effect now deadline row d)"
  using requeue_run[OF assms(1,2), of now] assms(3,4)
  by (simp add: retry_admitted_def retry_effect_def)

lemma retry_verify_run:
  assumes "store_wf d" "row \<in> set (db_jobs d)" "retry_admitted d row" "jr_kind row = Verify"
  obtains i d1 where "retry_verify_target d row = Ok i"
    "retry_verification (jr_repo_id row) i deadline d = Ok (True, d1)"
    "requeue_failed (jr_repo_id row) (jr_id row) now d1 =
       Ok (Some (requeue_row Queued now row), retry_effect now deadline row d)"
proof -
  obtain f where f: "f \<in> set (db_findings d)" "jr_target_finding_id row = Some (fr_id f)"
    "fr_repo_id f = jr_repo_id row" "fr_state f = Validating \<or> fr_state f = Dismissed"
    "retry_verify_target d row = Ok (fr_id f)"
    and sib: "\<forall>s \<in> set (db_jobs d). s \<noteq> row \<and> jr_kind s = Verify \<and>
      jr_target_finding_id s = Some (fr_id f) \<longrightarrow> \<not> is_active (jr_state s)"
    and failed: "jr_state row = Failed"
    using assms(3,4) retry_verify_target_iff[OF assms(1,2)] by (auto simp: retry_admitted_def)
  define d1 where "d1 = d\<lparr>db_findings := map (\<lambda>g. if g = f then revive_finding deadline f else g) (db_findings d)\<rparr>"
  have run: "retry_verification (jr_repo_id row) (fr_id f) deadline d = Ok (True, d1)"
    using retry_verification_run[OF assms(1) f(1), of deadline] f(3,4) by (auto simp: d1_def)
  have wf1: "store_wf d1" by (rule preserves_wf[OF retry_verification_preserves[OF run] assms(1)])
  have jobs: "db_jobs d1 = db_jobs d" by (simp add: d1_def)
  have req: "requeue_failed (jr_repo_id row) (jr_id row) now d1 = Ok (Some (requeue_row Queued now row),
      d1\<lparr>db_jobs := map (\<lambda>s. if s = row then requeue_row Queued now row else s) (db_jobs d1)\<rparr>)"
    by (rule requeue_run[OF wf1])
      (use assms(2,4) jobs failed f(2) sib in \<open>auto simp: is_active_def\<close>)
  have "map (\<lambda>g. if g = f then revive_finding deadline f else g) (db_findings d) =
      map (\<lambda>g. if jr_kind row = Verify \<and> jr_target_finding_id row = Some (fr_id g)
        then revive_finding deadline g else g) (db_findings d)"
  proof (intro map_cong refl)
    fix g assume "g \<in> set (db_findings d)"
    then have "(g = f) = (fr_id f = fr_id g)" using finding_row_unique[OF assms(1) _ f(1)] by auto
    then show "(if g = f then revive_finding deadline f else g) = (if jr_kind row = Verify \<and>
        jr_target_finding_id row = Some (fr_id g) then revive_finding deadline g else g)"
      using f(2) assms(4) by (cases "g = f") simp_all
  qed
  then have "d1\<lparr>db_jobs := map (\<lambda>s. if s = row then requeue_row Queued now row else s) (db_jobs d1)\<rparr> =
      retry_effect now deadline row d"
    by (simp add: retry_effect_def d1_def)
  with that f(5) run req show ?thesis by simp
qed

text \<open>
  A finding that only the deadline reaper dismissed, a failed verify job that targets it,
  and a failed verify job whose target a verifier dismissed.
\<close>

definition failed_verify :: "int \<Rightarrow> int \<Rightarrow> job_row" where
  "failed_verify i target = (sample_job i Verify Failed)\<lparr>jr_target_finding_id := Some target, jr_attempts := 3\<rparr>"

definition retry_db :: db where
  "retry_db = sample_db\<lparr>db_jobs := [sample_job 1 Scan Succeeded, failed_verify 2 1, failed_verify 3 2],
    db_findings := [sample_row 1 ''a'' Dismissed (Some 5), sample_row 2 ''b'' Dismissed (Some 5)],
    db_verifications := [
      \<lparr>vr_id = 1, vr_finding_id = 1, vr_job_id = None, vr_verdict = ''inconclusive'',
       vr_notes = Some VALIDATING_DEADLINE_EXPIRED_NOTE, vr_created_at = 6\<rparr>,
      \<lparr>vr_id = 2, vr_finding_id = 2, vr_job_id = Some 3, vr_verdict = ''dismissed'',
       vr_notes = None, vr_created_at = 6\<rparr>]\<rparr>"

lemmas retry_defs = retry_db_def failed_verify_def sample_defs

lemma retry_db_wf: "store_wf retry_db"
  by (simp add: store_wf_def jobs_wf_def findings_wf_def jobs_unique_def unique_index_Cons lease_ok_def
      kind_ok_def job_kind_from_text_def finding_key_def key_defs retry_defs)

lemma retry_db_admits:
  "retry_admitted retry_db (failed_verify 2 1)" "\<not> retry_admitted retry_db (failed_verify 3 2)"
  by (simp_all add: retry_admitted_def PHASE_FINDING_TARGET_SQL_def sql_exists_def is_active_def
      is_deadline_dismissed_without_terminal_verdict_def retry_defs)



section \<open>Recovery\<close>

text \<open>The verify jobs of one finding, on which the recovery decision depends.\<close>

definition verify_jobs :: "db \<Rightarrow> int \<Rightarrow> job_row list" where
  "verify_jobs d i = filter (\<lambda>j. jr_kind j = Verify \<and> jr_target_finding_id j = Some i) (db_jobs d)"

lemma active_verify_exists_verify_jobs:
  "active_verify_exists d i repo \<longleftrightarrow> (\<exists>j \<in> set (verify_jobs d i). jr_repo_id j = repo \<and> is_active (jr_state j))"
  by (auto simp: active_verify_exists_def verify_jobs_def sql_exists_iff)

lemma latest_failed_verify_verify_jobs:
  "latest_failed_verify d i repo =
    (case sort_key (\<lambda>j. (- jr_enqueued_at j, - jr_id j))
        (filter (\<lambda>j. jr_repo_id j = repo \<and> jr_state j = Failed) (verify_jobs d i)) of
       [] \<Rightarrow> None | j # _ \<Rightarrow> Some (jr_id j))"
  by (simp add: latest_failed_verify_def verify_jobs_def conj_ac)

lemma latest_failed_verify_Some:
  assumes "latest_failed_verify d i repo = Some k"
  shows "\<exists>j \<in> set (db_jobs d). jr_id j = k \<and> jr_kind j = Verify \<and> jr_target_finding_id j = Some i \<and>
    jr_repo_id j = repo \<and> jr_state j = Failed"
proof -
  let ?xs = "filter (\<lambda>j. jr_repo_id j = repo \<and> jr_state j = Failed) (verify_jobs d i)"
  obtain j js where s: "sort_key (\<lambda>j. (- jr_enqueued_at j, - jr_id j)) ?xs = j # js" and "jr_id j = k"
    using assms unfolding latest_failed_verify_verify_jobs by (auto split: list.splits)
  have "j \<in> set ?xs" using arg_cong[OF s, of set] by (auto simp: set_eq_iff)
  then show ?thesis using \<open>jr_id j = k\<close> by (auto simp: verify_jobs_def)
qed

lemma verify_jobs_update:
  assumes "\<And>r. r \<in> set (db_jobs d) \<Longrightarrow> P r \<Longrightarrow> jr_target_finding_id r \<noteq> Some i"
    and "\<And>r. jr_target_finding_id (f r) = jr_target_finding_id r"
    and "exec_update_jobs P f d = Ok (n, d')"
  shows "verify_jobs d' i = verify_jobs d i"
proof -
  have "filter (\<lambda>j. jr_kind j = Verify \<and> jr_target_finding_id j = Some i) (sql_update P f t) =
      filter (\<lambda>j. jr_kind j = Verify \<and> jr_target_finding_id j = Some i) t"
    if "\<forall>r \<in> set t. P r \<longrightarrow> jr_target_finding_id r \<noteq> Some i" for t
    using that assms(2) by (induction t) (auto simp: sql_update_def)
  then show ?thesis using assms(1,3) by (auto simp: verify_jobs_def exec_update_jobs_Ok)
qed

text \<open>What the recovery does with one candidate, as the counters it bumps.\<close>

definition recovery_tally :: "db \<Rightarrow> finding_row \<Rightarrow> recovery_counts \<Rightarrow> recovery_counts" where
  "recovery_tally d f out =
    (if active_verify_exists d (fr_id f) (fr_repo_id f)
     then out\<lparr>rc_left_queued_or_leased := rc_left_queued_or_leased out + 1\<rparr>
     else if latest_failed_verify d (fr_id f) (fr_repo_id f) = None
     then out\<lparr>rc_revived := rc_revived out + 1, rc_created_jobs := rc_created_jobs out + 1\<rparr>
     else out\<lparr>rc_revived := rc_revived out + 1, rc_requeued_jobs := rc_requeued_jobs out + 1\<rparr>)"

lemma recovery_tally_cong:
  "verify_jobs d' (fr_id f) = verify_jobs d (fr_id f) \<Longrightarrow> recovery_tally d' f out = recovery_tally d f out"
  by (simp add: recovery_tally_def active_verify_exists_verify_jobs latest_failed_verify_verify_jobs)

lemma recovery_tally_fixed:
  "rc_matched (recovery_tally d f out) = rc_matched out"
  "recovery_tally d f (out\<lparr>rc_dry_run := b\<rparr>) = (recovery_tally d f out)\<lparr>rc_dry_run := b\<rparr>"
  by (simp_all add: recovery_tally_def)

lemma recover_candidate_dry:
  "rq_dry_run req \<Longrightarrow> recover_candidate req now budget f (out, d) = Ok (recovery_tally d f out, d)"
  by (auto simp: recover_candidate_def recovery_tally_def Let_def split: option.split)

lemma recovery_dry_fold:
  "rq_dry_run req \<Longrightarrow> try_fold (recover_candidate req now budget) fs (out, d) = Ok (fold (recovery_tally d) fs out, d)"
  by (induction fs arbitrary: out) (simp_all add: recover_candidate_dry)

lemma requeue_failed_verify_jobs:
  assumes "store_wf d" and "latest_failed_verify d g repo = Some k" and "requeue_failed repo k now d = Ok (res, d1)"
    and "i \<noteq> g"
  shows "verify_jobs d1 i = verify_jobs d i"
proof -
  obtain j where j: "j \<in> set (db_jobs d)" "jr_id j = k" "jr_target_finding_id j = Some g"
    using latest_failed_verify_Some[OF assms(2)] by blast
  obtain n where "exec_update_jobs (\<lambda>r. jr_id r = k \<and> jr_state r = Failed \<and> jr_repo_id r = repo \<and> legacy_kinds_sql r)
      (requeue_row Queued now) d = Ok (n, d1)"
    using assms(3) by (auto simp: requeue_failed_def and_then_Ok_iff job_apply_def split: if_splits)
  then show ?thesis
  proof (rule verify_jobs_update[rotated 2])
    fix r assume "r \<in> set (db_jobs d)" "jr_id r = k \<and> jr_state r = Failed \<and> jr_repo_id r = repo \<and> legacy_kinds_sql r"
    then have "r = j" using jobs_row_unique[OF assms(1) _ j(1)] j(2) by simp
    then show "jr_target_finding_id r \<noteq> Some i" using j(3) assms(4) by simp
  qed (simp add: requeue_row_def)
qed

lemma retry_verification_jobs: "retry_verification repo i deadline d = Ok (ok, d') \<Longrightarrow> db_jobs d' = db_jobs d"
  by (auto simp: retry_verification_def and_then_Ok_iff map_err_Ok_iff Let_def split: option.splits)

lemma recover_candidate_real:
  assumes "store_wf d" and "recover_candidate req now budget f (out, d) = Ok (out', d')" and "i \<noteq> fr_id f"
  shows "out' = recovery_tally d f out \<and> verify_jobs d' i = verify_jobs d i"
proof (cases "rq_dry_run req \<or> active_verify_exists d (fr_id f) (fr_repo_id f)")
  case True
  then show ?thesis using assms(2) recover_candidate_dry[of req now budget f out d]
    by (auto simp: recover_candidate_def recovery_tally_def)
next
  case False
  show ?thesis
  proof (cases "latest_failed_verify d (fr_id f) (fr_repo_id f)")
    case None
    with False assms(2) obtain k d1 ok where
      e: "enqueue_raw \<lparr>qj_kind = Verify, qj_incremental = False, qj_since_sha = None,
            qj_parent_job_id = Some (fr_job_id f), qj_target_finding_id = Some (fr_id f),
            nj_repo_id = fr_repo_id f\<rparr> now d = Ok (k, d1)"
      and r: "retry_verification (fr_repo_id f) (fr_id f) (wrap_i64 (now + budget)) d1 = Ok (ok, d')"
      and o: "out' = recovery_tally d f out"
      by (auto simp: recover_candidate_def recovery_tally_def Let_def and_then_Ok_iff map_ok_Ok_iff)
    have "verify_jobs d1 i = verify_jobs d i"
      using e assms(3)
      by (auto simp: enqueue_raw_def Let_def map_ok_Ok_iff verify_jobs_def dest!: exec_insert_job_Ok)
    then show ?thesis using o retry_verification_jobs[OF r] by (simp add: verify_jobs_def)
  next
    case (Some k)
    with False assms(2) obtain res d1 ok where
      e: "requeue_failed (fr_repo_id f) k now d = Ok (res, d1)"
      and r: "retry_verification (fr_repo_id f) (fr_id f) (wrap_i64 (now + budget)) d1 = Ok (ok, d')"
      and o: "out' = recovery_tally d f out"
      by (auto simp: recover_candidate_def recovery_tally_def Let_def and_then_Ok_iff map_ok_Ok_iff)
    show ?thesis using requeue_failed_verify_jobs[OF assms(1) Some e assms(3)] o retry_verification_jobs[OF r]
      by (simp add: verify_jobs_def)
  qed
qed

lemma recovery_real_fold:
  assumes "store_wf d" and "try_fold (recover_candidate req now budget) fs (out, d) = Ok (out', d')"
    and "distinct (map fr_id fs)"
  shows "out' = fold (recovery_tally d) fs out"
  using assms
proof (induction fs arbitrary: out d)
  case (Cons f fs)
  obtain out1 d1 where s: "recover_candidate req now budget f (out, d) = Ok (out1, d1)"
    "try_fold (recover_candidate req now budget) fs (out1, d1) = Ok (out', d')"
    using Cons.prems(2) by (auto simp: and_then_Ok_iff)
  have "store_wf d1" using preserves_wf[OF recover_candidate_preserves[OF s(1)] Cons.prems(1)] .
  then have "out' = fold (recovery_tally d1) fs out1" using Cons.IH[OF _ s(2)] Cons.prems(3) by simp
  also have "\<dots> = fold (recovery_tally d) fs out1"
  proof (rule fold_cong[OF refl refl])
    fix g assume "g \<in> set fs"
    then have "fr_id g \<in> set (map fr_id fs)" by simp
    moreover have "fr_id f \<notin> set (map fr_id fs)" using Cons.prems(3) by simp
    ultimately have "fr_id g \<noteq> fr_id f" by metis
    note recover_candidate_real[OF Cons.prems(1) s(1) this, THEN conjunct2]
    then show "recovery_tally d1 g = recovery_tally d g" by (intro ext recovery_tally_cong)
  qed
  also have "out1 = recovery_tally d f out"
    by (rule recover_candidate_real[OF Cons.prems(1) s(1), of "fr_id f + 1", THEN conjunct1]) simp
  finally show ?case by simp
qed simp

lemma sql_limit_take: "\<exists>n. sql_limit m t = take n t"
  by (cases "m < 0") (auto simp: sql_limit_def intro: exI[of _ "length t"])

lemma recovery_candidates_distinct:
  assumes "store_wf d"
  shows "distinct (map fr_id (recovery_candidates d req))"
proof -
  let ?k = "\<lambda>f. (case fr_validating_deadline f of Some t \<Rightarrow> t | None \<Rightarrow> fr_created_at f, fr_id f)"
  let ?xs = "filter (recovery_candidate d req) (db_findings d)"
  have "distinct (map fr_id ?xs)"
    using assms by (simp add: store_wf_def findings_wf_def distinct_map_filter)
  then have "distinct (map fr_id (sort_key ?k ?xs))" by (simp add: distinct_map)
  then have dt: "distinct (take n (map fr_id (sort_key ?k ?xs)))" for n by (rule distinct_take)
  obtain n where n: "recovery_candidates d req = take n (sort_key ?k ?xs)"
    using sql_limit_take[of _ "sort_key ?k ?xs"] by (auto simp only: recovery_candidates_def)
  show ?thesis unfolding n take_map[symmetric] by (rule dt)
qed

lemma recovery_tally_sum:
  "rc_revived (fold (recovery_tally d) fs out) + rc_left_queued_or_leased (fold (recovery_tally d) fs out) =
     rc_revived out + rc_left_queued_or_leased out + length fs \<and>
   (rc_revived out = rc_requeued_jobs out + rc_created_jobs out \<longrightarrow>
     rc_revived (fold (recovery_tally d) fs out) =
       rc_requeued_jobs (fold (recovery_tally d) fs out) + rc_created_jobs (fold (recovery_tally d) fs out))"
proof (induction fs arbitrary: out)
  case (Cons f fs)
  show ?case using Cons[of "recovery_tally d f out"] by (auto simp: recovery_tally_def split: if_splits)
qed simp

text \<open>
  C16: The dry run of a recovery always succeeds, leaves the store alone and accounts for
  every candidate: each is either left to its queued or leased verify job or revived, and each revival
  either requeues a failed job or creates one. A real run of the same request that
  succeeds reports exactly the numbers of the dry run.
\<close>

theorem recovery_dry_run_predicts:
  assumes "store_wf d"
  shows "\<exists>out. retry_verification_candidates (req\<lparr>rq_dry_run := True\<rparr>) now budget d = Ok (out, d) \<and>
    rc_matched out = length (recovery_candidates d req) \<and>
    rc_matched out = rc_revived out + rc_left_queued_or_leased out \<and>
    rc_revived out = rc_requeued_jobs out + rc_created_jobs out \<and>
    (\<forall>real d'. retry_verification_candidates (req\<lparr>rq_dry_run := False\<rparr>) now budget d = Ok (real, d') \<longrightarrow>
       real = out\<lparr>rc_dry_run := False\<rparr>)"
proof -
  let ?cs = "recovery_candidates d req"
  let ?o = "\<lambda>b. \<lparr>rc_dry_run = b, rc_matched = length ?cs, rc_revived = 0, rc_requeued_jobs = 0,
      rc_created_jobs = 0, rc_left_queued_or_leased = 0\<rparr>"
  have cs: "recovery_candidates d (req\<lparr>rq_dry_run := b\<rparr>) = ?cs" for b
  proof -
    have "recovery_candidate d (req\<lparr>rq_dry_run := b\<rparr>) = recovery_candidate d req"
      by (simp add: recovery_candidate_def fun_eq_iff)
    then show ?thesis by (simp add: recovery_candidates_def)
  qed
  have keep: "rc_matched (fold (recovery_tally d) fs out) = rc_matched out \<and>
      fold (recovery_tally d) fs (out\<lparr>rc_dry_run := b\<rparr>) = (fold (recovery_tally d) fs out)\<lparr>rc_dry_run := b\<rparr>"
    for fs out b
    by (induction fs arbitrary: out) (simp_all add: recovery_tally_fixed)
  define out where "out = fold (recovery_tally d) ?cs (?o True)"
  have dry: "retry_verification_candidates (req\<lparr>rq_dry_run := True\<rparr>) now budget d = Ok (out, d)"
    by (simp add: retry_verification_candidates_def Let_def cs recovery_dry_fold out_def)
  have real: "real = out\<lparr>rc_dry_run := False\<rparr>"
    if run: "retry_verification_candidates (req\<lparr>rq_dry_run := False\<rparr>) now budget d = Ok (real, d')" for real d'
  proof -
    have "try_fold (recover_candidate (req\<lparr>rq_dry_run := False\<rparr>) now budget) ?cs (?o False, d) = Ok (real, d')"
      using run by (auto simp: retry_verification_candidates_def Let_def cs map_ok_Ok_iff)
    then have "real = fold (recovery_tally d) ?cs (?o False)"
      by (rule recovery_real_fold[OF assms _ recovery_candidates_distinct[OF assms]])
    also have "\<dots> = out\<lparr>rc_dry_run := False\<rparr>"
      using keep[of ?cs "?o True" False] by (simp add: out_def)
    finally show ?thesis .
  qed
  have "rc_matched out = length ?cs" using keep[of ?cs "?o True", THEN conjunct1] by (simp add: out_def)
  moreover have "rc_revived out + rc_left_queued_or_leased out = length ?cs"
    "rc_revived out = rc_requeued_jobs out + rc_created_jobs out"
    using recovery_tally_sum[of d ?cs "?o True"] by (simp_all add: out_def)
  ultimately show ?thesis using dry real by (intro exI[of _ out] conjI allI impI) simp_all
qed

definition sample_recovery :: recovery_request where
  "sample_recovery = \<lparr>rq_repo_id = None, rq_limit = None, rq_include_inconclusive = False, rq_dry_run = False\<rparr>"

theorem recovery_dry_run_predicts_witness:
  "\<exists>out. retry_verification_candidates (sample_recovery\<lparr>rq_dry_run := True\<rparr>) 20 60 retry_db = Ok (out, retry_db) \<and>
     rc_matched out = 1 \<and> rc_revived out + rc_left_queued_or_leased out = 1"
proof -
  have "filter (recovery_candidate retry_db sample_recovery) (db_findings retry_db) =
      [sample_row 1 ''a'' Dismissed (Some 5)]"
    by (simp add: recovery_candidate_def sample_recovery_def sql_exists_def retry_defs)
  then have n: "length (recovery_candidates retry_db sample_recovery) = 1"
    by (simp add: recovery_candidates_def sql_limit_def sample_recovery_def)
  obtain out where "retry_verification_candidates (sample_recovery\<lparr>rq_dry_run := True\<rparr>) 20 60 retry_db = Ok (out, retry_db)"
    "rc_matched out = 1" "rc_matched out = rc_revived out + rc_left_queued_or_leased out"
    using recovery_dry_run_predicts[OF retry_db_wf, of sample_recovery 20 60, unfolded n]
    by (elim exE conjE) (rule that)
  then show ?thesis by (intro exI[of _ out] conjI) simp_all
qed

end
