(* ===== verification/Delivery.thy ===== *)
theory Delivery
  imports Retry
begin

text \<open>
  What ends a lease and what follows it: a scan's successful completion moves every pending
  finding and queues its verification, a verdict touches exactly its finding, and the
  report receipt marks exactly the delivered rows.
\<close>

section \<open>Receipts\<close>

definition mark_reported :: "int \<Rightarrow> finding_row \<Rightarrow> finding_row" where
  "mark_reported now f = f\<lparr>fr_state := Reported, fr_reported_at := Some now\<rparr>"

definition member_row :: "int \<Rightarrow> member \<Rightarrow> finding_row \<Rightarrow> bool" where
  "member_row repo m f \<longleftrightarrow> fr_id f = mb_id m \<and> fr_repo_id f = repo \<and> fr_report_identity f = mb_identity m"

lemma mark_member_Ok:
  "mark_member repo now m (n, d) = Ok (n', d') \<longleftrightarrow>
     (\<exists>f \<in> set (db_findings d). member_row repo m f) \<and>
     n' = n + length (filter (\<lambda>f. fr_state f = Confirmed \<and> member_row repo m f) (db_findings d)) \<and>
     d' = d\<lparr>db_findings := map (\<lambda>f. if fr_state f = Confirmed \<and> member_row repo m f
       then mark_reported now f else f) (db_findings d)\<rparr>"
proof -
  have P: "(\<lambda>f. fr_id f = mb_id m \<and> fr_repo_id f = repo \<and> fr_report_identity f = mb_identity m \<and>
      fr_state f = Confirmed) = (\<lambda>f. fr_state f = Confirmed \<and> member_row repo m f)"
    by (auto simp: member_row_def)
  show ?thesis
    unfolding mark_member_def Let_def prod.case P
    by (auto simp: member_row_def sql_exists_iff sql_count_def sql_update_def mark_reported_def)
qed

lemma mark_fold:
  assumes "try_fold (mark_member repo now) ms (n, d) = Ok (n', d')"
  defines "M \<equiv> \<lambda>f. fr_state f = Confirmed \<and> (\<exists>m \<in> set ms. member_row repo m f)"
  shows "n' = n + length (filter M (db_findings d)) \<and>
    d' = d\<lparr>db_findings := map (\<lambda>f. if M f then mark_reported now f else f) (db_findings d)\<rparr>"
  using assms(1) unfolding M_def
proof (induction ms arbitrary: n d)
  case (Cons m ms)
  define g where "g = (\<lambda>f. if fr_state f = Confirmed \<and> member_row repo m f then mark_reported now f else f)"
  obtain n1 d1 where s: "mark_member repo now m (n, d) = Ok (n1, d1)"
    "try_fold (mark_member repo now) ms (n1, d1) = Ok (n', d')"
    using Cons.prems by (auto simp: and_then_Ok_iff)
  note one = s(1)[unfolded mark_member_Ok, folded g_def]
  have later: "fr_state (g f) = Confirmed \<longleftrightarrow> fr_state f = Confirmed \<and> \<not> member_row repo m f"
    "\<not> (fr_state f = Confirmed \<and> member_row repo m f) \<Longrightarrow> g f = f" for f
    by (auto simp: g_def mark_reported_def)
  have cnt: "length (filter (\<lambda>f. fr_state f = Confirmed \<and> member_row repo m f) fs) +
      length (filter (\<lambda>f. fr_state f = Confirmed \<and> (\<exists>k \<in> set ms. member_row repo k f)) (map g fs)) =
      length (filter (\<lambda>f. fr_state f = Confirmed \<and> (\<exists>k \<in> set (m # ms). member_row repo k f)) fs)" for fs
    by (induction fs) (auto simp: later)
  have rows: "(if fr_state (g f) = Confirmed \<and> (\<exists>k \<in> set ms. member_row repo k (g f)) then mark_reported now (g f)
      else g f) = (if fr_state f = Confirmed \<and> (\<exists>k \<in> set (m # ms). member_row repo k f) then mark_reported now f else f)"
    for f
    by (cases "fr_state f = Confirmed \<and> member_row repo m f") (auto simp: later g_def mark_reported_def)
  from Cons.IH[OF s(2)] one cnt[of "db_findings d"] show ?case
    by (simp add: comp_def rows)
qed simp

lemma receipt_complete_None:
  "receipt_complete rc None now d = Ok (n, rc', d') \<longleftrightarrow>
     try_fold (mark_member (rr_repo_id rc) now) (filter (\<lambda>m. \<not> mb_completed m) (rr_members rc)) (0, d) = Ok (n, d') \<and>
     rc' = rc\<lparr>rr_members := map (\<lambda>m. m\<lparr>mb_completed := True\<rparr>) (rr_members rc)\<rparr>"
proof -
  have "map snd (filter (\<lambda>(i, m). \<not> mb_completed m \<and> selects None i) (enumerate k ms)) =
      filter (\<lambda>m. \<not> mb_completed m) ms"
    "map (\<lambda>(i, m). if selects None i then m\<lparr>mb_completed := True\<rparr> else m) (enumerate k ms) =
      map (\<lambda>m. m\<lparr>mb_completed := True\<rparr>) ms" for k and ms :: "member list"
    by (induction ms arbitrary: k) (simp_all add: selects_def)
  then show ?thesis by (auto simp: receipt_complete_def Let_def map_ok_Ok_iff)
qed

text \<open>
  C17: Marking a delivered report touches exactly the rows it selected. Of the findings, those
  and only those become reported that are still confirmed, belong to the receipt's
  repository and match a not yet completed member by id and row identity; their number is
  returned, nothing else in the store changes, and a repeated mark is a no-op that returns zero.
\<close>

theorem mark_all_exact:
  assumes "mark_all idn rc now d = Ok (n, rc', d')"
  defines "M \<equiv> \<lambda>f. fr_state f = Confirmed \<and>
      (\<exists>m \<in> set (rr_members rc). \<not> mb_completed m \<and> member_row (rr_repo_id rc) m f)"
  shows "d' = d\<lparr>db_findings := map (\<lambda>f. if M f then mark_reported now f else f) (db_findings d)\<rparr> \<and>
    n = length (filter M (db_findings d)) \<and>
    (\<forall>now'. mark_all idn rc' now' d' = Ok (0, rc', d'))"
proof -
  have act: "rr_committed rc" "rr_database rc = idn" and run: "receipt_complete rc None now d = Ok (n, rc', d')"
    using assms(1) by (auto simp: mark_all_def split: if_splits)
  have M: "M = (\<lambda>f. fr_state f = Confirmed \<and>
      (\<exists>m \<in> set (filter (\<lambda>m. \<not> mb_completed m) (rr_members rc)). member_row (rr_repo_id rc) m f))"
    by (auto simp: M_def)
  have rc': "rc' = rc\<lparr>rr_members := map (\<lambda>m. m\<lparr>mb_completed := True\<rparr>) (rr_members rc)\<rparr>"
    using run by (simp add: receipt_complete_None)
  have "receipt_complete rc' None now' d' = Ok (0, rc', d')" for now'
    unfolding receipt_complete_None by (simp add: rc' comp_def)
  then have "mark_all idn rc' now' d' = Ok (0, rc', d')" for now'
    using act by (simp add: mark_all_def rc')
  with mark_fold run[unfolded receipt_complete_None] show ?thesis unfolding M by fastforce
qed

definition sample_receipt :: report_receipt where
  "sample_receipt = \<lparr>rr_database = 0, rr_committed = True, rr_repo_id = 1,
     rr_members = [\<lparr>mb_id = 1, mb_identity = [1], mb_completed = False\<rparr>]\<rparr>"

definition confirmed_db :: db where
  "confirmed_db = sample_db\<lparr>db_findings := [sample_row 1 ''a'' Confirmed None, sample_row 2 ''b'' Confirmed None]\<rparr>"

theorem mark_all_exact_witness:
  "\<exists>rc' d'. mark_all 0 sample_receipt 30 confirmed_db = Ok (1, rc', d') \<and>
     map fr_state (db_findings d') = [Reported, Confirmed] \<and> mark_all 0 rc' 31 d' = Ok (0, rc', d')"
proof -
  have "is_ok (mark_all 0 sample_receipt 30 confirmed_db)"
    by (simp add: mark_all_def receipt_complete_def Let_def mark_member_def sample_receipt_def confirmed_db_def
        selects_def sql_exists_def sample_defs)
  then obtain n rc' d' where run: "mark_all 0 sample_receipt 30 confirmed_db = Ok (n, rc', d')"
    by (auto simp: is_ok_iff)
  note ex = mark_all_exact[OF run]
  have "n = 1" using ex by (simp add: sample_receipt_def confirmed_db_def member_row_def sample_defs)
  moreover have "map fr_state (db_findings d') = [Reported, Confirmed]"
    using ex by (simp add: sample_receipt_def confirmed_db_def member_row_def mark_reported_def sample_defs)
  moreover have "mark_all 0 rc' 31 d' = Ok (0, rc', d')" using ex by blast
  ultimately show ?thesis using run by (intro exI[of _ rc'] exI[of _ d'] conjI) simp_all
qed

section \<open>Completing a scan\<close>

text \<open>What a successful completion makes of one finding of the scan.\<close>

definition scan_outcome :: "int \<Rightarrow> int \<Rightarrow> bool \<Rightarrow> int \<Rightarrow> int \<Rightarrow> finding_row \<Rightarrow> finding_row" where
  "scan_outcome repo job approval deadline now f =
    (if fr_job_id f = job \<and> fr_repo_id f = repo \<and> fr_state f = Pending
     then if fr_verification_required f \<noteq> 0
       then f\<lparr>fr_state := Validating, fr_validating_deadline := Some deadline\<rparr>
       else if approval then f\<lparr>fr_state := AwaitingApproval\<rparr>
       else f\<lparr>fr_state := Confirmed, fr_confirmed_at := Some now\<rparr>
     else f)"

lemma transition_scan_outcome:
  "transition_scan_findings_after_success repo job approval deadline now d = Ok (n, d') \<Longrightarrow>
     d' = d\<lparr>db_findings := map (scan_outcome repo job approval deadline now) (db_findings d)\<rparr>"
  unfolding transition_scan_run Let_def
  by (cases approval) (auto simp: sql_update_def scan_outcome_def)

definition verify_for :: "int \<Rightarrow> int \<Rightarrow> int \<Rightarrow> finding_row \<Rightarrow> job_row \<Rightarrow> bool" where
  "verify_for repo scan now f v \<longleftrightarrow> jr_kind v = Verify \<and> jr_state v = Queued \<and> jr_repo_id v = repo \<and>
     jr_parent_job_id v = Some scan \<and> jr_target_finding_id v = Some (fr_id f) \<and> jr_enqueued_at v = now"

lemma enqueue_verify_fold:
  assumes "try_fold (enqueue_verify_job repo Queued scan now) fs d = Ok d'"
  shows "\<exists>news. d' = d\<lparr>db_jobs := db_jobs d @ news\<rparr> \<and> list_all2 (verify_for repo scan now) fs news"
  using assms
proof (induction fs arbitrary: d)
  case Nil
  then show ?case by (intro exI[of _ "[]"]) simp
next
  case (Cons f fs)
  obtain d1 where s: "enqueue_verify_job repo Queued scan now f d = Ok d1"
    "try_fold (enqueue_verify_job repo Queued scan now) fs d1 = Ok d'"
    using Cons.prems by (auto simp: and_then_Ok_iff)
  obtain v where v: "d1 = d\<lparr>db_jobs := db_jobs d @ [v]\<rparr>" "verify_for repo scan now f v"
    using exec_insert_job_Ok[OF s(1)[unfolded enqueue_verify_job_def]]
    by (auto simp: verify_for_def job_kind_from_text_def new_job_row_def)
  obtain news where "d' = d1\<lparr>db_jobs := db_jobs d1 @ news\<rparr>" "list_all2 (verify_for repo scan now) fs news"
    using Cons.IH[OF s(2)] by blast
  then show ?case using v by (intro exI[of _ "v # news"]) simp
qed

lemma complete_scan_Ok:
  assumes "complete_scan idn sc head approval_default deadline d = Ok (p, d')"
  obtains repo revision d1 n news where
    "row_by rp_id (rs_repo_id (as_repo sc)) (db_repos d) = Some repo" "head = Some revision" "\<not> is_blank revision"
    "exec_update_jobs (\<lambda>r. jr_id r = jr_id (as_job sc) \<and> jr_repo_id r = rs_repo_id (as_repo sc) \<and> jr_state r = Leased)
       (\<lambda>r. r\<lparr>jr_head_sha := Some revision\<rparr>) d = Ok (n, d1)"
    "db_findings d' = map (scan_outcome (rs_repo_id (as_repo sc)) (jr_id (as_job sc))
       (effective_require_approval repo approval_default) deadline (al_now (as_lease sc))) (db_findings d)"
    "db_jobs d' = db_jobs d1 @ news"
    "sql_exists (\<lambda>j. jr_id j = jr_id (as_job sc) \<and> jr_repo_id j = rs_repo_id (as_repo sc) \<and> jr_kind j = Scan) (db_jobs d1) \<Longrightarrow>
      list_all2 (verify_for (rs_repo_id (as_repo sc)) (jr_id (as_job sc)) (al_now (as_lease sc)))
       (filter (\<lambda>f. fr_job_id f = jr_id (as_job sc) \<and> fr_repo_id f = rs_repo_id (as_repo sc) \<and> fr_state f = Validating)
          (db_findings d')) news"
    "\<exists>dur. db_scan_history d' = db_scan_history d @ [\<lparr>sh_repo_id = rs_repo_id (as_repo sc), sh_job_id = jr_id (as_job sc),
       sh_head_sha = revision, sh_base_sha = jr_since_sha (as_job sc),
       sh_finding_count = length (filter (\<lambda>f. fr_job_id f = jr_id (as_job sc) \<and> fr_repo_id f = rs_repo_id (as_repo sc)) (db_findings d)),
       sh_duration_ms = dur, sh_finished_at = al_now (as_lease sc)\<rparr>]"
proof -
  let ?repo = "rs_repo_id (as_repo sc)" and ?job = "jr_id (as_job sc)" and ?now = "al_now (as_lease sc)"
  obtain dur revision repo n d1 m d4 k where
    dur: "scan_duration_ms (jr_started_at (as_job sc)) ?now = Ok dur"
    and rev: "head = Some revision" "\<not> is_blank revision"
    and repo: "row_by rp_id ?repo (db_repos d) = Some repo"
    and upd: "exec_update_jobs (\<lambda>r. jr_id r = ?job \<and> jr_repo_id r = ?repo \<and> jr_state r = Leased)
       (\<lambda>r. r\<lparr>jr_head_sha := Some revision\<rparr>) d = Ok (n, d1)"
    and tr: "transition_scan_findings_after_success ?repo ?job (effective_require_approval repo approval_default) deadline ?now
      (d1\<lparr>db_repos := sql_update (\<lambda>r. rp_id r = ?repo)
         (\<lambda>r. r\<lparr>rp_last_scanned_sha := Some revision, rp_last_scanned_at := Some ?now\<rparr>) (db_repos d1),
       db_scan_history := db_scan_history d1 @ [\<lparr>sh_repo_id = ?repo, sh_job_id = ?job, sh_head_sha = revision,
         sh_base_sha = jr_since_sha (as_job sc),
         sh_finding_count = sql_count (\<lambda>f. fr_job_id f = ?job \<and> fr_repo_id f = ?repo) (db_findings d1),
         sh_duration_ms = dur, sh_finished_at = ?now\<rparr>]\<rparr>) = Ok (m, d4)"
    and enq: "enqueue_verify_jobs_for_scan ?repo ?job ?now d4 = Ok (k, d')"
    using assms unfolding complete_scan_def Let_def
    by (auto simp: and_then_Ok_iff ok_or_Ok_iff map_ok_Ok_iff option_filter_def split: option.splits if_splits)
  have d1: "db_findings d1 = db_findings d" "db_scan_history d1 = db_scan_history d"
    using upd by (auto simp: exec_update_jobs_Ok)
  note d4 = transition_scan_outcome[OF tr]
  obtain news where news: "d' = d4\<lparr>db_jobs := db_jobs d4 @ news\<rparr>"
    "list_all2 (verify_for ?repo ?job ?now) (if sql_exists (\<lambda>j. jr_id j = ?job \<and> jr_repo_id j = ?repo \<and>
        jr_kind j = Scan) (db_jobs d4) then filter (\<lambda>f. fr_job_id f = ?job \<and> fr_repo_id f = ?repo \<and>
        fr_state f = Validating) (db_findings d4) else []) news"
    using enq enqueue_verify_fold
    by (fastforce simp: enqueue_verify_jobs_for_scan_def map_ok_Ok_iff Let_def)
  show ?thesis
    by (rule that[OF repo rev upd]) (use news d4 d1 in \<open>simp_all add: sql_count_def\<close>)
qed

lemma sql_update_append: "sql_update P f (t @ u) = sql_update P f t @ sql_update P f u"
  by (simp add: sql_update_def)

lemma active_lease_row:
  assumes "store_wf d" and "get_active_by_capability_hash d worker hash now = Some job"
  shows "job \<in> set (db_jobs d) \<and> live_lease (jr_id job) worker hash now job \<and> jr_state job = Leased"
  using assms by (auto simp: get_active_by_capability_hash_def find_Some_iff live_lease_def)

lemma scan_completion_jobs:
  assumes "store_wf d" and "job \<in> set (db_jobs d)" and "live_lease (jr_id job) worker hash now job"
    and "exec_update_jobs (\<lambda>r. jr_id r = jr_id job \<and> jr_repo_id r = jr_repo_id job \<and> jr_state r = Leased)
       (\<lambda>r. r\<lparr>jr_head_sha := Some revision\<rparr>) d = Ok (n, d1)"
    and "\<forall>v \<in> set news. jr_state v = Queued"
  shows "sql_update (live_lease (jr_id job) worker hash now) (complete_row Succeeded (Some revision) err now)
      (db_jobs d1 @ news) =
    map (\<lambda>r. if r = job then complete_row Succeeded (Some revision) err now job else r) (db_jobs d) @ news"
proof -
  let ?h = "\<lambda>r. r\<lparr>jr_head_sha := Some revision\<rparr>" and ?c = "complete_row Succeeded (Some revision) err now"
  let ?L = "live_lease (jr_id job) worker hash now"
  have only: "(jr_id r = jr_id job) = (r = job)" if "r \<in> set (db_jobs d)" for r
    using jobs_row_unique[OF assms(1) that assms(2)] by blast
  have leased: "jr_state job = Leased" using assms(3) by (simp add: live_lease_def)
  have d1: "db_jobs d1 = map (\<lambda>r. if r = job then ?h job else r) (db_jobs d)"
  proof -
    have P: "(jr_id r = jr_id job \<and> jr_repo_id r = jr_repo_id job \<and> jr_state r = Leased) = (r = job)"
      if "r \<in> set (db_jobs d)" for r
      using only[OF that] leased by blast
    show ?thesis using assms(4) sql_update_one[OF assms(2) P, where f = ?h]
      by (simp add: exec_update_jobs_Ok)
  qed
  have "sql_update ?L ?c news = news"
    using assms(5) by (intro sql_update_none) (auto simp: live_lease_def)
  moreover have "sql_update ?L ?c (db_jobs d1) = map (\<lambda>r. if r = job then ?c job else r) (db_jobs d)"
    unfolding d1 sql_update_def map_map comp_def
  proof (intro map_cong refl)
    fix r assume r: "r \<in> set (db_jobs d)"
    have "?L (?h job)" using assms(3) by (simp add: live_lease_def legacy_kinds_sql_def)
    moreover have "?c (?h job) = ?c job" by (simp add: complete_row_def)
    moreover have "r \<noteq> job \<Longrightarrow> \<not> ?L r" using only[OF r] by (simp add: live_lease_def)
    ultimately show "(if ?L (if r = job then ?h job else r) then ?c (if r = job then ?h job else r)
        else (if r = job then ?h job else r)) = (if r = job then ?c job else r)" by simp
  qed
  ultimately show ?thesis by (simp add: sql_update_append)
qed

text \<open>
  C18: A scan that completes successfully settles all of its findings in one transaction. It
  needs a non-blank revision. Every pending finding of the scan, and no other, moves: to validation
  with the given deadline if it requires verification, else to the approval gate or to
  confirmed as the repository's policy says; none stays pending. For each
  validating finding of the scan, in order, one verify job is queued that targets it and names
  the scan as parent. Of the existing jobs only the scan changes: it succeeds with that revision.
\<close>

theorem scan_completion_correct:
  assumes "store_wf d"
    and "with_active_lease d lease (complete_assignment idn Succeeded head err approval_default deadline) = Ok (Some p, d')"
    and "jobs_get_raw d (li_job_id (al_identity lease)) = Some job" and "jr_kind job = Scan"
  shows "\<exists>repo revision news. row_by rp_id (jr_repo_id job) (db_repos d) = Some repo \<and>
    head = Some revision \<and> \<not> is_blank revision \<and>
    db_findings d' = map (scan_outcome (jr_repo_id job) (jr_id job)
      (effective_require_approval repo approval_default) deadline (al_now lease)) (db_findings d) \<and>
    (\<forall>f \<in> set (db_findings d'). fr_job_id f = jr_id job \<and> fr_repo_id f = jr_repo_id job \<longrightarrow> fr_state f \<noteq> Pending) \<and>
    db_jobs d' = map (\<lambda>r. if r = job then complete_row Succeeded head err (al_now lease) job else r) (db_jobs d) @ news \<and>
    list_all2 (verify_for (jr_repo_id job) (jr_id job) (al_now lease))
      (filter (\<lambda>f. fr_job_id f = jr_id job \<and> fr_repo_id f = jr_repo_id job \<and> fr_state f = Validating)
        (db_findings d')) news"
proof -
  let ?i = "al_identity lease"
  obtain job' where j': "get_active_by_capability_hash d (li_worker_id ?i) (li_capability_hash ?i) (al_now lease) = Some job'"
    "jr_id job' = li_job_id ?i"
    and run: "complete_assignment idn Succeeded head err approval_default deadline
      \<lparr>as_repo = \<lparr>rs_repo_id = jr_repo_id job', rs_operator = False\<rparr>, as_job = job', as_lease = lease\<rparr> d = Ok (p, d')"
    using assms(2) by (rule with_active_lease_Some)
  note row = active_lease_row[OF assms(1) j'(1)]
  have "job' = job" using jobs_get_raw_iff[OF assms(1)] assms(3) jobs_row_unique[OF assms(1)] row j'(2) by metis
  note row = row[unfolded this] and run = run[unfolded this] and id = j'(2)[unfolded this]
  obtain d2 where scan: "complete_scan idn \<lparr>as_repo = \<lparr>rs_repo_id = jr_repo_id job, rs_operator = False\<rparr>,
      as_job = job, as_lease = lease\<rparr> head approval_default deadline d = Ok (p, d2)"
    and fin: "jobs_complete ?i Succeeded head err (al_now lease) d2 = Ok (True, d')"
    using run assms(4) by (auto elim!: complete_assignment_chain)
  obtain repo revision d1 n news where s: "row_by rp_id (jr_repo_id job) (db_repos d) = Some repo"
    "head = Some revision" "\<not> is_blank revision"
    "exec_update_jobs (\<lambda>r. jr_id r = jr_id job \<and> jr_repo_id r = jr_repo_id job \<and> jr_state r = Leased)
       (\<lambda>r. r\<lparr>jr_head_sha := Some revision\<rparr>) d = Ok (n, d1)"
    "db_findings d2 = map (scan_outcome (jr_repo_id job) (jr_id job)
       (effective_require_approval repo approval_default) deadline (al_now lease)) (db_findings d)"
    "db_jobs d2 = db_jobs d1 @ news"
    and v: "sql_exists (\<lambda>j. jr_id j = jr_id job \<and> jr_repo_id j = jr_repo_id job \<and> jr_kind j = Scan) (db_jobs d1) \<Longrightarrow>
      list_all2 (verify_for (jr_repo_id job) (jr_id job) (al_now lease))
       (filter (\<lambda>f. fr_job_id f = jr_id job \<and> fr_repo_id f = jr_repo_id job \<and> fr_state f = Validating)
          (db_findings d2)) news"
    by (rule complete_scan_Ok[OF scan, unfolded assignment_scope.select_convs repo_scope.select_convs]) (rule that)
  have "job\<lparr>jr_head_sha := Some revision\<rparr> \<in> set (db_jobs d1)"
    using s(4) row by (force simp: exec_update_jobs_Ok sql_update_def image_iff)
  then have "sql_exists (\<lambda>j. jr_id j = jr_id job \<and> jr_repo_id j = jr_repo_id job \<and> jr_kind j = Scan) (db_jobs d1)"
    using assms(4) unfolding sql_exists_iff by (intro bexI) simp_all
  note v = v[OF this]
  then have queued: "\<forall>v \<in> set news. jr_state v = Queued"
    by (auto simp: list_all2_conv_all_nth in_set_conv_nth verify_for_def)
  have d': "db_jobs d' = sql_update (live_lease (jr_id job) (li_worker_id ?i) (li_capability_hash ?i) (al_now lease))
      (complete_row Succeeded (Some revision) err (al_now lease)) (db_jobs d1 @ news)" "db_findings d' = db_findings d2"
    using fin s(2,6) id by (auto simp: jobs_complete_Ok exec_update_jobs_Ok)
  have "fr_state f \<noteq> Pending"
    if "f \<in> set (db_findings d2)" "fr_job_id f = jr_id job \<and> fr_repo_id f = jr_repo_id job" for f
    using that unfolding s(5) by (auto simp: scan_outcome_def)
  with s(1-3,5) v d' scan_completion_jobs[OF assms(1) _ _ s(4) queued] row show ?thesis
    by (intro exI[of _ repo] exI[of _ revision] exI[of _ news]) simp
qed

definition scan_db :: db where
  "scan_db = sample_db\<lparr>db_jobs := [leased_scan 5 3 60],
    db_findings := [(sample_row 3 ''c'' Pending None)\<lparr>fr_job_id := 5\<rparr>]\<rparr>"

lemmas scan_defs = scan_db_def leased_scan_def sample_defs

lemma scan_db_wf: "store_wf scan_db"
  by (simp add: store_wf_def jobs_wf_def findings_wf_def jobs_unique_def unique_index_Cons lease_ok_def
      kind_ok_def job_kind_from_text_def finding_key_def key_defs scan_defs)

theorem scan_completion_correct_witness:
  "\<exists>p d'. with_active_lease scan_db (sample_lease 5 7 50) (complete_assignment 0 Succeeded (Some ''abc'') None True 99) =
       Ok (Some p, d') \<and>
     map fr_state (db_findings d') = [Validating] \<and> length (db_jobs d') = 2"
proof -
  have "\<exists>p d'. with_active_lease scan_db (sample_lease 5 7 50)
      (complete_assignment 0 Succeeded (Some ''abc'') None True 99) = Ok (Some p, d')"
    by (simp add: with_active_lease_def get_active_by_capability_hash_def complete_assignment_def
        complete_scan_def scan_duration_ms_def i64_ops i64_bounds option_filter_def is_blank_def
        transition_scan_run enqueue_verify_jobs_for_scan_def enqueue_verify_job_def exec_insert_job_def
        prepare_assignment_def report_prepare_def report_select_def sql_exists_def
        jobs_complete_def job_apply_def exec_update_jobs_def jobs_unique_def unique_index_Cons key_defs scan_defs
        sample_lease_def row_by_def new_job_row_def job_kind_from_text_def next_rowid_def
        sql_update_def sql_count_def live_lease_def complete_row_def legacy_kinds_sql_def
        LEGACY_RUNTIME_KINDS_def Let_def)
  then obtain p d' where run: "with_active_lease scan_db (sample_lease 5 7 50)
      (complete_assignment 0 Succeeded (Some ''abc'') None True 99) = Ok (Some p, d')" by blast
  have get: "jobs_get_raw scan_db (li_job_id (al_identity (sample_lease 5 7 50))) = Some (leased_scan 5 3 60)"
    "jr_kind (leased_scan 5 3 60) = Scan"
    by (simp_all add: jobs_get_raw_def row_by_def scan_defs sample_lease_def)
  obtain repo news where
    f: "db_findings d' = map (scan_outcome (jr_repo_id (leased_scan 5 3 60)) (jr_id (leased_scan 5 3 60))
      (effective_require_approval repo True) 99 (al_now (sample_lease 5 7 50))) (db_findings scan_db)"
    and j: "db_jobs d' = map (\<lambda>r. if r = leased_scan 5 3 60 then complete_row Succeeded (Some ''abc'') None
      (al_now (sample_lease 5 7 50)) (leased_scan 5 3 60) else r) (db_jobs scan_db) @ news"
    and v: "list_all2 (verify_for (jr_repo_id (leased_scan 5 3 60)) (jr_id (leased_scan 5 3 60)) (al_now (sample_lease 5 7 50)))
      (filter (\<lambda>f. fr_job_id f = jr_id (leased_scan 5 3 60) \<and> fr_repo_id f = jr_repo_id (leased_scan 5 3 60) \<and>
        fr_state f = Validating) (db_findings d')) news"
    using scan_completion_correct[OF scan_db_wf run get] by (elim exE conjE) (rule that)
  have "map fr_state (db_findings d') = [Validating]"
    unfolding f by (simp add: scan_defs scan_outcome_def)
  moreover have "length news = 1"
    using list_all2_lengthD[OF v, symmetric] unfolding f by (simp add: scan_defs scan_outcome_def)
  then have "length (db_jobs d') = 2" unfolding j by (simp add: scan_db_def)
  ultimately show ?thesis using run by (intro exI[of _ p] exI[of _ d'] conjI)
qed

section \<open>Verdicts\<close>

definition verdict_as_str :: "verdict \<Rightarrow> string" where
  "verdict_as_str vd = (case vd of VConfirmed _ _ \<Rightarrow> ''confirmed'' | VDismissed _ \<Rightarrow> ''dismissed''
     | VInconclusive _ _ \<Rightarrow> ''inconclusive'')"

definition recorded :: "db \<Rightarrow> int \<Rightarrow> string \<Rightarrow> bool" where
  "recorded d i out \<longleftrightarrow> (\<exists>v \<in> set (db_verifications d). vr_finding_id v = i \<and> vr_verdict v = out)"

text \<open>The state of a finding after its recorded verdicts.\<close>

definition verdict_state :: "bool \<Rightarrow> bool \<Rightarrow> db \<Rightarrow> finding_row \<Rightarrow> finding_state" where
  "verdict_state terminal approval d f =
    (if fr_state f \<noteq> Validating then fr_state f
     else if terminal \<or> recorded d (fr_id f) ''dismissed'' then Dismissed
     else if recorded d (fr_id f) ''confirmed'' then (if approval then AwaitingApproval else Confirmed)
     else Validating)"

lemma insert_submitted_Ok:
  assumes "insert_verification repo i (Submitted job vd) now d = Ok (v, d')"
  shows "\<exists>row. d' = d\<lparr>db_verifications := db_verifications d @ [row]\<rparr> \<and> vr_finding_id row = i \<and>
    vr_job_id row = Some job \<and> vr_verdict row = verdict_as_str vd"
  using assms by (cases vd) (auto simp: insert_verification_def Let_def verdict_as_str_def split: if_splits)

text \<open>An update of rows with one id changes one row of a well-formed table.\<close>

lemma sql_update_target:
  assumes "store_wf d" "f \<in> set (db_findings d)" "\<And>g. P g \<Longrightarrow> fr_id g = fr_id f"
  shows "\<exists>f'. sql_update P u (db_findings d) = map (\<lambda>g. if g = f then f' else g) (db_findings d) \<and>
    f' = (if P f then u f else f)"
proof -
  have "P g \<longleftrightarrow> g = f \<and> P f" if "g \<in> set (db_findings d)" for g
    using finding_row_unique[OF assms(1) that assms(2)] assms(3) by blast
  then show ?thesis by (auto simp: sql_update_def)
qed

lemma map_if_twice:
  "map (\<lambda>g. if g = f' then h else g) (map (\<lambda>g. if g = f then f' else g) t) = map (\<lambda>g. if g = f then h else g) t"
  if "f' \<notin> set t \<or> f' = f"
  using that by (induction t) auto

lemma roll_up_state:
  assumes "store_wf d" and "f \<in> set (db_findings d)"
    and "roll_up_verdicts_for_finding (fr_repo_id f) (fr_id f) terminal approval now d = Ok (st, d')"
  shows "\<exists>f'. d' = d\<lparr>db_findings := map (\<lambda>g. if g = f then f' else g) (db_findings d)\<rparr> \<and>
    fr_id f' = fr_id f \<and> fr_state f' = verdict_state terminal approval d f"
proof -
  have sel: "findings_get_selected d (fr_repo_id f) (fr_id f) = Some f"
    unfolding findings_get_selected_def
    by (rule find_unique[OF assms(2)]) (use finding_row_unique[OF assms(1) _ assms(2)] in auto)
  have rec: "has_verdict_row d (fr_repo_id f) (fr_id f) out = recorded d (fr_id f) out" for out
    using assms(2) by (auto simp: has_verdict_row_def recorded_def sql_exists_iff)
  show ?thesis
  proof (cases st)
    case None
    then have "d' = d" "verdict_state terminal approval d f = fr_state f"
      using assms(3) by (auto simp: roll_up_verdicts_for_finding_def sel rec roll_up_verdicts_spec verdict_state_def
          split: if_splits)
    then show ?thesis by (intro exI[of _ f]) (simp add: map_idI)
  next
    case (Some s)
    then have s: "s = verdict_state terminal approval d f"
      and d': "d' = d\<lparr>db_findings := sql_update (\<lambda>r. fr_id r = fr_id f \<and> fr_repo_id r = fr_repo_id f)
        (stamp_rollup s now) (db_findings d)\<rparr>"
      using assms(3) by (auto simp: roll_up_verdicts_for_finding_def sel rec roll_up_verdicts_spec verdict_state_def
          split: if_splits)
    obtain f' where "sql_update (\<lambda>r. fr_id r = fr_id f \<and> fr_repo_id r = fr_repo_id f) (stamp_rollup s now) (db_findings d) =
        map (\<lambda>g. if g = f then f' else g) (db_findings d)" "f' = stamp_rollup s now f"
      using sql_update_target[OF assms(1,2), of "\<lambda>r. fr_id r = fr_id f \<and> fr_repo_id r = fr_repo_id f" "stamp_rollup s now"]
      by auto
    then show ?thesis using d' s
      by (intro exI[of _ f']) (auto simp: stamp_rollup_def split: finding_state.split)
  qed
qed

lemma attach_patch_target:
  assumes "store_wf d" and "f \<in> set (db_findings d)"
  shows "\<exists>f'. snd (attach_proposed_patch (fr_repo_id f) (fr_id f) patch nts cn now d) =
      d\<lparr>db_findings := map (\<lambda>g. if g = f then f' else g) (db_findings d)\<rparr> \<and>
    fr_id f' = fr_id f \<and> fr_repo_id f' = fr_repo_id f \<and> fr_state f' = fr_state f"
proof -
  let ?P = "\<lambda>r. fr_id r = fr_id f \<and> f_patch_unified (fr_finding r) = None \<and> fr_repo_id r = fr_repo_id f"
  let ?u = "\<lambda>r. r\<lparr>fr_finding := (fr_finding r)\<lparr>f_patch_unified := Some patch\<rparr>, fr_patch_notes := Some nts,
      fr_patch_proposed_by_cn := Some cn, fr_patch_proposed_at := Some now\<rparr>"
  obtain f' where "sql_update ?P ?u (db_findings d) = map (\<lambda>g. if g = f then f' else g) (db_findings d)"
    "f' = (if ?P f then ?u f else f)"
    using sql_update_target[OF assms, of ?P ?u] by blast
  then show ?thesis by (intro exI[of _ f']) (simp add: attach_proposed_patch_def Let_def)
qed

lemma patched_target:
  assumes "store_wf d" and "f \<in> set (db_findings d)"
  shows "\<exists>f'. (case vd of
        VConfirmed _ (Some p) \<Rightarrow>
          snd (attach_proposed_patch (fr_repo_id f) (fr_id f) (vp_patch_unified p) (vp_notes p) cn now d)
      | _ \<Rightarrow> d) = d\<lparr>db_findings := map (\<lambda>g. if g = f then f' else g) (db_findings d)\<rparr> \<and>
    fr_id f' = fr_id f \<and> fr_repo_id f' = fr_repo_id f \<and> fr_state f' = fr_state f"
proof -
  have same: "\<exists>f'. d = d\<lparr>db_findings := map (\<lambda>g. if g = f then f' else g) (db_findings d)\<rparr> \<and>
      fr_id f' = fr_id f \<and> fr_repo_id f' = fr_repo_id f \<and> fr_state f' = fr_state f"
    by (intro exI[of _ f]) (simp add: map_idI)
  show ?thesis using same attach_patch_target[OF assms] by (auto split: verdict.split option.split)
qed

lemma submit_verdict_effect:
  assumes "store_wf d" and "submit_verdict idn vd cn terminal approval_default sc d = Ok (res, d')"
  shows "\<exists>f v f' repo. jr_kind (as_job sc) = Verify \<and> f \<in> set (db_findings d) \<and>
    jr_target_finding_id (as_job sc) = Some (fr_id f) \<and> fr_repo_id f = rs_repo_id (as_repo sc) \<and>
    row_by rp_id (fr_repo_id f) (db_repos d) = Some repo \<and>
    vr_finding_id v = fr_id f \<and> vr_job_id v = Some (jr_id (as_job sc)) \<and> vr_verdict v = verdict_as_str vd \<and>
    d' = d\<lparr>db_verifications := db_verifications d @ [v],
           db_findings := map (\<lambda>g. if g = f then f' else g) (db_findings d)\<rparr> \<and>
    fr_id f' = fr_id f \<and>
    fr_state f' = verdict_state terminal (effective_require_approval repo approval_default) d' f"
proof -
  let ?repo = "rs_repo_id (as_repo sc)" and ?now = "al_now (as_lease sc)"
  obtain target repo k d1 st where kind: "jr_kind (as_job sc) = Verify"
    and target: "jr_target_finding_id (as_job sc) = Some target"
    and repo: "row_by rp_id ?repo (db_repos d) = Some repo"
    and ex: "sql_exists (\<lambda>f. fr_id f = target \<and> fr_repo_id f = ?repo) (db_findings d)"
    and ins: "insert_verification ?repo target (Submitted (jr_id (as_job sc)) vd) ?now d = Ok (k, d1)"
    and roll: "roll_up_verdicts_for_finding ?repo target terminal (effective_require_approval repo approval_default) ?now
      (case vd of VConfirmed _ (Some p) \<Rightarrow>
         snd (attach_proposed_patch ?repo target (vp_patch_unified p) (vp_notes p) cn ?now d1)
       | _ \<Rightarrow> d1) = Ok (st, d')"
    using assms(2) unfolding submit_verdict_def Let_def
    by (auto simp: and_then_Ok_iff ok_or_Ok_iff map_ok_Ok_iff split: if_splits)
  obtain f where f: "f \<in> set (db_findings d)" "fr_id f = target" "fr_repo_id f = ?repo"
    using ex by (auto simp: sql_exists_iff)
  obtain v where v: "d1 = d\<lparr>db_verifications := db_verifications d @ [v]\<rparr>" "vr_finding_id v = target"
    "vr_job_id v = Some (jr_id (as_job sc))" "vr_verdict v = verdict_as_str vd"
    using insert_submitted_Ok[OF ins] by blast
  have wf1: "store_wf d1" and f1: "f \<in> set (db_findings d1)"
    using preserves_wf[OF insert_verification_preserves[OF ins] assms(1)] v f by simp_all
  define d2 where "d2 = (case vd of VConfirmed _ (Some p) \<Rightarrow>
      snd (attach_proposed_patch ?repo target (vp_patch_unified p) (vp_notes p) cn ?now d1) | _ \<Rightarrow> d1)"
  obtain f2 where f2: "d2 = d1\<lparr>db_findings := map (\<lambda>g. if g = f then f2 else g) (db_findings d1)\<rparr>"
    "fr_id f2 = fr_id f" "fr_repo_id f2 = fr_repo_id f" "fr_state f2 = fr_state f"
    using patched_target[OF wf1 f1, where vd = vd and cn = cn and now = ?now, unfolded f(2,3), folded d2_def] f(2,3) by auto
  have wf2: "store_wf d2"
    by (rule preserves_wf[OF _ wf1]) (auto simp: d2_def split: verdict.split option.split intro: attach_patch_preserves)
  have "f2 \<in> set (db_findings d2)" using f1 by (force simp: f2(1))
  then obtain f3 where f3: "d' = d2\<lparr>db_findings := map (\<lambda>g. if g = f2 then f3 else g) (db_findings d2)\<rparr>"
    "fr_id f3 = fr_id f2" "fr_state f3 = verdict_state terminal (effective_require_approval repo approval_default) d2 f2"
    using roll_up_state[OF wf2, of f2 terminal "effective_require_approval repo approval_default" ?now st d']
      roll[folded d2_def] f f2 by auto
  have "f2 \<notin> set (db_findings d1) \<or> f2 = f" using finding_row_unique[OF wf1 _ f1 f2(2)] by blast
  then have rows: "map (\<lambda>g. if g = f2 then f3 else g) (db_findings d2) = map (\<lambda>g. if g = f then f3 else g) (db_findings d)"
    using map_if_twice[of f2 "db_findings d1" f f3] v(1) by (simp add: f2(1))
  have d': "d' = d\<lparr>db_verifications := db_verifications d @ [v], db_findings := map (\<lambda>g. if g = f then f3 else g) (db_findings d)\<rparr>"
    unfolding f3(1) rows by (simp add: f2(1) v(1))
  have "recorded d' i out = recorded d2 i out" for i out
    unfolding f3(1) by (simp add: recorded_def)
  then have st: "fr_state f3 = verdict_state terminal (effective_require_approval repo approval_default) d' f"
    unfolding f3(3) by (simp add: verdict_state_def f2(2,4))
  have id: "fr_id f3 = fr_id f" using f3(2) f2(2) by simp
  show ?thesis
    by (rule exI[of _ f], rule exI[of _ v], rule exI[of _ f3], rule exI[of _ repo], intro conjI)
      (rule d' st id kind f(1) | simp add: target repo f(2,3) v(2-4))+
qed

text \<open>
  C19: A verdict acts on exactly one finding. Submitted under a live lease of a verify job, it
  records one verification row for the job's target with that job and outcome, and may change
  only the target's row; jobs and every other finding stay as they are. A target that
  is not validating keeps its state; otherwise a terminal inconclusive or any recorded dismissal
  dismisses it, else a recorded confirmation sends it to the approval gate or confirms
  it as the repository's policy says, else it keeps validating.
\<close>

theorem verdict_correct:
  assumes "store_wf d"
    and "with_active_lease d lease (submit_verdict idn vd cn terminal approval_default) = Ok (Some res, d')"
  shows "\<exists>job f v f' repo. job \<in> set (db_jobs d) \<and> jr_id job = li_job_id (al_identity lease) \<and>
    jr_kind job = Verify \<and> f \<in> set (db_findings d) \<and> jr_target_finding_id job = Some (fr_id f) \<and>
    fr_repo_id f = jr_repo_id job \<and> row_by rp_id (jr_repo_id job) (db_repos d) = Some repo \<and>
    vr_finding_id v = fr_id f \<and> vr_job_id v = Some (jr_id job) \<and> vr_verdict v = verdict_as_str vd \<and>
    d' = d\<lparr>db_verifications := db_verifications d @ [v],
           db_findings := map (\<lambda>g. if g = f then f' else g) (db_findings d)\<rparr> \<and>
    fr_id f' = fr_id f \<and>
    fr_state f' = verdict_state terminal (effective_require_approval repo approval_default) d' f"
  using assms(2)
proof (rule with_active_lease_Some)
  fix job
  assume job: "get_active_by_capability_hash d (li_worker_id (al_identity lease))
      (li_capability_hash (al_identity lease)) (al_now lease) = Some job" "jr_id job = li_job_id (al_identity lease)"
    and run: "submit_verdict idn vd cn terminal approval_default
      \<lparr>as_repo = \<lparr>rs_repo_id = jr_repo_id job, rs_operator = False\<rparr>, as_job = job, as_lease = lease\<rparr> d = Ok (res, d')"
  have row: "job \<in> set (db_jobs d)" using active_lease_row[OF assms(1) job(1)] by blast
  obtain f v f' repo where e: "jr_kind job = Verify" "f \<in> set (db_findings d)"
    "jr_target_finding_id job = Some (fr_id f)" "fr_repo_id f = jr_repo_id job"
    "row_by rp_id (fr_repo_id f) (db_repos d) = Some repo" "vr_finding_id v = fr_id f" "vr_job_id v = Some (jr_id job)"
    "vr_verdict v = verdict_as_str vd"
    "d' = d\<lparr>db_verifications := db_verifications d @ [v],
           db_findings := map (\<lambda>g. if g = f then f' else g) (db_findings d)\<rparr>" "fr_id f' = fr_id f"
    "fr_state f' = verdict_state terminal (effective_require_approval repo approval_default) d' f"
    using submit_verdict_effect[OF assms(1) run, unfolded assignment_scope.select_convs repo_scope.select_convs]
    by (elim exE conjE) (rule that)
  show ?thesis
    by (rule exI[of _ job], rule exI[of _ f], rule exI[of _ v], rule exI[of _ f'], rule exI[of _ repo])
      (intro conjI row job(2) e(1-4) e(5)[unfolded e(4)] e(6-))
qed

definition verify_db :: db where
  "verify_db = sample_db\<lparr>db_jobs := [(leased_scan 4 1 50)\<lparr>jr_kind := Verify, jr_target_finding_id := Some 2\<rparr>]\<rparr>"

lemmas verify_defs = verify_db_def leased_scan_def sample_defs

lemma verify_db_wf: "store_wf verify_db"
  by (simp add: store_wf_def jobs_wf_def findings_wf_def jobs_unique_def unique_index_Cons lease_ok_def
      kind_ok_def job_kind_from_text_def finding_key_def key_defs verify_defs)

theorem verdict_correct_witness:
  "\<exists>res d'. with_active_lease verify_db (sample_lease 4 7 50) (submit_verdict 0 (VDismissed None) ''w'' False True) =
       Ok (Some res, d') \<and> length (db_verifications d') = 1 \<and> db_jobs d' = db_jobs verify_db"
proof -
  have "\<exists>res d'. with_active_lease verify_db (sample_lease 4 7 50)
      (submit_verdict 0 (VDismissed None) ''w'' False True) = Ok (Some res, d')"
    by (simp add: with_active_lease_def get_active_by_capability_hash_def submit_verdict_def
        insert_verification_def sql_exists_def row_by_def roll_up_verdicts_for_finding_def roll_up_verdicts_spec
        findings_get_selected_def has_verdict_row_def verify_defs sample_lease_def legacy_kinds_sql_def
        LEGACY_RUNTIME_KINDS_def Let_def)
  then obtain res d' where run: "with_active_lease verify_db (sample_lease 4 7 50)
      (submit_verdict 0 (VDismissed None) ''w'' False True) = Ok (Some res, d')" by blast
  obtain v f f' where "d' = verify_db\<lparr>db_verifications := db_verifications verify_db @ [v],
      db_findings := map (\<lambda>g. if g = f then f' else g) (db_findings verify_db)\<rparr>"
    using verdict_correct[OF verify_db_wf run] by (elim exE conjE) (rule that)
  then show ?thesis using run by (intro exI[of _ res] exI[of _ d']) (simp add: verify_db_def sample_db_def)
qed

end
