(* ===== verification/Request_Budget.thy ===== *)
theory Request_Budget
  imports Prelude
begin

text \<open>
  The per-worker token buckets of the server (\<open>request_budget.rs\<close>) and the bounded body
  buffer they fill (\<open>ingress/mod.rs\<close>). A \<open>u64\<close> is an \<open>int\<close> with the saturating operations
  the source names; the hash map of entries is an association list with distinct keys. The
  clock is an argument of every charge.
\<close>

section \<open>Configuration\<close>

record bucket_config =
  bc_capacity :: int
  bc_refill_per_second :: int

record worker_budget_config =
  wc_requests :: bucket_config
  wc_bytes :: bucket_config
  wc_leases :: bucket_config
  wc_max_workers :: nat
  wc_idle_seconds :: int

definition worker_budget_config_default :: worker_budget_config where
  "worker_budget_config_default =
    \<lparr>wc_requests = \<lparr>bc_capacity = 600, bc_refill_per_second = 10\<rparr>,
     wc_bytes = \<lparr>bc_capacity = 16 * 1024 * 1024, bc_refill_per_second = 256 * 1024\<rparr>,
     wc_leases = \<lparr>bc_capacity = 60, bc_refill_per_second = 1\<rparr>,
     wc_max_workers = 4096, wc_idle_seconds = 120\<rparr>"

datatype budget_config_error = MaxWorkers | IdleSeconds | BucketOf string

definition bucket_positive :: "bucket_config \<Rightarrow> bool" where
  "bucket_positive b \<longleftrightarrow> bc_capacity b > 0 \<and> bc_refill_per_second b > 0"

definition worker_budget_config_validate ::
  "worker_budget_config \<Rightarrow> (unit, budget_config_error) result" where
  "worker_budget_config_validate c =
    (if \<not> wc_max_workers c > 0 then Err MaxWorkers
     else if \<not> wc_idle_seconds c > 0 then Err IdleSeconds
     else if \<not> bucket_positive (wc_requests c) then Err (BucketOf ''requests'')
     else if \<not> bucket_positive (wc_bytes c) then Err (BucketOf ''bytes'')
     else if \<not> bucket_positive (wc_leases c) then Err (BucketOf ''leases'')
     else Ok ())"

section \<open>One bucket\<close>

record budget =
  bu_capacity :: int
  bu_remaining :: int
  bu_refill_per_second :: int
  bu_last :: int

definition budget_new :: "bucket_config \<Rightarrow> int \<Rightarrow> budget" where
  "budget_new c now =
    \<lparr>bu_capacity = bc_capacity c, bu_remaining = bc_capacity c,
     bu_refill_per_second = bc_refill_per_second c, bu_last = now\<rparr>"

definition admit :: "budget \<Rightarrow> int \<Rightarrow> int \<Rightarrow> bool \<times> budget" where
  "admit b now cost =
    (let elapsed = u64_saturating_sub now (bu_last b);
         remaining = min (u64_saturating_add (bu_remaining b)
                        (u64_saturating_mul elapsed (bu_refill_per_second b))) (bu_capacity b);
         b1 = b\<lparr>bu_remaining := remaining, bu_last := max (bu_last b) now\<rparr>
     in if cost > remaining then (False, b1)
        else (True, b1\<lparr>bu_remaining := remaining - cost\<rparr>))"

section \<open>Workers\<close>

record entry =
  en_requests :: budget
  en_bytes :: budget
  en_leases :: budget
  en_last_seen :: int

text \<open>\<open>Entry::full\<close> refills the buckets in order and stops at the first that is not full.\<close>

definition entry_full :: "entry \<Rightarrow> int \<Rightarrow> bool \<times> entry" where
  "entry_full e now =
    (let (_, r) = admit (en_requests e) now 0; e1 = e\<lparr>en_requests := r\<rparr> in
     if bu_remaining r \<noteq> bu_capacity r then (False, e1)
     else let (_, b) = admit (en_bytes e1) now 0; e2 = e1\<lparr>en_bytes := b\<rparr> in
     if bu_remaining b \<noteq> bu_capacity b then (False, e2)
     else let (_, l) = admit (en_leases e2) now 0; e3 = e2\<lparr>en_leases := l\<rparr> in
     (bu_remaining l = bu_capacity l, e3))"

datatype charge = CRequest | CBytes int | CLease

fun category :: "charge \<Rightarrow> string" where
  "category CRequest = ''requests''"
| "category (CBytes _) = ''bytes''"
| "category CLease = ''leases''"

type_synonym entries = "(int \<times> entry) list"

definition retain_entries :: "worker_budget_config \<Rightarrow> int \<Rightarrow> entries \<Rightarrow> entries" where
  "retain_entries c now es =
    concat (map (\<lambda>(w, e).
      if u64_saturating_sub now (en_last_seen e) \<ge> wc_idle_seconds c
      then (case entry_full e now of (full, e') \<Rightarrow> if full then [] else [(w, e')])
      else [(w, e)]) es)"

definition new_entry :: "worker_budget_config \<Rightarrow> int \<Rightarrow> entry" where
  "new_entry c now =
    \<lparr>en_requests = budget_new (wc_requests c) now, en_bytes = budget_new (wc_bytes c) now,
     en_leases = budget_new (wc_leases c) now, en_last_seen = now\<rparr>"

definition charge_entry :: "entry \<Rightarrow> int \<Rightarrow> charge \<Rightarrow> bool \<times> entry" where
  "charge_entry e now ch =
    (let e1 = e\<lparr>en_last_seen := max (en_last_seen e) now\<rparr> in
     case ch of
       CRequest \<Rightarrow> (case admit (en_requests e1) now 1 of (ok, b) \<Rightarrow> (ok, e1\<lparr>en_requests := b\<rparr>))
     | CBytes n \<Rightarrow> (case admit (en_bytes e1) now n of (ok, b) \<Rightarrow> (ok, e1\<lparr>en_bytes := b\<rparr>))
     | CLease \<Rightarrow> (case admit (en_leases e1) now 1 of (ok, b) \<Rightarrow> (ok, e1\<lparr>en_leases := b\<rparr>)))"

definition put_entry :: "int \<Rightarrow> entry \<Rightarrow> entries \<Rightarrow> entries" where
  "put_entry w e es = map (\<lambda>(k, x). if k = w then (k, e) else (k, x)) es"

definition charge_at ::
  "worker_budget_config \<Rightarrow> int \<Rightarrow> int \<Rightarrow> charge \<Rightarrow> entries \<Rightarrow> (unit, string) result \<times> entries" where
  "charge_at c worker now ch es =
    (let (room, es1) =
       (if map_of es worker = None
        then let kept = retain_entries c now es in
          if length kept \<ge> wc_max_workers c then (False, kept)
          else (True, kept @ [(worker, new_entry c now)])
        else (True, es))
     in if \<not> room then (Err ''workers'', es1)
        else case charge_entry (the (map_of es1 worker)) now ch of
          (ok, e) \<Rightarrow> (if ok then Ok () else Err (category ch), put_entry worker e es1))"

section \<open>Credit\<close>

text \<open>The exact credit a bucket has at a time, without saturation.\<close>

definition avail :: "budget \<Rightarrow> int \<Rightarrow> int" where
  "avail b now = min (bu_capacity b) (bu_remaining b + max 0 (now - bu_last b) * bu_refill_per_second b)"

definition budget_ok :: "budget \<Rightarrow> bool" where
  "budget_ok b \<longleftrightarrow> 0 \<le> bu_remaining b \<and> bu_remaining b \<le> bu_capacity b \<and> bu_capacity b \<le> u64_max \<and>
     0 \<le> bu_refill_per_second b \<and> 0 \<le> bu_last b"

lemma avail_nonneg: "budget_ok b \<Longrightarrow> 0 \<le> avail b now"
  by (simp add: avail_def budget_ok_def)

lemma avail_le_capacity: "avail b now \<le> bu_capacity b"
  by (simp add: avail_def)

text \<open>Saturation never shows: the capacity is itself a \<open>u64\<close>.\<close>

lemma admit_exact:
  assumes "budget_ok b" and "in_u64 now"
  shows "admit b now cost =
    (let a = avail b now; b1 = b\<lparr>bu_remaining := a, bu_last := max (bu_last b) now\<rparr> in
     if cost \<le> a then (True, b1\<lparr>bu_remaining := a - cost\<rparr>) else (False, b1))"
proof -
  have el: "u64_saturating_sub now (bu_last b) = max 0 (now - bu_last b)"
    using assms by (auto simp: u64_saturating_sub_def sat_u64_def in_u64_def budget_ok_def)
  have "min (sat_u64 (bu_remaining b + sat_u64 (max 0 (now - bu_last b) * bu_refill_per_second b))) (bu_capacity b) =
      avail b now"
    using assms(1) by (auto simp: avail_def sat_u64_def budget_ok_def min_def max_def)
  then show ?thesis
    by (simp add: admit_def Let_def el u64_saturating_add_def u64_saturating_mul_def not_less)
qed

lemma admit_ok:
  assumes "budget_ok b" "in_u64 now" "0 \<le> cost"
  shows "budget_ok (snd (admit b now cost))"
  using assms avail_nonneg[OF assms(1), of now] avail_le_capacity[of b now]
  by (auto simp: admit_exact Let_def budget_ok_def)

text \<open>After an admission the credit at any later time is the old credit less the cost.\<close>

lemma avail_admit:
  assumes "budget_ok b" "in_u64 now" "bu_last b \<le> now" "now \<le> t" "0 \<le> cost"
  shows "avail (snd (admit b now cost)) t =
    min (bu_capacity b) (avail b now - (if fst (admit b now cost) then cost else 0) +
      (t - now) * bu_refill_per_second b)"
  using assms by (auto simp: admit_exact Let_def avail_def max_def)

lemma avail_later:
  assumes "budget_ok b" "bu_last b \<le> now" "now \<le> t"
  shows "avail b t = min (bu_capacity b) (avail b now + (t - now) * bu_refill_per_second b)"
proof -
  have "(t - bu_last b) * bu_refill_per_second b =
      (now - bu_last b) * bu_refill_per_second b + (t - now) * bu_refill_per_second b"
    by (simp add: algebra_simps)
  moreover have "0 \<le> (t - now) * bu_refill_per_second b" using assms by (simp add: budget_ok_def)
  ultimately show ?thesis using assms by (auto simp: avail_def max_def min_def)
qed

section \<open>A single bucket over time\<close>

fun admits_run :: "budget \<Rightarrow> (int \<times> int) list \<Rightarrow> int \<times> budget" where
  "admits_run b [] = (0, b)"
| "admits_run b ((now, cost) # ops) =
    (case admit b now cost of (ok, b1) \<Rightarrow>
      case admits_run b1 ops of (spent, b2) \<Rightarrow> ((if ok then cost else 0) + spent, b2))"

lemma admit_conserves:
  assumes "budget_ok b" "in_u64 now" "0 \<le> cost" "admit b now cost = (ok, b')"
  shows "budget_ok b' \<and> bu_capacity b' = bu_capacity b \<and> bu_refill_per_second b' = bu_refill_per_second b \<and>
    bu_last b' = max (bu_last b) now \<and>
    (if ok then cost else 0) + bu_remaining b' \<le>
      bu_remaining b + (bu_last b' - bu_last b) * bu_refill_per_second b"
  using assms admit_ok[OF assms(1-3)]
  by (auto simp: admit_exact Let_def avail_def max_def split: if_splits)

lemma admits_run_conserves:
  assumes "budget_ok b" "\<forall>(now, cost) \<in> set ops. in_u64 now \<and> 0 \<le> cost"
  shows "case admits_run b ops of (spent, b') \<Rightarrow>
    budget_ok b' \<and> bu_last b \<le> bu_last b' \<and> bu_capacity b' = bu_capacity b \<and>
    bu_refill_per_second b' = bu_refill_per_second b \<and>
    spent + bu_remaining b' \<le> bu_remaining b + (bu_last b' - bu_last b) * bu_refill_per_second b"
  using assms
proof (induction b ops rule: admits_run.induct)
  case (2 b now cost ops)
  obtain ok b1 where a: "admit b now cost = (ok, b1)" by fastforce
  obtain spent b2 where r: "admits_run b1 ops = (spent, b2)" by fastforce
  have one: "budget_ok b1 \<and> bu_capacity b1 = bu_capacity b \<and> bu_refill_per_second b1 = bu_refill_per_second b \<and>
      bu_last b \<le> bu_last b1 \<and> (if ok then cost else 0) + bu_remaining b1 \<le>
      bu_remaining b + (bu_last b1 - bu_last b) * bu_refill_per_second b"
    using admit_conserves[OF 2(2) _ _ a] 2(3) by auto
  have "bu_last b1 \<le> bu_last b2 \<and> budget_ok b2 \<and> bu_capacity b2 = bu_capacity b1 \<and>
      bu_refill_per_second b2 = bu_refill_per_second b1 \<and>
      spent + bu_remaining b2 \<le> bu_remaining b1 + (bu_last b2 - bu_last b1) * bu_refill_per_second b1"
    using 2(1)[OF a[symmetric]] one 2(3) r by simp
  with one show ?case by (auto simp: a r algebra_simps)
qed simp

section \<open>The table of workers\<close>

text \<open>The bucket a charge draws on, and its configuration.\<close>

definition bucket_of :: "charge \<Rightarrow> entry \<Rightarrow> budget" where
  "bucket_of ch e = (case ch of CRequest \<Rightarrow> en_requests e | CBytes _ \<Rightarrow> en_bytes e | CLease \<Rightarrow> en_leases e)"

definition config_of :: "charge \<Rightarrow> worker_budget_config \<Rightarrow> bucket_config" where
  "config_of ch c = (case ch of CRequest \<Rightarrow> wc_requests c | CBytes _ \<Rightarrow> wc_bytes c | CLease \<Rightarrow> wc_leases c)"

definition cost_of :: "charge \<Rightarrow> int" where
  "cost_of ch = (case ch of CBytes n \<Rightarrow> n | _ \<Rightarrow> 1)"

definition of_config :: "bucket_config \<Rightarrow> int \<Rightarrow> budget \<Rightarrow> bool" where
  "of_config c t b \<longleftrightarrow> budget_ok b \<and> bu_capacity b = bc_capacity c \<and>
     bu_refill_per_second b = bc_refill_per_second c \<and> bu_last b \<le> t"

definition entry_ok :: "worker_budget_config \<Rightarrow> int \<Rightarrow> entry \<Rightarrow> bool" where
  "entry_ok c t e \<longleftrightarrow> of_config (wc_requests c) t (en_requests e) \<and> of_config (wc_bytes c) t (en_bytes e) \<and>
     of_config (wc_leases c) t (en_leases e)"

definition entries_ok :: "worker_budget_config \<Rightarrow> int \<Rightarrow> entries \<Rightarrow> bool" where
  "entries_ok c t es \<longleftrightarrow> distinct (map fst es) \<and> length es \<le> wc_max_workers c \<and> (\<forall>(w, e) \<in> set es. entry_ok c t e)"

definition config_ok :: "worker_budget_config \<Rightarrow> bool" where
  "config_ok c \<longleftrightarrow> worker_budget_config_validate c = Ok () \<and>
     bc_capacity (wc_requests c) \<le> u64_max \<and> bc_capacity (wc_bytes c) \<le> u64_max \<and> bc_capacity (wc_leases c) \<le> u64_max"

text \<open>What a worker may still spend: a worker without an entry has a full bucket.\<close>

definition credit :: "worker_budget_config \<Rightarrow> entries \<Rightarrow> int \<Rightarrow> charge \<Rightarrow> int \<Rightarrow> int" where
  "credit c es w ch now =
    (case map_of es w of Some e \<Rightarrow> avail (bucket_of ch e) now | None \<Rightarrow> bc_capacity (config_of ch c))"

lemma config_positive: "config_ok c \<Longrightarrow> bucket_positive (config_of ch c) \<and> bc_capacity (config_of ch c) \<le> u64_max"
  by (auto simp: config_ok_def worker_budget_config_validate_def config_of_def split: if_splits charge.split)

lemma entry_ok_bucket: "entry_ok c t e \<Longrightarrow> of_config (config_of ch c) t (bucket_of ch e)"
  by (auto simp: entry_ok_def config_of_def bucket_of_def split: charge.split)

lemma new_entry_ok:
  assumes "config_ok c" "0 \<le> now"
  shows "entry_ok c now (new_entry c now)"
  using config_positive[OF assms(1), of CRequest] config_positive[OF assms(1), of "CBytes 0"]
    config_positive[OF assms(1), of CLease] assms(2)
  by (simp add: entry_ok_def of_config_def new_entry_def budget_new_def budget_ok_def config_of_def bucket_positive_def)

lemma avail_new: "avail (bucket_of ch (new_entry c now)) now = bc_capacity (config_of ch c)"
  by (cases ch) (simp_all add: avail_def bucket_of_def new_entry_def budget_new_def config_of_def)

lemma of_config_admit:
  assumes "of_config k t b" "t \<le> now" "in_u64 now" "0 \<le> cost"
  shows "of_config k now (snd (admit b now cost))"
  using assms admit_ok[of b now cost]
  by (auto simp: of_config_def admit_exact Let_def)

lemma avail_admit_now:
  assumes "of_config k t b" "t \<le> now" "in_u64 now" "0 \<le> cost"
  shows "avail (snd (admit b now cost)) now = avail b now - (if fst (admit b now cost) then cost else 0)"
    and "fst (admit b now cost) \<longleftrightarrow> cost \<le> avail b now"
proof -
  have b: "budget_ok b" "bu_last b \<le> now" using assms by (auto simp: of_config_def)
  show "fst (admit b now cost) \<longleftrightarrow> cost \<le> avail b now" by (simp add: admit_exact[OF b(1) assms(3)] Let_def)
  show "avail (snd (admit b now cost)) now = avail b now - (if fst (admit b now cost) then cost else 0)"
    using avail_admit[OF b(1) assms(3) b(2) order_refl assms(4)] avail_le_capacity[of b now] assms(4) by auto
qed

lemma entry_full_spec:
  assumes "entry_ok c t e" "t \<le> now" "in_u64 now"
  shows "entry_ok c now (snd (entry_full e now)) \<and>
    avail (bucket_of ch (snd (entry_full e now))) now = avail (bucket_of ch e) now \<and>
    (fst (entry_full e now) \<longrightarrow> avail (bucket_of ch e) now = bc_capacity (config_of ch c))"
proof -
  have ok: "of_config (wc_requests c) t (en_requests e)" "of_config (wc_bytes c) t (en_bytes e)"
    "of_config (wc_leases c) t (en_leases e)" using assms(1) by (auto simp: entry_ok_def)
  have weak: "of_config k t b \<Longrightarrow> of_config k now b" for k b using assms(2) by (auto simp: of_config_def)
  note adm = of_config_admit[OF _ assms(2,3) order_refl] and av = avail_admit_now(1)[OF _ assms(2,3) order_refl]
  have rem: "bu_remaining (snd (admit b now 0)) = avail b now \<and> bu_capacity (snd (admit b now 0)) = bc_capacity k"
    if "of_config k t b" for k b
    using that avail_nonneg[of b now] assms(3) by (auto simp: of_config_def admit_exact Let_def)
  show ?thesis
    using ok[THEN adm] ok[THEN av] ok[THEN rem] ok[THEN weak]
    by (cases ch) (auto simp: entry_full_def Let_def entry_ok_def bucket_of_def config_of_def case_prod_beta)
qed

definition kept_entry :: "worker_budget_config \<Rightarrow> int \<Rightarrow> entry \<Rightarrow> entry option" where
  "kept_entry c now e =
    (if u64_saturating_sub now (en_last_seen e) \<ge> wc_idle_seconds c
     then if fst (entry_full e now) then None else Some (snd (entry_full e now)) else Some e)"

lemma retain_entries_Cons:
  "retain_entries c now ((w, e) # es) =
    (case kept_entry c now e of None \<Rightarrow> [] | Some e' \<Rightarrow> [(w, e')]) @ retain_entries c now es"
  by (simp add: retain_entries_def kept_entry_def case_prod_beta)

lemma retain_entries_fst: "set (map fst (retain_entries c now es)) \<subseteq> set (map fst es)"
proof (induction es)
  case (Cons p es)
  then show ?case by (cases p) (auto simp: retain_entries_Cons split: option.splits)
qed (simp add: retain_entries_def)

lemma retain_entries_distinct:
  "distinct (map fst es) \<Longrightarrow> distinct (map fst (retain_entries c now es)) \<and>
     length (retain_entries c now es) \<le> length es"
proof (induction es)
  case (Cons p es)
  then show ?case using retain_entries_fst[of c now es]
    by (cases p) (auto simp: retain_entries_Cons split: option.splits)
qed (simp add: retain_entries_def)

lemma map_of_retain:
  "distinct (map fst es) \<Longrightarrow>
     map_of (retain_entries c now es) w = Option.bind (map_of es w) (kept_entry c now)"
proof (induction es)
  case (Cons p es)
  obtain k e where p: "p = (k, e)" by (cases p)
  have "k = w \<Longrightarrow> map_of es w = None" using Cons.prems p by (simp add: map_of_eq_None_iff)
  then show ?case using Cons p by (auto simp: retain_entries_Cons split: option.split)
qed (simp add: retain_entries_def)

lemma kept_entry_ok:
  assumes "entry_ok c t e" "t \<le> now" "in_u64 now" "kept_entry c now e = Some e'"
  shows "entry_ok c now e' \<and> avail (bucket_of ch e') now = avail (bucket_of ch e) now"
proof -
  have "entry_ok c now e" using assms(1,2) by (auto simp: entry_ok_def of_config_def)
  then show ?thesis using assms(4) entry_full_spec[OF assms(1-3), of ch] by (auto simp: kept_entry_def split: if_splits)
qed

lemma retain_entries_ok:
  assumes "entries_ok c t es" "t \<le> now" "in_u64 now"
  shows "entries_ok c now (retain_entries c now es) \<and>
    credit c (retain_entries c now es) w ch now = credit c es w ch now"
proof -
  have dist: "distinct (map fst es)" and len: "length es \<le> wc_max_workers c"
    and ok: "\<And>k e. (k, e) \<in> set es \<Longrightarrow> entry_ok c t e"
    using assms(1) by (auto simp: entries_ok_def)
  have rdist: "distinct (map fst (retain_entries c now es))" "length (retain_entries c now es) \<le> length es"
    using retain_entries_distinct[OF dist] by auto
  have each: "entry_ok c now e'" if m: "(k, e') \<in> set (retain_entries c now es)" for k e'
  proof -
    have "map_of (retain_entries c now es) k = Some e'" using rdist m by simp
    then obtain e where "map_of es k = Some e" "kept_entry c now e = Some e'"
      unfolding map_of_retain[OF dist] by (auto simp: bind_eq_Some_conv)
    then show ?thesis using ok kept_entry_ok[OF _ assms(2,3)] map_of_SomeD by metis
  qed
  have "credit c (retain_entries c now es) w ch now = credit c es w ch now"
  proof (cases "map_of es w")
    case None
    then show ?thesis by (simp add: credit_def map_of_retain[OF dist])
  next
    case (Some e)
    then have e: "entry_ok c t e" using ok map_of_SomeD by metis
    show ?thesis
    proof (cases "kept_entry c now e")
      case None
      then have "fst (entry_full e now)" by (auto simp: kept_entry_def split: if_splits)
      then show ?thesis using None Some entry_full_spec[OF e assms(2,3), of ch]
        by (simp add: credit_def map_of_retain[OF dist])
    next
      case kept: (Some e')
      show ?thesis using kept Some kept_entry_ok[OF e assms(2,3) kept, of ch]
        by (simp add: credit_def map_of_retain[OF dist])
    qed
  qed
  with rdist len each show ?thesis by (auto simp: entries_ok_def)
qed

lemma charge_entry_spec:
  assumes "entry_ok c t e" "t \<le> now" "in_u64 now" "0 \<le> cost_of ch"
  shows "entry_ok c now (snd (charge_entry e now ch)) \<and>
    (fst (charge_entry e now ch) \<longleftrightarrow> cost_of ch \<le> avail (bucket_of ch e) now) \<and>
    avail (bucket_of ch' (snd (charge_entry e now ch))) now =
      avail (bucket_of ch' e) now -
        (if fst (charge_entry e now ch) \<and> category ch = category ch' then cost_of ch else 0)"
proof -
  have ok: "of_config (wc_requests c) t (en_requests e)" "of_config (wc_bytes c) t (en_bytes e)"
    "of_config (wc_leases c) t (en_leases e)" using assms(1) by (auto simp: entry_ok_def)
  have weak: "of_config k t b \<Longrightarrow> of_config k now b" for k b using assms(2) by (auto simp: of_config_def)
  note adm = of_config_admit[OF _ assms(2,3,4)] and av = avail_admit_now[OF _ assms(2,3,4)]
  show ?thesis
    using ok[THEN adm] ok[THEN av(1)] ok[THEN av(2)] ok[THEN weak]
    by (cases ch; cases ch')
      (simp_all add: charge_entry_def Let_def entry_ok_def bucket_of_def cost_of_def case_prod_beta)
qed

lemma put_entry_fst [simp]: "map fst (put_entry w e es) = map fst es"
  by (auto simp: put_entry_def)

lemma map_of_put: "map_of (put_entry w e es) k = (if k = w \<and> map_of es w \<noteq> None then Some e else map_of es k)"
  by (induction es) (auto simp: put_entry_def)

lemma put_entry_ok:
  assumes "entries_ok c now es" "entry_ok c now e"
  shows "entries_ok c now (put_entry w e es)"
proof -
  have "\<forall>(k, x) \<in> set (put_entry w e es). entry_ok c now x" "length (put_entry w e es) = length es"
    using assms by (auto simp: entries_ok_def put_entry_def split: if_splits)
  then show ?thesis using assms(1) by (simp add: entries_ok_def)
qed

lemma charge_at_present:
  assumes "entries_ok c now es" "map_of es worker = Some e" "in_u64 now" "0 \<le> cost_of ch"
    and "charge_entry e now ch = (ok, e')"
  shows "entries_ok c now (put_entry worker e' es) \<and> (ok \<longleftrightarrow> cost_of ch \<le> credit c es worker ch now) \<and>
    credit c (put_entry worker e' es) w ch' now =
      credit c es w ch' now - (if ok \<and> w = worker \<and> category ch = category ch' then cost_of ch else 0)"
proof -
  have e: "entry_ok c now e" using assms(1) map_of_SomeD[OF assms(2)] by (auto simp: entries_ok_def)
  note sp = charge_entry_spec[OF e order_refl assms(3,4), of ch', unfolded assms(5) fst_conv snd_conv]
  have "entries_ok c now (put_entry worker e' es)" using put_entry_ok[OF assms(1)] sp by blast
  then show ?thesis using sp assms(2) by (auto simp: credit_def map_of_put)
qed

lemma charge_at_spec:
  assumes "config_ok c" "entries_ok c t es" "t \<le> now" "in_u64 now" "0 \<le> cost_of ch"
    and "charge_at c worker now ch es = (res, es')"
  shows "entries_ok c now es' \<and>
    (res = Err ''workers'' \<or> (res = Ok ()) = (cost_of ch \<le> credit c es worker ch now)) \<and>
    credit c es' w ch' now =
      credit c es w ch' now - (if res = Ok () \<and> w = worker \<and> category ch = category ch' then cost_of ch else 0)"
proof (cases "map_of es worker")
  case (Some e)
  obtain ok e' where ce: "charge_entry e now ch = (ok, e')" by fastforce
  have "entries_ok c now es" using assms(2,3) by (auto simp: entries_ok_def entry_ok_def of_config_def)
  from charge_at_present[OF this Some assms(4,5) ce, of w ch'] show ?thesis
    using assms(6) Some ce by (auto simp: charge_at_def)
next
  case None
  define kept where "kept = retain_entries c now es"
  note ret = retain_entries_ok[OF assms(2-4), folded kept_def]
  have absent: "map_of kept worker = None" using None assms(2)
    by (simp add: kept_def map_of_retain entries_ok_def)
  show ?thesis
  proof (cases "length kept \<ge> wc_max_workers c")
    case True
    then show ?thesis using assms(6) None ret[of w ch'] by (auto simp: charge_at_def Let_def kept_def)
  next
    case False
    define es1 where "es1 = kept @ [(worker, new_entry c now)]"
    obtain ok e' where ce: "charge_entry (new_entry c now) now ch = (ok, e')" by fastforce
    have look: "map_of es1 k = (if k = worker then Some (new_entry c now) else map_of kept k)" for k
      using absent by (auto simp: es1_def map_add_def split: option.split)
    have same: "credit c es1 k x now = credit c es k x now" for k x
    proof (cases "k = worker")
      case True
      then show ?thesis by (simp add: credit_def look None avail_new)
    next
      case False
      then have "credit c es1 k x now = credit c kept k x now" by (simp add: credit_def look)
      also have "\<dots> = credit c es k x now" using ret[of k x] by blast
      finally show ?thesis .
    qed
    have "entry_ok c now (new_entry c now)" using new_entry_ok[OF assms(1)] assms(4) by (simp add: in_u64_def)
    moreover have "worker \<notin> fst ` set kept" using absent by (simp add: map_of_eq_None_iff)
    ultimately have es1: "entries_ok c now es1"
      using ret[of w ch'] False by (auto simp: es1_def entries_ok_def)
    have new: "map_of es1 worker = Some (new_entry c now)" by (simp add: look)
    have run: "res = (if ok then Ok () else Err (category ch))" "es' = put_entry worker e' es1"
      using assms(6) None False ce new by (auto simp: charge_at_def Let_def kept_def[symmetric] es1_def[symmetric])
    show ?thesis
      using charge_at_present[OF es1 new assms(4,5) ce, of w ch'] unfolding run same by (cases ok) simp_all
  qed
qed

section \<open>Properties\<close>

text \<open>A history of charges by any workers, with the cost one worker was granted for one resource.\<close>

fun charges_run :: "worker_budget_config \<Rightarrow> int \<Rightarrow> charge \<Rightarrow> (int \<times> int \<times> charge) list \<Rightarrow> entries \<Rightarrow> int \<times> entries" where
  "charges_run c w res [] es = (0, es)"
| "charges_run c w res ((worker, now, ch) # ops) es =
    (case charge_at c worker now ch es of (r, es1) \<Rightarrow>
      case charges_run c w res ops es1 of (granted, es2) \<Rightarrow>
        ((if r = Ok () \<and> worker = w \<and> category ch = category res then cost_of ch else 0) + granted, es2))"

lemma credit_later:
  assumes "config_ok c" "entries_ok c t es" "t \<le> now" "now \<le> t'"
  shows "credit c es w ch t' \<le> credit c es w ch now + (t' - now) * bc_refill_per_second (config_of ch c)"
proof (cases "map_of es w")
  case None
  then show ?thesis using config_positive[OF assms(1), of ch] assms(4) by (simp add: credit_def bucket_positive_def)
next
  case (Some e)
  have "of_config (config_of ch c) t (bucket_of ch e)"
    using entry_ok_bucket assms(2) map_of_SomeD[OF Some] by (auto simp: entries_ok_def)
  then have "avail (bucket_of ch e) t' = min (bu_capacity (bucket_of ch e))
      (avail (bucket_of ch e) now + (t' - now) * bc_refill_per_second (config_of ch c))"
    using avail_later[of "bucket_of ch e" now t'] assms(3,4) by (auto simp: of_config_def)
  then show ?thesis using Some by (simp add: credit_def)
qed

lemma credit_bounds:
  assumes "config_ok c" "entries_ok c t es"
  shows "0 \<le> credit c es w ch now \<and> credit c es w ch now \<le> bc_capacity (config_of ch c)"
proof (cases "map_of es w")
  case None
  then show ?thesis using config_positive[OF assms(1), of ch] by (simp add: credit_def bucket_positive_def)
next
  case (Some e)
  have "of_config (config_of ch c) t (bucket_of ch e)"
    using entry_ok_bucket assms(2) map_of_SomeD[OF Some] by (auto simp: entries_ok_def)
  then show ?thesis using Some avail_nonneg avail_le_capacity[of "bucket_of ch e" now]
    by (auto simp: credit_def of_config_def)
qed

lemma charges_run_bound:
  assumes "config_ok c" "entries_ok c s es" "sorted (s # map (\<lambda>(_, now, _). now) ops @ [e])"
    and "\<forall>(_, now, ch) \<in> set ops. in_u64 now \<and> 0 \<le> cost_of ch" and "charges_run c w res ops es = (granted, es')"
  shows "granted \<le> credit c es w res s + (e - s) * bc_refill_per_second (config_of res c) \<and>
    (\<exists>t. entries_ok c t es')"
  using assms(2-)
proof (induction ops arbitrary: es s granted)
  case Nil
  then have "0 \<le> credit c es w res s" "s \<le> e" using credit_bounds[OF assms(1)] by auto
  then show ?case using Nil config_positive[OF assms(1), of res] by (auto simp: bucket_positive_def)
next
  case (Cons op ops)
  obtain worker now ch where op: "op = (worker, now, ch)" by (cases op)
  obtain r es1 where st: "charge_at c worker now ch es = (r, es1)" by fastforce
  obtain g where g: "charges_run c w res ops es1 = (g, es')"
    "granted = (if r = Ok () \<and> worker = w \<and> category ch = category res then cost_of ch else 0) + g"
    using Cons.prems(4) op st by (auto split: prod.splits)
  have tm: "s \<le> now" "in_u64 now" "0 \<le> cost_of ch" using Cons.prems(2,3) op by auto
  note sp = charge_at_spec[OF assms(1) Cons.prems(1) tm st, of w res]
  have "g \<le> credit c es1 w res now + (e - now) * bc_refill_per_second (config_of res c) \<and> (\<exists>t. entries_ok c t es')"
    using Cons.IH[OF _ _ _ g(1), of now] sp Cons.prems(2,3) op by auto
  moreover have "credit c es w res now \<le> credit c es w res s + (now - s) * bc_refill_per_second (config_of res c)"
    by (rule credit_later[OF assms(1) Cons.prems(1) order_refl tm(1)])
  ultimately show ?case using sp g(2) by (auto simp: algebra_simps split: if_splits)
qed

text \<open>
  C21: A single bucket never grants more than its burst and its refill: whatever the order of the
  clock readings, also when they run backwards or the refill overflows a 64-bit word, the
  costs a fresh bucket admits add up to at most its capacity plus its rate times the seconds
  by which its clock advanced, and its balance stays between zero and its capacity.
\<close>

theorem bucket_rate_limit:
  assumes "bucket_positive k" "bc_capacity k \<le> u64_max" "in_u64 start"
    and "\<forall>(now, cost) \<in> set ops. in_u64 now \<and> 0 \<le> cost"
  shows "case admits_run (budget_new k start) ops of (spent, b) \<Rightarrow>
    spent \<le> bc_capacity k + (bu_last b - start) * bc_refill_per_second k \<and>
    0 \<le> bu_remaining b \<and> bu_remaining b \<le> bc_capacity k \<and> start \<le> bu_last b"
proof -
  have "budget_ok (budget_new k start)"
    using assms(1-3) by (simp add: budget_ok_def budget_new_def bucket_positive_def in_u64_def)
  note cons = admits_run_conserves[OF this assms(4)]
  obtain spent b where run: "admits_run (budget_new k start) ops = (spent, b)" by fastforce
  have k: "bu_capacity (budget_new k start) = bc_capacity k" "bu_remaining (budget_new k start) = bc_capacity k"
    "bu_refill_per_second (budget_new k start) = bc_refill_per_second k" "bu_last (budget_new k start) = start"
    by (simp_all add: budget_new_def)
  show ?thesis using cons unfolding run prod.case k by (simp add: budget_ok_def)
qed

theorem bucket_rate_limit_witness:
  "admits_run (budget_new \<lparr>bc_capacity = 10, bc_refill_per_second = 2\<rparr> 5) [(5, 8), (6, 5), (3, 2), (8, 6)] =
     (16, \<lparr>bu_capacity = 10, bu_remaining = 0, bu_refill_per_second = 2, bu_last = 8\<rparr>) \<and>
   (16 :: int) \<le> 10 + (8 - 5) * 2"
proof
  let ?ops = "[(5, 8), (6, 5), (3, 2), (8, 6)] :: (int \<times> int) list"
  show run: "admits_run (budget_new \<lparr>bc_capacity = 10, bc_refill_per_second = 2\<rparr> 5) ?ops =
     (16, \<lparr>bu_capacity = 10, bu_remaining = 0, bu_refill_per_second = 2, bu_last = 8\<rparr>)"
    by code_simp
  have "bucket_positive \<lparr>bc_capacity = 10, bc_refill_per_second = 2\<rparr>" "\<forall>(now, cost) \<in> set ?ops. in_u64 now \<and> 0 \<le> cost"
    by (simp_all add: bucket_positive_def i64_bounds)
  from bucket_rate_limit[OF this(1) _ _ this(2), of 5, unfolded run] show "(16 :: int) \<le> 10 + (8 - 5) * 2"
    by (simp add: i64_bounds)
qed

text \<open>
  C22: The table of workers implements one never-forgetting ledger. At non-decreasing times, a charge
  is granted exactly when the worker's credit for that resource covers it, unless the table is full of
  other workers; a granted charge lowers exactly that credit by its cost. Evicting idle entries and
  creating new ones never changes any worker's credit, and the table never exceeds its bound.
\<close>

theorem charge_at_ledger:
  assumes "config_ok c" "entries_ok c t es" "t \<le> now" "in_u64 now" "0 \<le> cost_of ch"
    and "charge_at c worker now ch es = (res, es')"
  shows "(res = Err ''workers'' \<or> res = (if cost_of ch \<le> credit c es worker ch now then Ok () else Err (category ch))) \<and>
    (\<forall>w ch'. credit c es' w ch' now =
      credit c es w ch' now - (if res = Ok () \<and> w = worker \<and> category ch = category ch' then cost_of ch else 0)) \<and>
    length es' \<le> wc_max_workers c \<and> entries_ok c now es'"
proof -
  have "res \<in> {Ok (), Err ''workers'', Err (category ch)}"
    using assms(6) by (auto simp: charge_at_def Let_def split: prod.splits if_splits)
  then show ?thesis using charge_at_spec[OF assms] by (auto simp: entries_ok_def)
qed

theorem charge_at_ledger_witness:
  "fst (charge_at worker_budget_config_default 7 3 CLease []) = Ok () \<and>
   credit worker_budget_config_default (snd (charge_at worker_budget_config_default 7 3 CLease [])) 7 CLease 3 = 59"
proof -
  have c: "config_ok worker_budget_config_default"
    by (simp add: config_ok_def worker_budget_config_default_def worker_budget_config_validate_def
        bucket_positive_def i64_bounds)
  have e: "entries_ok worker_budget_config_default 0 []" by (simp add: entries_ok_def)
  obtain res es' where run: "charge_at worker_budget_config_default 7 3 CLease [] = (res, es')" by fastforce
  have full: "credit worker_budget_config_default [] 7 CLease 3 = 60"
    by (simp add: credit_def config_of_def worker_budget_config_default_def)
  have "res \<noteq> Err ''workers''"
    using run by (auto simp: charge_at_def retain_entries_def worker_budget_config_default_def Let_def
        split: prod.splits if_splits)
  then show ?thesis
    using charge_at_ledger[OF c e _ _ _ run] full run by (auto simp: i64_bounds cost_of_def)
qed

text \<open>
  C23: No worker exceeds its budget over any window. From any state of the table, over any
  interleaving of charges by any workers at non-decreasing times between \<open>s\<close> and \<open>e\<close>, the charges
  one worker is granted for one resource add up to at most the capacity plus the rate times
  the length of the window.
\<close>

theorem worker_rate_limit:
  assumes "config_ok c" "entries_ok c s es" "sorted (s # map (\<lambda>(_, now, _). now) ops @ [e])"
    and "\<forall>(_, now, ch) \<in> set ops. in_u64 now \<and> 0 \<le> cost_of ch"
  shows "fst (charges_run c w res ops es) \<le>
    bc_capacity (config_of res c) + (e - s) * bc_refill_per_second (config_of res c)"
proof -
  obtain granted es' where run: "charges_run c w res ops es = (granted, es')" by fastforce
  have "granted \<le> credit c es w res s + (e - s) * bc_refill_per_second (config_of res c)"
    using charges_run_bound[OF assms run] by blast
  moreover have "credit c es w res s \<le> bc_capacity (config_of res c)"
    using credit_bounds[OF assms(1,2)] by blast
  ultimately show ?thesis using run by simp
qed

theorem worker_rate_limit_witness:
  "fst (charges_run worker_budget_config_default 7 CLease [(7, 1, CLease), (8, 1, CLease), (7, 2, CRequest)] []) \<le> 62"
proof -
  have "config_ok worker_budget_config_default"
    by (simp add: config_ok_def worker_budget_config_default_def worker_budget_config_validate_def
        bucket_positive_def i64_bounds)
  from worker_rate_limit[OF this, of 0 "[]" "[(7, 1, CLease), (8, 1, CLease), (7, 2, CRequest)]" 2 7 CLease]
  show ?thesis by (simp add: entries_ok_def i64_bounds cost_of_def config_of_def worker_budget_config_default_def)
qed

end
