(* ===== verification/Ingress.thy ===== *)
theory Ingress
  imports Request_Budget "HOL-Library.Code_Target_Nat"
begin

text \<open>
  Admission of request bodies (\<open>ingress/mod.rs\<close>, \<open>request_budget.rs\<close>): the growing,
  bounded and wiped buffer, the operator's collector and \<open>enforce\<close>, which charges every chunk
  before it is buffered. A chunk that fails to arrive is \<open>None\<close>; each chunk comes with the
  clock reading of its charge. Emitted security events are returned.
\<close>

section \<open>The body buffer\<close>

type_synonym bytes = "nat list"

datatype status_code = TOO_MANY_REQUESTS | PAYLOAD_TOO_LARGE | BAD_REQUEST

datatype budget_resource = WorkerRequests | WorkerBytes | WorkerLeases | WorkerEntries | RequestBodyBytes

text \<open>The fields of the \<open>BudgetExhausted\<close> event the server fills.\<close>

record budget_event =
  be_worker :: "int option"
  be_resource :: budget_resource
  be_used :: "nat option"
  be_limit :: int

text \<open>What admission changes: the buckets, the event log and the memory it gives back.\<close>

record admission =
  ad_entries :: entries
  ad_events :: "budget_event list"
  ad_freed :: "bytes list"

definition BODY_CAP :: nat where "BODY_CAP = 2097152"

definition usize_max :: nat where "usize_max = 18446744073709551615"

record request_buffer =
  rb_allocation :: bytes
  rb_used :: nat

definition request_buffer_default :: request_buffer where
  "request_buffer_default = \<lparr>rb_allocation = [], rb_used = 0\<rparr>"

definition request_body_next_len :: "nat \<Rightarrow> nat \<Rightarrow> nat option" where
  "request_body_next_len used incoming =
    (if used + incoming > usize_max then None
     else if used + incoming \<le> BODY_CAP then Some (used + incoming) else None)"

function pow2_from :: "nat \<Rightarrow> nat \<Rightarrow> nat" where
  "pow2_from p n = (if n \<le> p \<or> p = 0 then p else pow2_from (2 * p) n)"
  by auto
termination by (relation "measure (\<lambda>(p, n). n - p)") auto

declare pow2_from.simps [simp del]

definition next_power_of_two :: "nat \<Rightarrow> nat" where
  "next_power_of_two n = pow2_from 1 n"

definition buffer_as_ref :: "request_buffer \<Rightarrow> bytes" where
  "buffer_as_ref b = take (rb_used b) (rb_allocation b)"

text \<open>\<open>Drop\<close> wipes the allocation before it is released.\<close>

definition zeroise :: "bytes \<Rightarrow> bytes" where
  "zeroise bs = map (\<lambda>_. 0) bs"

definition buffer_drop :: "request_buffer \<Rightarrow> bytes" where
  "buffer_drop b = zeroise (rb_allocation b)"

text \<open>\<open>append\<close> with the allocations it releases.\<close>

definition buffer_append :: "request_buffer \<Rightarrow> bytes \<Rightarrow> (request_buffer \<times> bytes list, status_code) result" where
  "buffer_append b chunk =
    and_then (ok_or (request_body_next_len (rb_used b) (length chunk)) PAYLOAD_TOO_LARGE)
     (\<lambda>required.
       let (b1, freed) =
         (if required > length (rb_allocation b)
          then let size = min (next_power_of_two required) BODY_CAP
               in (\<lparr>rb_allocation = buffer_as_ref b @ drop (rb_used b) (replicate size 0), rb_used = rb_used b\<rparr>,
                   [buffer_drop b])
          else (b, []))
       in Ok (b1\<lparr>rb_allocation := take (rb_used b1) (rb_allocation b1) @ chunk @ drop required (rb_allocation b1),
                  rb_used := required\<rparr>, freed))"

definition buffer_ok :: "request_buffer \<Rightarrow> bool" where
  "buffer_ok b \<longleftrightarrow> rb_used b \<le> length (rb_allocation b) \<and> length (rb_allocation b) \<le> BODY_CAP"

lemma pow2_from_ge: "0 < p \<Longrightarrow> n \<le> pow2_from p n"
proof (induction p n rule: pow2_from.induct)
  case (1 p n)
  then show ?case by (subst pow2_from.simps) auto
qed

lemma next_power_of_two_ge: "n \<le> next_power_of_two n"
  using pow2_from_ge[of 1 n] by (simp add: next_power_of_two_def)


lemma buffer_append_Ok:
  assumes "buffer_ok b" "buffer_append b chunk = Ok (b', freed)"
  shows "buffer_ok b' \<and> buffer_as_ref b' = buffer_as_ref b @ chunk \<and> rb_used b' = rb_used b + length chunk \<and>
    (\<forall>block \<in> set freed. \<forall>x \<in> set block. x = 0)"
proof -
  let ?r = "rb_used b + length chunk"
  have r: "?r \<le> BODY_CAP" using assms(2)
    by (auto simp: buffer_append_def and_then_Ok_iff ok_or_Ok_iff request_body_next_len_def split: if_splits)
  define b1 where "b1 = (if ?r > length (rb_allocation b)
      then \<lparr>rb_allocation = buffer_as_ref b @ drop (rb_used b) (replicate (min (next_power_of_two ?r) BODY_CAP) 0),
            rb_used = rb_used b\<rparr> else b)"
  have b1: "rb_used b1 = rb_used b" "buffer_as_ref b1 = buffer_as_ref b" "?r \<le> length (rb_allocation b1)"
    "length (rb_allocation b1) \<le> BODY_CAP"
    using assms(1) r next_power_of_two_ge[of ?r]
    by (auto simp: b1_def buffer_ok_def buffer_as_ref_def min_def)
  have b': "b' = b1\<lparr>rb_allocation := take (rb_used b1) (rb_allocation b1) @ chunk @ drop ?r (rb_allocation b1), rb_used := ?r\<rparr>"
    "freed = (if ?r > length (rb_allocation b) then [buffer_drop b] else [])"
    using assms(2) by (auto simp: buffer_append_def and_then_Ok_iff ok_or_Ok_iff request_body_next_len_def b1_def Let_def
        split: if_splits)
  show ?thesis using b1 assms(1) unfolding b'
    by (auto simp: buffer_ok_def buffer_as_ref_def buffer_drop_def zeroise_def)
qed

lemma buffer_append_Err_iff:
  "buffer_append b chunk = Err e \<longleftrightarrow> e = PAYLOAD_TOO_LARGE \<and> BODY_CAP < rb_used b + length chunk"
  by (auto simp: buffer_append_def and_then_Err_iff request_body_next_len_def Let_def BODY_CAP_def usize_max_def
      split: if_splits prod.splits)

section \<open>Charging and reading a body\<close>

definition emit :: "budget_event \<Rightarrow> admission \<Rightarrow> admission" where
  "emit ev s = s\<lparr>ad_events := ad_events s @ [ev]\<rparr>"

definition exhausted_resource :: "worker_budget_config \<Rightarrow> string \<Rightarrow> (budget_resource \<times> int) option" where
  "exhausted_resource c cat =
    (if cat = ''requests'' then Some (WorkerRequests, bc_capacity (wc_requests c))
     else if cat = ''bytes'' then Some (WorkerBytes, bc_capacity (wc_bytes c))
     else if cat = ''leases'' then Some (WorkerLeases, bc_capacity (wc_leases c))
     else if cat = ''workers'' then Some (WorkerEntries, int (wc_max_workers c))
     else None)"

definition charge_worker ::
  "worker_budget_config \<Rightarrow> int \<Rightarrow> int \<Rightarrow> charge \<Rightarrow> admission \<Rightarrow> (unit, status_code) result \<times> admission" where
  "charge_worker c worker now ch s =
    (case charge_at c worker now ch (ad_entries s) of (r, es) \<Rightarrow>
      let s1 = s\<lparr>ad_entries := es\<rparr> in
      case r of
        Ok u \<Rightarrow> (Ok (), s1)
      | Err cat \<Rightarrow> (Err TOO_MANY_REQUESTS,
          case exhausted_resource c cat of
            None \<Rightarrow> s1
          | Some (res, limit) \<Rightarrow>
              emit \<lparr>be_worker = Some worker, be_resource = res, be_used = None, be_limit = limit\<rparr> s1))"

definition release :: "request_buffer \<Rightarrow> admission \<Rightarrow> admission" where
  "release b s = s\<lparr>ad_freed := ad_freed s @ [buffer_drop b]\<rparr>"

definition lease_body_cap :: nat where "lease_body_cap = 8192"

text \<open>The loop of \<open>enforce\<close>. Every early return drops the buffer.\<close>

fun enforce_body ::
  "worker_budget_config \<Rightarrow> int \<Rightarrow> bool \<Rightarrow> (int \<times> bytes option) list \<Rightarrow> request_buffer \<Rightarrow> admission \<Rightarrow>
   (request_buffer, status_code) result \<times> admission" where
  "enforce_body c worker lease [] buffered s = (Ok buffered, s)"
| "enforce_body c worker lease ((now, arrived) # stream) buffered s =
    (case arrived of
       None \<Rightarrow> (Err BAD_REQUEST, release buffered s)
     | Some chunk \<Rightarrow>
        (case charge_worker c worker now (CBytes (int (length chunk))) s of
           (Err st, s1) \<Rightarrow> (Err st, release buffered s1)
         | (Ok _, s1) \<Rightarrow>
            if lease \<and> length chunk > lease_body_cap - length (buffer_as_ref buffered)
            then (Err PAYLOAD_TOO_LARGE, release buffered (emit
                  \<lparr>be_worker = Some worker, be_resource = RequestBodyBytes, be_used = None,
                   be_limit = int lease_body_cap\<rparr> s1))
            else (case buffer_append buffered chunk of
                Err st \<Rightarrow> (Err st, release buffered (emit
                  \<lparr>be_worker = Some worker, be_resource = RequestBodyBytes,
                   be_used = (let n = length (buffer_as_ref buffered) + length chunk in
                              if n > usize_max then None else Some n),
                   be_limit = int BODY_CAP\<rparr> s1))
              | Ok (b, freed) \<Rightarrow>
                  enforce_body c worker lease stream b (s1\<lparr>ad_freed := ad_freed s1 @ freed\<rparr>))))"

text \<open>\<open>now\<close> and \<open>now_lease\<close> are the clock readings of the two leading charges.\<close>

definition enforce ::
  "worker_budget_config \<Rightarrow> int \<Rightarrow> string \<Rightarrow> string \<Rightarrow> int \<Rightarrow> int \<Rightarrow> (int \<times> bytes option) list \<Rightarrow> admission \<Rightarrow>
   (request_buffer, status_code) result \<times> admission" where
  "enforce c worker http_method path now now_lease stream s =
    (case charge_worker c worker now CRequest s of
       (Err st, s1) \<Rightarrow> (Err st, s1)
     | (Ok _, s1) \<Rightarrow>
        let lease = (http_method = ''POST'' \<and> path = ''/v1/jobs/lease'') in
        case (if lease then charge_worker c worker now_lease CLease s1 else (Ok (), s1)) of
          (Err st, s2) \<Rightarrow> (Err st, s2)
        | (Ok _, s2) \<Rightarrow> enforce_body c worker lease stream request_buffer_default s2)"

text \<open>The operator's collector has no budget.\<close>

fun collect_operator_body_limited ::
  "bytes option list \<Rightarrow> request_buffer \<Rightarrow> nat \<Rightarrow> (request_buffer, status_code \<times> string) result" where
  "collect_operator_body_limited [] buffered limit = Ok buffered"
| "collect_operator_body_limited (arrived # stream) buffered limit =
    (case arrived of
       None \<Rightarrow> Err (BAD_REQUEST, ''reading request body'')
     | Some chunk \<Rightarrow>
        if limit < BODY_CAP \<and> length chunk > limit - rb_used buffered
        then Err (PAYLOAD_TOO_LARGE, ''request body exceeds its limit'')
        else (case buffer_append buffered chunk of
            Err status \<Rightarrow> Err (status, ''request body exceeds 2097152 bytes'')
          | Ok (b, _) \<Rightarrow> collect_operator_body_limited stream b limit))"

definition collect_operator_body :: "bytes option list \<Rightarrow> request_buffer \<Rightarrow> (request_buffer, status_code \<times> string) result" where
  "collect_operator_body stream buffered = collect_operator_body_limited stream buffered BODY_CAP"

section \<open>What admission guarantees\<close>

definition wiped :: "bytes list \<Rightarrow> bool" where
  "wiped blocks \<longleftrightarrow> (\<forall>block \<in> set blocks. \<forall>x \<in> set block. x = 0)"

lemma wiped_append [simp]: "wiped (xs @ ys) \<longleftrightarrow> wiped xs \<and> wiped ys"
  by (auto simp: wiped_def)

lemma wiped_Nil [simp]: "wiped []"
  by (simp add: wiped_def)

lemma wiped_drop [simp]: "wiped [buffer_drop b]"
  by (auto simp: wiped_def buffer_drop_def zeroise_def)

lemma admission_parts [simp]:
  "ad_events (release b s) = ad_events s" "ad_entries (release b s) = ad_entries s"
  "ad_freed (release b s) = ad_freed s @ [buffer_drop b]"
  "ad_events (emit ev s) = ad_events s @ [ev]" "ad_freed (emit ev s) = ad_freed s"
  "ad_entries (emit ev s) = ad_entries s"
  by (simp_all add: release_def emit_def)

lemma buffer_default_ok [simp]:
  "buffer_ok request_buffer_default" "buffer_as_ref request_buffer_default = []" "rb_used request_buffer_default = 0"
  by (simp_all add: request_buffer_default_def buffer_ok_def buffer_as_ref_def)

lemma buffer_ok_length: "buffer_ok b \<Longrightarrow> length (buffer_as_ref b) = rb_used b"
  by (simp add: buffer_ok_def buffer_as_ref_def)

lemma charge_at_Err: "fst (charge_at c w now ch es) = Err cat \<Longrightarrow> cat \<in> {category ch, ''workers''}"
  by (auto simp: charge_at_def Let_def split: if_splits prod.splits)

lemma charge_worker_cases:
  obtains (admitted) s1 where "charge_worker c w now ch s = (Ok (), s1)" "ad_events s1 = ad_events s" "ad_freed s1 = ad_freed s"
    | (refused) s1 ev where "charge_worker c w now ch s = (Err TOO_MANY_REQUESTS, s1)" "ad_events s1 = ad_events s @ [ev]"
        "be_worker ev = Some w" "ad_freed s1 = ad_freed s"
proof -
  obtain r es where ch: "charge_at c w now ch (ad_entries s) = (r, es)" by fastforce
  show thesis
  proof (cases r)
    case (Ok u)
    then show thesis using admitted[of "s\<lparr>ad_entries := es\<rparr>"] by (simp add: charge_worker_def ch)
  next
    case (Err cat)
    have "cat \<in> {''requests'', ''bytes'', ''leases'', ''workers''}"
      using charge_at_Err[of c w now ch "ad_entries s" cat] ch Err by (cases ch) auto
    then obtain res limit where "exhausted_resource c cat = Some (res, limit)"
      by (auto simp: exhausted_resource_def)
    then show thesis using Err refused[of "emit \<lparr>be_worker = Some w, be_resource = res, be_used = None, be_limit = limit\<rparr>
        (s\<lparr>ad_entries := es\<rparr>)"] by (simp add: charge_worker_def ch)
  qed
qed

text \<open>What a finished read means: the whole body, within its caps, or one refusal.\<close>

definition body_read ::
  "int \<Rightarrow> bool \<Rightarrow> bytes \<Rightarrow> bytes option list \<Rightarrow> admission \<Rightarrow> (request_buffer, status_code) result \<Rightarrow> admission \<Rightarrow> bool" where
  "body_read worker lease have stream s r s' \<longleftrightarrow>
    (case r of
       Ok b \<Rightarrow> None \<notin> set stream \<and> buffer_as_ref b = have @ concat (map the stream) \<and>
         length (buffer_as_ref b) \<le> (if lease then max (length have) lease_body_cap else BODY_CAP) \<and> ad_events s' = ad_events s
     | Err BAD_REQUEST \<Rightarrow> None \<in> set stream \<and> ad_events s' = ad_events s
     | Err _ \<Rightarrow> (\<exists>ev. ad_events s' = ad_events s @ [ev] \<and> be_worker ev = Some worker)) \<and>
    (wiped (ad_freed s) \<longrightarrow> wiped (ad_freed s'))"

lemma enforce_body_read:
  assumes "buffer_ok b" "enforce_body c worker lease stream b s = (r, s')"
  shows "body_read worker lease (buffer_as_ref b) (map snd stream) s r s'"
  using assms
proof (induction c worker lease stream b s arbitrary: r s' rule: enforce_body.induct)
  case (1 c worker lease b s)
  then show ?case by (auto simp: body_read_def buffer_ok_def buffer_as_ref_def)
next
  case (2 c worker lease now arrived stream b s)
  show ?case
  proof (cases arrived)
    case None
    then show ?thesis using 2(3) by (auto simp: body_read_def)
  next
    case (Some chunk)
    show ?thesis
    proof (cases rule: charge_worker_cases[of c worker now "CBytes (int (length chunk))" s])
      case (refused s1 ev)
      then show ?thesis using 2(3) Some by (auto simp: body_read_def)
    next
      case (admitted s1)
      show ?thesis
      proof (cases "lease \<and> length chunk > lease_body_cap - length (buffer_as_ref b)")
        case True
        then show ?thesis using 2(3) Some admitted by (auto simp: body_read_def)
      next
        case False
        show ?thesis
        proof (cases "buffer_append b chunk")
          case (Err st)
          then have "st = PAYLOAD_TOO_LARGE" by (simp add: buffer_append_Err_iff)
          then show ?thesis using 2(3) Some admitted False Err by (auto simp: body_read_def)
        next
          case (Ok p)
          obtain b1 freed where p: "p = (b1, freed)" by fastforce
          have b1: "buffer_ok b1" "buffer_as_ref b1 = buffer_as_ref b @ chunk" "wiped freed"
            using buffer_append_Ok[OF 2(2)] Ok p by (auto simp: wiped_def)
          let ?s2 = "s1\<lparr>ad_freed := ad_freed s1 @ freed\<rparr>"
          have run: "enforce_body c worker lease stream b1 ?s2 = (r, s')"
            using 2(3) Some admitted False Ok p by simp
          have "body_read worker lease (buffer_as_ref b1) (map snd stream) ?s2 r s'"
            by (rule 2(1)[OF Some admitted(1)[symmetric] refl False Ok p[symmetric] b1(1) run])
          then show ?thesis using Some admitted False b1
            by (auto simp: body_read_def split: result.splits status_code.splits if_splits)
        qed
      qed
    qed
  qed
qed

lemma collect_reads:
  assumes "buffer_ok b" "rb_used b \<le> limit"
  shows "if rb_used b + length (concat chunks) \<le> min limit BODY_CAP
    then \<exists>b'. collect_operator_body_limited (map Some chunks) b limit = Ok b' \<and> buffer_as_ref b' = buffer_as_ref b @ concat chunks
    else collect_operator_body_limited (map Some chunks) b limit = Err (PAYLOAD_TOO_LARGE,
         if limit < BODY_CAP then ''request body exceeds its limit'' else ''request body exceeds 2097152 bytes'')"
  using assms
proof (induction chunks arbitrary: b)
  case Nil
  then show ?case by (auto simp: buffer_ok_def)
next
  case (Cons chunk chunks)
  show ?case
  proof (cases "rb_used b + length chunk \<le> min limit BODY_CAP")
    case False
    then consider (limit) "limit < BODY_CAP" "length chunk > limit - rb_used b"
      | (cap) "\<not> limit < BODY_CAP" "buffer_append b chunk = Err PAYLOAD_TOO_LARGE"
      using Cons.prems by (cases "limit < BODY_CAP") (auto simp: buffer_append_Err_iff)
    then show ?thesis using False by cases auto
  next
    case True
    then obtain b1 freed where b1: "buffer_append b chunk = Ok (b1, freed)"
      by (cases "buffer_append b chunk") (auto simp: buffer_append_Err_iff)
    note ok = buffer_append_Ok[OF Cons.prems(1) b1]
    have "collect_operator_body_limited (map Some (chunk # chunks)) b limit = collect_operator_body_limited (map Some chunks) b1 limit"
      using True b1 by auto
    then show ?thesis using Cons.IH[of b1] True ok by (auto simp: add.assoc)
  qed
qed

text \<open>
  C24: \<open>enforce\<close> hands the handler the request body as it arrived and nothing else: on
  success every chunk arrived, the captured bytes are their concatenation, they fit in 2 MiB,
  a lease request fits in 8192 bytes, and no event was emitted. A broken stream is the only
  source of 400; every other refusal emits exactly one event that names the worker. On every
  path each allocation the buffer gives back has been wiped.\<close>

theorem enforce_correct:
  assumes "enforce c worker m path now now_lease stream s = (r, s')" "ad_freed s = []"
  shows "(case r of
       Ok b \<Rightarrow> None \<notin> set (map snd stream) \<and> buffer_as_ref b = concat (map (the \<circ> snd) stream) \<and>
         length (buffer_as_ref b) \<le> (if m = ''POST'' \<and> path = ''/v1/jobs/lease'' then 8192 else 2097152) \<and>
         ad_events s' = ad_events s
     | Err BAD_REQUEST \<Rightarrow> None \<in> set (map snd stream) \<and> ad_events s' = ad_events s
     | Err _ \<Rightarrow> (\<exists>ev. ad_events s' = ad_events s @ [ev] \<and> be_worker ev = Some worker)) \<and>
    wiped (ad_freed s')"
proof (cases rule: charge_worker_cases[of c worker now CRequest s])
  case (refused s1 ev)
  then show ?thesis using assms by (auto simp: enforce_def)
next
  case (admitted s1)
  define lease where "lease = (m = ''POST'' \<and> path = ''/v1/jobs/lease'')"
  have done_read: ?thesis
    if "enforce_body c worker lease stream request_buffer_default s2 = (r, s')" "ad_events s2 = ad_events s" "ad_freed s2 = []"
    for s2
    using enforce_body_read[OF buffer_default_ok(1) that(1)] that(2,3)
    by (auto simp: body_read_def lease_def[symmetric] comp_def lease_body_cap_def BODY_CAP_def
        split: result.splits status_code.splits)
  show ?thesis
  proof (cases lease)
    case False
    then show ?thesis using admitted assms done_read[of s1] by (simp add: enforce_def lease_def[symmetric])
  next
    case True
    show ?thesis
    proof (cases rule: charge_worker_cases[of c worker now_lease CLease s1])
      case (admitted s2)
      then show ?thesis using \<open>charge_worker c worker now CRequest s = _\<close> \<open>ad_events s1 = _\<close> \<open>ad_freed s1 = _\<close>
          assms True done_read[of s2] by (simp add: enforce_def lease_def[symmetric])
    next
      case (refused s2 ev)
      then show ?thesis using admitted assms True by (auto simp: enforce_def lease_def[symmetric])
    qed
  qed
qed

definition admission_start :: admission where
  "admission_start = \<lparr>ad_entries = [], ad_events = [], ad_freed = []\<rparr>"

theorem enforce_correct_witness:
  "\<exists>b s'. enforce worker_budget_config_default 7 ''POST'' ''/v1/jobs/lease'' 3 3
       [(3, Some [1, 2, 3]), (4, Some [4, 5])] admission_start = (Ok b, s') \<and>
     buffer_as_ref b = [1, 2, 3, 4, 5] \<and> ad_events s' = [] \<and> ad_freed s' = [[], [0, 0, 0, 0]] \<and> wiped (ad_freed s')"
proof -
  let ?run = "enforce worker_budget_config_default 7 ''POST'' ''/v1/jobs/lease'' 3 3
       [(3, Some [1, 2, 3]), (4, Some [4, 5])] admission_start"
  have b: "fst ?run = Ok \<lparr>rb_allocation = [1, 2, 3, 4, 5, 0, 0, 0], rb_used = 5\<rparr>" by code_simp
  have f: "ad_freed (snd ?run) = [[], [0, 0, 0, 0]]" by code_simp
  have run: "?run = (Ok \<lparr>rb_allocation = [1, 2, 3, 4, 5, 0, 0, 0], rb_used = 5\<rparr>, snd ?run)"
    by (rule prod_eqI) (simp_all only: b fst_conv snd_conv)
  have "ad_freed admission_start = []" "ad_events admission_start = []" by (simp_all add: admission_start_def)
  with enforce_correct[OF run] have
    "buffer_as_ref \<lparr>rb_allocation = [1, 2, 3, 4, 5, 0, 0, 0], rb_used = 5\<rparr> = [1, 2, 3, 4, 5]"
    "ad_events (snd ?run) = []" "wiped (ad_freed (snd ?run))" by (simp_all del: enforce_body.simps)
  then show ?thesis by (intro exI conjI) (rule run, assumption, assumption, rule f, assumption)
qed

text \<open>
  C25: Reading an operator's body under a limit is exactly a length test on the whole body: a
  stream of chunks that all arrive is accepted if and only if their total length is at most the
  smaller of the limit and 2 MiB, then yields their concatenation, and otherwise is refused
  with 413 and the message of the limit that was exceeded, however the body was cut into
  chunks.\<close>

theorem operator_body_chunking:
  "if length (concat chunks) \<le> min limit 2097152
   then \<exists>b. collect_operator_body_limited (map Some chunks) request_buffer_default limit = Ok b \<and> buffer_as_ref b = concat chunks
   else collect_operator_body_limited (map Some chunks) request_buffer_default limit = Err (PAYLOAD_TOO_LARGE,
     if limit < 2097152 then ''request body exceeds its limit'' else ''request body exceeds 2097152 bytes'')"
  using collect_reads[OF buffer_default_ok(1), of limit chunks] by (auto simp: BODY_CAP_def split: if_splits)

end
