(* ===== verification/Bounded_Text.thy ===== *)
theory Bounded_Text
  imports Prelude "HOL-Library.Code_Target_Nat"
begin

text \<open>
  Validated field text (\<open>loupe-core/src/text\<close>): character policy, length caps, prose and exact
  fields, identifiers, anchors and repository paths. A \<open>str\<close> is the list of its code points, its
  bytes are \<open>utf8s\<close>. The tables of the crates \<open>unicode_general_category\<close> and
  \<open>unicode_normalization\<close> and the lower-case table are the parameter \<open>unicode\<close>.
\<close>

section \<open>Code points and bytes\<close>

type_synonym ustr = "nat list"

definition ascii :: "string \<Rightarrow> ustr" where
  "ascii s = map of_char s"

definition is_scalar :: "nat \<Rightarrow> bool" where
  "is_scalar cp \<longleftrightarrow> cp < 55296 \<or> (57344 \<le> cp \<and> cp \<le> 1114111)"

definition utf8 :: "nat \<Rightarrow> nat list" where
  "utf8 cp =
    (if cp < 128 then [cp]
     else if cp < 2048 then [192 + cp div 64, 128 + cp mod 64]
     else if cp < 65536 then [224 + cp div 4096, 128 + cp div 64 mod 64, 128 + cp mod 64]
     else [240 + cp div 262144, 128 + cp div 4096 mod 64, 128 + cp div 64 mod 64, 128 + cp mod 64])"

definition utf8s :: "ustr \<Rightarrow> nat list" where
  "utf8s s = concat (map utf8 s)"

text \<open>\<open>char::is_whitespace\<close>: the code points with the property White_Space.\<close>

definition is_whitespace :: "nat \<Rightarrow> bool" where
  "is_whitespace c \<longleftrightarrow> (9 \<le> c \<and> c \<le> 13) \<or> c \<in> {32, 133, 160, 5760, 8232, 8233, 8239, 8287, 12288} \<or>
     (8192 \<le> c \<and> c \<le> 8202)"

definition trim :: "ustr \<Rightarrow> ustr" where
  "trim s = rev (dropWhile is_whitespace (rev (dropWhile is_whitespace s)))"

fun contains_str :: "ustr \<Rightarrow> ustr \<Rightarrow> bool" where
  "contains_str pat [] \<longleftrightarrow> pat = []"
| "contains_str pat (c # cs) \<longleftrightarrow> take (length pat) (c # cs) = pat \<or> contains_str pat cs"

text \<open>\<open>split\<close> on one separator: always at least one piece.\<close>

fun split_on :: "nat \<Rightarrow> ustr \<Rightarrow> ustr list" where
  "split_on sep [] = [[]]"
| "split_on sep (c # cs) =
    (if c = sep then [] # split_on sep cs
     else (case split_on sep cs of [] \<Rightarrow> [[c]] | p # ps \<Rightarrow> (c # p) # ps))"

function split_whitespace :: "ustr \<Rightarrow> ustr list" where
  "split_whitespace [] = []"
| "split_whitespace (c # cs) =
    (if is_whitespace c then split_whitespace cs
     else (c # takeWhile (\<lambda>x. \<not> is_whitespace x) cs) #
          split_whitespace (dropWhile (\<lambda>x. \<not> is_whitespace x) cs))"
  by pat_completeness auto
termination by (relation "measure length") (auto simp: le_imp_less_Suc length_dropWhile_le)

definition join_spaces :: "ustr list \<Rightarrow> ustr" where
  "join_spaces ws = concat (map (\<lambda>(i, w). if i = 0 then w else 32 # w) (enumerate 0 ws))"

section \<open>Policies\<close>

datatype normalization = Semantic | Exact

datatype whitespace_rule = Prose | Significant

datatype text_rule = RCharacter | RChars | RBytes | RWhitespace | REmpty | RIdentifier
  | RIdentityLocation | RIdentityHash | RIdentityTransientId | RPath
  | RJsonSyntax | RJsonDepth | RJsonNodes | RJsonDuplicateKey

record text_error =
  te_field :: string
  te_rule :: text_rule
  te_code_point :: "nat option"

definition text_error_new :: "string \<Rightarrow> text_rule \<Rightarrow> text_error" where
  "text_error_new field rule = \<lparr>te_field = field, te_rule = rule, te_code_point = None\<rparr>"

record text_policy =
  tp_field :: string
  tp_max_chars :: nat
  tp_max_bytes :: nat
  tp_multiline :: bool
  tp_allow_empty :: bool
  tp_normalization :: normalization
  tp_whitespace :: whitespace_rule
  tp_allow_cr :: bool

definition LEGACY_TEXT_MAX_BYTES :: nat where "LEGACY_TEXT_MAX_BYTES = 2097152"

definition exact_text :: "string \<Rightarrow> bool \<Rightarrow> text_policy" where
  "exact_text field multi =
    \<lparr>tp_field = field, tp_max_chars = LEGACY_TEXT_MAX_BYTES, tp_max_bytes = LEGACY_TEXT_MAX_BYTES,
     tp_multiline = multi, tp_allow_empty = True, tp_normalization = Exact, tp_whitespace = Significant,
     tp_allow_cr = multi\<rparr>"

definition prose_text :: "string \<Rightarrow> nat \<Rightarrow> bool \<Rightarrow> text_policy" where
  "prose_text field chars multi =
    \<lparr>tp_field = field, tp_max_chars = chars, tp_max_bytes = chars * 2, tp_multiline = multi,
     tp_allow_empty = False, tp_normalization = Semantic, tp_whitespace = Prose, tp_allow_cr = False\<rparr>"

definition exact_texts :: "text_policy list" where
  "exact_texts = map (\<lambda>(field, multi). exact_text field multi)
    [(''finding_title'', False), (''finding_description'', True), (''poc_unified'', True),
     (''patch_unified'', True), (''verdict_notes'', True), (''verdict_reason'', True),
     (''patch_notes'', True), (''scanner_id'', False), (''scanner_extension'', False),
     (''scanner_exclude_pattern'', False), (''cwe'', False), (''finding_fingerprint'', False),
     (''worker_name'', False), (''lease_capability_name'', False), (''github_app_slug'', False),
     (''revision'', False), (''audit_common_name'', False), (''job_diagnostic'', True),
     (''job_kind'', False), (''repo_host'', False), (''repo_owner'', False), (''repo_name'', False),
     (''clone_url'', False), (''git_branch'', False), (''mail_address'', False),
     (''mail_subject_prefix'', False)]"

definition texts :: "text_policy list" where
  "texts = map (\<lambda>(field, chars, multi). prose_text field chars multi)
    [(''title'', 200, False), (''objective'', 2000, True), (''reason'', 1000, False),
     (''reason'', 500, False), (''argument'', 4000, True), (''symbol'', 256, False),
     (''media_type'', 100, False), (''original_name'', 512, False), (''identity_anchor'', 300, False),
     (''identity_instance_key'', 200, False), (''title'', 100, False), (''description'', 16384, True),
     (''security_model_notes'', 8000, True), (''rejection_argument'', 8000, True),
     (''hardening_argument'', 8000, True), (''attacker_source'', 2000, True), (''control'', 2000, True),
     (''sink'', 2000, True), (''reachable_path'', 4000, True), (''trust_boundary'', 1000, True),
     (''counterevidence'', 4000, True), (''assumptions_gaps'', 4000, True), (''symbol'', 200, False),
     (''revalidation_rationale'', 2000, True), (''e2e_rationale'', 2000, True), (''blocker'', 2000, True),
     (''notes'', 4000, True), (''continuation'', 4000, True), (''duplicate_rationale'', 1000, True),
     (''defer_reason'', 1000, True), (''retry_explanation'', 1000, True)]"

definition json_leaf :: text_policy where
  "json_leaf =
    \<lparr>tp_field = ''json_leaf'', tp_max_chars = 4000, tp_max_bytes = 8000, tp_multiline = True,
     tp_allow_empty = True, tp_normalization = Semantic, tp_whitespace = Prose, tp_allow_cr = False\<rparr>"

section \<open>The character policy\<close>

datatype general_category = Control | Format | Unassigned | PrivateUse | LineSeparator | ParagraphSeparator | OtherCategory

record unicode =
  uc_category :: "nat \<Rightarrow> general_category"
  uc_nfc :: "ustr \<Rightarrow> ustr"
  uc_lower :: "ustr \<Rightarrow> ustr"

definition rejects_code_point :: "unicode \<Rightarrow> nat \<Rightarrow> bool" where
  "rejects_code_point U cp \<longleftrightarrow>
    \<not> is_scalar cp \<or>
    uc_category U cp \<in> {Control, Format, Unassigned, PrivateUse, LineSeparator, ParagraphSeparator} \<or>
    (64976 \<le> cp \<and> cp \<le> 65007) \<or> cp mod 65536 \<ge> 65534"

fun characters :: "unicode \<Rightarrow> string \<Rightarrow> ustr \<Rightarrow> bool \<Rightarrow> bool \<Rightarrow> (unit, text_error) result" where
  "characters U field [] multiline allow_cr = Ok ()"
| "characters U field (c # cs) multiline allow_cr =
    (if multiline \<and> (c = 10 \<or> c = 9 \<or> (allow_cr \<and> c = 13)) then characters U field cs multiline allow_cr
     else if rejects_code_point U c
     then Err \<lparr>te_field = field, te_rule = RCharacter, te_code_point = Some c\<rparr>
     else characters U field cs multiline allow_cr)"

text \<open>\<open>byte & 0xc0 != 0x80\<close> on a byte.\<close>

definition count_within :: "nat list \<Rightarrow> nat \<Rightarrow> nat \<Rightarrow> (unit, text_rule) result" where
  "count_within bytes max_chars max_bytes =
    (if length (filter (\<lambda>b. b div 64 mod 4 \<noteq> 2) bytes) > max_chars then Err RChars
     else if length bytes > max_bytes then Err RBytes
     else Ok ())"

definition limits :: "text_policy \<Rightarrow> ustr \<Rightarrow> (unit, text_error) result" where
  "limits P t =
    (case count_within (utf8s t) (tp_max_chars P) (tp_max_bytes P) of
       Ok u \<Rightarrow> Ok u | Err rule \<Rightarrow> Err (text_error_new (tp_field P) rule))"

fun fold_crlf :: "ustr \<Rightarrow> ustr" where
  "fold_crlf (c # d # cs) = (if c = 13 \<and> d = 10 then 10 # fold_crlf cs else c # fold_crlf (d # cs))"
| "fold_crlf cs = cs"

definition normalized :: "unicode \<Rightarrow> ustr \<Rightarrow> ustr" where
  "normalized U raw = uc_nfc U (map (\<lambda>c. if c = 13 then 10 else c) (fold_crlf raw))"

text \<open>The saturation of the source's multiplication is out of reach of every policy.\<close>

definition oversized :: "string \<Rightarrow> ustr \<Rightarrow> nat \<Rightarrow> (unit, text_error) result" where
  "oversized field raw max_bytes =
    (if length (utf8s raw) > max_bytes * 4 then Err (text_error_new field RBytes) else Ok ())"

definition is_repo_path :: "nat list \<Rightarrow> bool" where
  "is_repo_path raw \<longleftrightarrow>
    92 \<notin> set raw \<and> 0 \<notin> set raw \<and> list_all (\<lambda>part. part \<notin> {[], [46], [46, 46]}) (split_on 47 raw)"

section \<open>Checked values\<close>

definition checked_text :: "unicode \<Rightarrow> text_policy \<Rightarrow> ustr \<Rightarrow> (ustr, text_error) result" where
  "checked_text U P raw =
    and_then (case tp_normalization P of
        Semantic \<Rightarrow> and_then (oversized (tp_field P) raw (tp_max_bytes P)) (\<lambda>_. Ok (normalized U raw))
      | Exact \<Rightarrow> if length (utf8s raw) > tp_max_bytes P then Err (text_error_new (tp_field P) RBytes) else Ok raw)
    (\<lambda>t. if t = [] \<and> \<not> tp_allow_empty P then Err (text_error_new (tp_field P) REmpty)
      else and_then (characters U (tp_field P) t (tp_multiline P) (tp_allow_cr P))
      (\<lambda>_. and_then (limits P t)
      (\<lambda>_. if tp_whitespace P = Prose \<and> (trim t \<noteq> t \<or> contains_str [10, 10, 10] t)
           then Err (text_error_new (tp_field P) RWhitespace) else Ok t)))"

record ident_policy =
  ip_field :: string
  ip_max_len :: nat
  ip_accepts :: "ustr \<Rightarrow> bool"

definition is_digit :: "nat \<Rightarrow> bool" where "is_digit c \<longleftrightarrow> 48 \<le> c \<and> c \<le> 57"
definition is_lower :: "nat \<Rightarrow> bool" where "is_lower c \<longleftrightarrow> 97 \<le> c \<and> c \<le> 122"
definition is_upper :: "nat \<Rightarrow> bool" where "is_upper c \<longleftrightarrow> 65 \<le> c \<and> c \<le> 90"
definition is_alphanumeric :: "nat \<Rightarrow> bool" where
  "is_alphanumeric c \<longleftrightarrow> is_digit c \<or> is_lower c \<or> is_upper c"
definition is_hexdigit :: "nat \<Rightarrow> bool" where
  "is_hexdigit c \<longleftrightarrow> is_digit c \<or> (97 \<le> c \<and> c \<le> 102) \<or> (65 \<le> c \<and> c \<le> 70)"

definition first_is :: "(nat \<Rightarrow> bool) \<Rightarrow> ustr \<Rightarrow> bool" where
  "first_is p s \<longleftrightarrow> (case utf8s s of [] \<Rightarrow> False | b # _ \<Rightarrow> p b)"

definition client_key :: ident_policy where
  "client_key = \<lparr>ip_field = ''client_key'', ip_max_len = 128,
    ip_accepts = (\<lambda>s. first_is is_alphanumeric s \<and>
      list_all (\<lambda>b. is_alphanumeric b \<or> b \<in> {46, 95, 45}) (utf8s s))\<rparr>"

definition family :: ident_policy where
  "family = \<lparr>ip_field = ''identity_family'', ip_max_len = 64,
    ip_accepts = (\<lambda>s. length (utf8s s) \<ge> 3 \<and> list_all (\<lambda>b. is_lower b \<or> is_digit b \<or> b = 45) (utf8s s))\<rparr>"

definition label :: ident_policy where
  "label = \<lparr>ip_field = ''label'', ip_max_len = 64,
    ip_accepts = (\<lambda>s. first_is is_alphanumeric s \<and>
      list_all (\<lambda>b. is_alphanumeric b \<or> b \<in> {46, 95, 32, 45}) (utf8s s))\<rparr>"

definition json_key :: ident_policy where
  "json_key = \<lparr>ip_field = ''json_key'', ip_max_len = 64,
    ip_accepts = (\<lambda>s. first_is (\<lambda>b. is_lower b \<or> is_upper b \<or> b = 95) s \<and>
      list_all (\<lambda>b. is_alphanumeric b \<or> b = 95) (utf8s s))\<rparr>"

definition cwe :: ident_policy where
  "cwe = \<lparr>ip_field = ''cwe'', ip_max_len = 64,
    ip_accepts = (\<lambda>s. take 4 s = [67, 87, 69, 45] \<and> drop 4 s \<noteq> [] \<and> list_all is_digit (utf8s (drop 4 s)))\<rparr>"

definition ident_policies :: "ident_policy list" where
  "ident_policies = [client_key, family, label, json_key, cwe]"

definition check_identifier :: "unicode \<Rightarrow> ident_policy \<Rightarrow> ustr \<Rightarrow> (unit, text_error) result" where
  "check_identifier U P raw =
    (if length (utf8s raw) > ip_max_len P then Err (text_error_new (ip_field P) RBytes)
     else and_then (characters U (ip_field P) raw False False)
      (\<lambda>_. if \<not> ip_accepts P raw then Err (text_error_new (ip_field P) RIdentifier)
           else if trim raw \<noteq> raw \<or> contains_str [32, 32] raw then Err (text_error_new (ip_field P) RWhitespace)
           else Ok ()))"

definition checked_identifier :: "unicode \<Rightarrow> ident_policy \<Rightarrow> ustr \<Rightarrow> (ustr, text_error) result" where
  "checked_identifier U P raw = and_then (check_identifier U P raw) (\<lambda>_. Ok raw)"

definition checked_path :: "unicode \<Rightarrow> ustr \<Rightarrow> (ustr, text_error) result" where
  "checked_path U raw =
    and_then (characters U ''path'' raw False False)
     (\<lambda>_. if length (utf8s raw) > 512 then Err (text_error_new ''path'' RBytes)
          else if \<not> is_repo_path (utf8s raw) then Err (text_error_new ''path'' RPath)
          else Ok raw)"

text \<open>
  Anchors. The regular expression of transient ids is
  \<open>\b(job|campaign|generation|unit|lead|finding|line)[ #_-]?[0-9]+\b\<close> with ASCII word
  boundaries; digits are word characters, so the run of digits must be maximal.
\<close>

definition is_word :: "nat \<Rightarrow> bool" where
  "is_word c \<longleftrightarrow> is_alphanumeric c \<or> c = 95"

definition transient_words :: "ustr list" where
  "transient_words = map ascii [''job'', ''campaign'', ''generation'', ''unit'', ''lead'', ''finding'', ''line'']"

definition digits_at :: "ustr \<Rightarrow> bool" where
  "digits_at s \<longleftrightarrow> takeWhile is_digit s \<noteq> [] \<and> (case dropWhile is_digit s of [] \<Rightarrow> True | c # _ \<Rightarrow> \<not> is_word c)"

definition id_after :: "ustr \<Rightarrow> bool" where
  "id_after r \<longleftrightarrow> digits_at r \<or> (case r of [] \<Rightarrow> False | c # r' \<Rightarrow> c \<in> {32, 35, 95, 45} \<and> digits_at r')"

definition transient_at :: "bool \<Rightarrow> ustr \<Rightarrow> bool" where
  "transient_at word_before s \<longleftrightarrow> \<not> word_before \<and>
     list_ex (\<lambda>w. take (length w) s = w \<and> id_after (drop (length w) s)) transient_words"

fun transient_id :: "bool \<Rightarrow> ustr \<Rightarrow> bool" where
  "transient_id word_before [] \<longleftrightarrow> transient_at word_before []"
| "transient_id word_before (c # cs) \<longleftrightarrow> transient_at word_before (c # cs) \<or> transient_id (is_word c) cs"

definition is_location :: "ustr \<Rightarrow> bool" where
  "is_location word \<longleftrightarrow>
    (let number = rev (takeWhile (\<lambda>c. c \<noteq> 58) (rev word));
         name = rev (drop 1 (dropWhile (\<lambda>c. c \<noteq> 58) (rev word)))
     in 58 \<in> set word \<and> name \<noteq> [] \<and> number \<noteq> [] \<and> list_all is_digit (utf8s number))"

definition is_hash :: "ustr \<Rightarrow> bool" where
  "is_hash word \<longleftrightarrow> 7 \<le> length (utf8s word) \<and> length (utf8s word) \<le> 64 \<and>
     list_all is_hexdigit (utf8s word) \<and> list_ex is_digit (utf8s word)"

definition checked_anchor :: "unicode \<Rightarrow> text_policy \<Rightarrow> ustr \<Rightarrow> (ustr, text_error) result" where
  "checked_anchor U P raw =
    (let t = normalized U raw in
     and_then (characters U (tp_field P) t False False)
      (\<lambda>_. let t1 = uc_nfc U (join_spaces (split_whitespace (uc_lower U t))) in
        if t1 = [] then Err (text_error_new (tp_field P) REmpty)
        else and_then (limits P t1)
        (\<lambda>_. if list_ex is_location (split_whitespace t1) then Err (text_error_new (tp_field P) RIdentityLocation)
             else if transient_id False t1 then Err (text_error_new (tp_field P) RIdentityTransientId)
             else if list_ex is_hash (split_whitespace t1) then Err (text_error_new (tp_field P) RIdentityHash)
             else Ok t1)))"

section \<open>Bytes\<close>

lemma utf8s_simps [simp]: "utf8s [] = []" "utf8s (c # cs) = utf8 c @ utf8s cs" "utf8s (xs @ ys) = utf8s xs @ utf8s ys"
  by (simp_all add: utf8s_def)

lemma utf8_ascii: "b < 128 \<Longrightarrow> b \<in> set (utf8 c) \<longleftrightarrow> c = b"
  by (auto simp: utf8_def split: if_splits)

lemma utf8s_ascii: "b < 128 \<Longrightarrow> b \<in> set (utf8s s) \<longleftrightarrow> b \<in> set s"
  by (induction s) (auto simp: utf8_ascii)

lemma utf8_nonempty [simp]: "utf8 c \<noteq> []"
  by (simp add: utf8_def)

lemma utf8s_eq_Nil [simp]: "utf8s s = [] \<longleftrightarrow> s = []"
  by (cases s) simp_all

lemma continuation: "(128 + x mod 64) div 64 mod 4 = (2 :: nat)"
proof -
  have "(128 + x mod 64) div 64 = 2 + x mod 64 div 64" by simp
  then show ?thesis by simp
qed

lemma utf8_leads: "is_scalar c \<Longrightarrow> length (filter (\<lambda>b. b div 64 mod 4 \<noteq> 2) (utf8 c)) = 1"
proof -
  assume "is_scalar c"
  then have c: "c < 1114112" by (auto simp: is_scalar_def)
  consider "c < 128" | "128 \<le> c" "c < 2048" | "2048 \<le> c" "c < 65536" | "65536 \<le> c" by linarith
  then show ?thesis
  proof cases
    case 1
    then have "c div 64 < 2" by simp
    then have "c div 64 mod 4 \<noteq> 2" by simp
    then show ?thesis using 1 by (simp add: utf8_def)
  next
    case 2
    then have "c div 64 < 32" by simp
    then have "(192 + c div 64) div 64 = 3" by simp
    then show ?thesis using 2 by (simp add: utf8_def continuation)
  next
    case 3
    then have "c div 4096 < 16" by simp
    then have "(224 + c div 4096) div 64 = 3" by simp
    then show ?thesis using 3 by (simp add: utf8_def continuation)
  next
    case 4
    have "c div 262144 < 8" using c by simp
    then have "(240 + c div 262144) div 64 = 3" by simp
    then show ?thesis using 4 by (simp add: utf8_def continuation)
  qed
qed

lemma utf8s_leads: "list_all is_scalar s \<Longrightarrow> length (filter (\<lambda>b. b div 64 mod 4 \<noteq> 2) (utf8s s)) = length s"
  by (induction s) (auto simp: utf8_leads)

section \<open>Field text\<close>

definition admitted_char :: "unicode \<Rightarrow> bool \<Rightarrow> bool \<Rightarrow> nat \<Rightarrow> bool" where
  "admitted_char U multiline allow_cr c \<longleftrightarrow>
    (multiline \<and> (c = 10 \<or> c = 9 \<or> (allow_cr \<and> c = 13))) \<or> \<not> rejects_code_point U c"

lemma admitted_scalar: "admitted_char U m cr c \<Longrightarrow> is_scalar c"
  by (auto simp: admitted_char_def rejects_code_point_def is_scalar_def)

lemma characters_Ok_iff [simp]:
  "characters U field s m cr = Ok u \<longleftrightarrow> list_all (admitted_char U m cr) s"
  by (induction s) (auto simp: admitted_char_def)

lemma limits_Ok_iff:
  assumes "list_all (admitted_char U m cr) t"
  shows "limits P t = Ok u \<longleftrightarrow> length t \<le> tp_max_chars P \<and> length (utf8s t) \<le> tp_max_bytes P"
proof -
  have "list_all is_scalar t" using assms admitted_scalar by (auto simp: list_all_iff)
  from utf8s_leads[OF this] show ?thesis by (auto simp: limits_def count_within_def)
qed

definition field_value :: "unicode \<Rightarrow> text_policy \<Rightarrow> ustr \<Rightarrow> bool" where
  "field_value U P t \<longleftrightarrow>
    (t = [] \<longrightarrow> tp_allow_empty P) \<and> list_all (admitted_char U (tp_multiline P) (tp_allow_cr P)) t \<and>
    length t \<le> tp_max_chars P \<and> length (utf8s t) \<le> tp_max_bytes P \<and>
    (tp_whitespace P = Prose \<longrightarrow> trim t = t \<and> \<not> contains_str [10, 10, 10] t) \<and>
    (tp_normalization P = Semantic \<longrightarrow> uc_nfc U t = t)"

text \<open>What is relied on of the Unicode tables: NFC is idempotent and CR is a control character.\<close>

definition unicode_laws :: "unicode \<Rightarrow> bool" where
  "unicode_laws U \<longleftrightarrow> (\<forall>s. uc_nfc U (uc_nfc U s) = uc_nfc U s) \<and> uc_category U 13 = Control"

definition text_policies :: "text_policy list" where
  "text_policies = json_leaf # texts @ exact_texts"

lemma text_policies_cr: "P \<in> set text_policies \<Longrightarrow> tp_normalization P = Semantic \<Longrightarrow> \<not> tp_allow_cr P"
  by (auto simp: text_policies_def json_leaf_def texts_def exact_texts_def prose_text_def exact_text_def)

lemma fold_crlf_id: "13 \<notin> set s \<Longrightarrow> fold_crlf s = s"
  by (induction s rule: fold_crlf.induct) auto

lemma normalized_id: "13 \<notin> set s \<Longrightarrow> normalized U s = uc_nfc U s"
  by (auto simp: normalized_def fold_crlf_id intro!: arg_cong[where f = "uc_nfc U"] map_idI)

lemma checked_text_Ok_iff:
  "checked_text U P raw = Ok t \<longleftrightarrow>
    (case tp_normalization P of
       Semantic \<Rightarrow> length (utf8s raw) \<le> 4 * tp_max_bytes P \<and> t = normalized U raw
     | Exact \<Rightarrow> t = raw) \<and>
    (t = [] \<longrightarrow> tp_allow_empty P) \<and> list_all (admitted_char U (tp_multiline P) (tp_allow_cr P)) t \<and>
    length t \<le> tp_max_chars P \<and> length (utf8s t) \<le> tp_max_bytes P \<and>
    (tp_whitespace P = Prose \<longrightarrow> trim t = t \<and> \<not> contains_str [10, 10, 10] t)"
  by (cases "tp_normalization P")
    (auto simp: checked_text_def oversized_def and_then_Ok_iff limits_Ok_iff split: if_splits)

lemma no_cr:
  assumes "unicode_laws U" "P \<in> set text_policies" "tp_normalization P = Semantic"
    "list_all (admitted_char U m (tp_allow_cr P)) t"
  shows "13 \<notin> set t"
  using assms text_policies_cr[OF assms(2,3)]
  by (auto simp: list_all_iff admitted_char_def rejects_code_point_def unicode_laws_def)


definition sample_unicode :: unicode where
  "sample_unicode = \<lparr>uc_category = (\<lambda>c. if c < 32 then Control else OtherCategory), uc_nfc = (\<lambda>s. s), uc_lower = (\<lambda>s. s)\<rparr>"

lemma sample_unicode_laws: "unicode_laws sample_unicode"
  by (simp add: unicode_laws_def sample_unicode_def)


section \<open>Repository paths\<close>

definition join_path :: "ustr list \<Rightarrow> ustr" where
  "join_path ps = (case ps of [] \<Rightarrow> [] | p # ps \<Rightarrow> p @ concat (map (\<lambda>q. 47 # q) ps))"

text \<open>Lexical resolution of a path below a directory, as a file system does it.\<close>

fun walk :: "ustr list \<Rightarrow> ustr list \<Rightarrow> ustr list" where
  "walk dir [] = dir"
| "walk dir (c # cs) =
    (if c = [] \<or> c = [46] then walk dir cs
     else if c = [46, 46] then walk (butlast dir) cs
     else walk (dir @ [c]) cs)"

definition plain_component :: "ustr \<Rightarrow> bool" where
  "plain_component c \<longleftrightarrow> c \<notin> {[], [46], [46, 46]} \<and> 47 \<notin> set c \<and> 92 \<notin> set c \<and> 0 \<notin> set c"

lemma split_on_nonempty [simp]: "split_on sep s \<noteq> []"
  by (induction s) (auto split: list.splits)

lemma split_on_pieces: "p \<in> set (split_on sep s) \<Longrightarrow> sep \<notin> set p \<and> set p \<subseteq> set s"
proof (induction s arbitrary: p)
  case (Cons c s)
  then show ?case by (cases "split_on sep s") (fastforce split: if_splits)+
qed simp

lemma join_split [simp]: "join_path (split_on 47 s) = s"
proof (induction s)
  case (Cons c s)
  obtain p ps where "split_on 47 s = p # ps" by (cases "split_on 47 s") auto
  then show ?case using Cons by (auto simp: join_path_def)
qed (simp add: join_path_def)

lemma split_on_plain: "sep \<notin> set p \<Longrightarrow> split_on sep p = [p]"
  by (induction p) auto

lemma split_on_append: "sep \<notin> set p \<Longrightarrow> split_on sep (p @ sep # s) = p # split_on sep s"
  by (induction p) auto

lemma split_join:
  assumes "ps \<noteq> []" "\<forall>p \<in> set ps. 47 \<notin> set p"
  shows "split_on 47 (join_path ps) = ps"
  using assms
proof (induction ps)
  case (Cons p ps)
  show ?case
  proof (cases ps)
    case Nil
    then show ?thesis using Cons.prems by (simp add: join_path_def split_on_plain)
  next
    case (Cons q qs)
    have "join_path (p # ps) = p @ 47 # join_path ps" using Cons by (simp add: join_path_def)
    then show ?thesis using Cons.IH Cons.prems Cons by (simp add: split_on_append)
  qed
qed simp

lemma split_on_prefix: "sep \<notin> set u \<Longrightarrow> split_on sep (u @ s) = (u @ hd (split_on sep s)) # tl (split_on sep s)"
proof (induction u)
  case Nil
  show ?case by (cases "split_on sep s") auto
qed auto

lemma split_on_utf8s: "split_on 47 (utf8s s) = map utf8s (split_on 47 s)"
proof (induction s)
  case (Cons c s)
  show ?case
  proof (cases "c = 47")
    case True
    then show ?thesis using Cons by (simp add: utf8_def)
  next
    case False
    then have "47 \<notin> set (utf8 c)" by (simp add: utf8_ascii)
    then show ?thesis using Cons False by (cases "split_on 47 s") (auto simp: split_on_prefix)
  qed
qed simp

lemma utf8s_dots: "utf8s p \<in> {[], [46], [46, 46]} \<longleftrightarrow> p \<in> {[], [46], [46, 46]}"
proof
  assume a: "utf8s p \<in> {[], [46], [46, 46]}"
  have u: "utf8 c = [46] \<longleftrightarrow> c = 46" "utf8 c \<noteq> [46, 46]" for c by (auto simp: utf8_def)
  show "p \<in> {[], [46], [46, 46]}"
  proof (cases p)
    case (Cons c q)
    then show ?thesis using a
      by (cases q) (auto simp: u append_eq_Cons_conv)
  qed simp
qed (auto simp: utf8_def)

lemma in_split_on_iff: "b \<noteq> 47 \<Longrightarrow> b \<in> set raw \<longleftrightarrow> (\<exists>p \<in> set (split_on 47 raw). b \<in> set p)"
proof -
  assume "b \<noteq> 47"
  then have "b \<in> set (join_path ps) \<longleftrightarrow> (\<exists>p \<in> set ps. b \<in> set p)" for ps
    by (cases ps) (auto simp: join_path_def)
  from this[of "split_on 47 raw"] show ?thesis by simp
qed

lemma is_repo_path_iff: "is_repo_path (utf8s raw) \<longleftrightarrow> list_all plain_component (split_on 47 raw)"
proof -
  define D where "D = {[], [46], [46, 46 :: nat]}"
  define S where "S = set (split_on 47 raw)"
  have dots: "utf8s p \<in> D \<longleftrightarrow> p \<in> D" for p unfolding D_def by (rule utf8s_dots)
  have "list_all (\<lambda>part. part \<notin> D) (split_on 47 (utf8s raw)) \<longleftrightarrow> (\<forall>p \<in> S. p \<notin> D)"
    by (simp add: split_on_utf8s list_all_iff S_def dots)
  moreover have "92 \<in> set (utf8s raw) \<longleftrightarrow> (\<exists>p \<in> S. 92 \<in> set p)"
    unfolding S_def using in_split_on_iff[of 92 raw] by (simp add: utf8s_ascii)
  moreover have "0 \<in> set (utf8s raw) \<longleftrightarrow> (\<exists>p \<in> S. 0 \<in> set p)"
    unfolding S_def using in_split_on_iff[of 0 raw] by (simp add: utf8s_ascii)
  moreover have "\<forall>p \<in> S. 47 \<notin> set p" unfolding S_def using split_on_pieces by blast
  ultimately show ?thesis
    unfolding is_repo_path_def list_all_iff plain_component_def D_def[symmetric] S_def[symmetric] by blast
qed

lemma walk_plain: "list_all plain_component cs \<Longrightarrow> walk dir cs = dir @ cs"
  by (induction cs arbitrary: dir) (auto simp: plain_component_def)

text \<open>
  C27: A checked repository path cannot leave the repository. Validation accepts a string, unchanged, if and only
  if it is a slash-separated list of one or more plain components (none empty, \<open>.\<close> or
  \<open>..\<close>, no backslash, no NUL) of admitted characters and at most 512 bytes. Walking an accepted
  path from any directory stays in or below that directory at every step and ends at the
  directory followed by the components.\<close>

theorem repo_path_confined:
  "(checked_path U raw = Ok p \<longleftrightarrow>
     p = raw \<and> list_all (admitted_char U False False) raw \<and> length (utf8s raw) \<le> 512 \<and>
     (\<exists>cs. cs \<noteq> [] \<and> list_all plain_component cs \<and> raw = join_path cs)) \<and>
   (checked_path U raw = Ok p \<longrightarrow>
     (\<forall>n dir. walk dir (take n (split_on 47 p)) = dir @ take n (split_on 47 p)))"
proof (intro conjI impI allI)
  have iff: "checked_path U raw = Ok p \<longleftrightarrow> p = raw \<and> list_all (admitted_char U False False) raw \<and>
      length (utf8s raw) \<le> 512 \<and> list_all plain_component (split_on 47 raw)" for p
    by (auto simp: checked_path_def and_then_Ok_iff is_repo_path_iff)
  have "list_all plain_component (split_on 47 raw) \<longleftrightarrow> (\<exists>cs. cs \<noteq> [] \<and> list_all plain_component cs \<and> raw = join_path cs)"
    using split_join by (metis join_split split_on_nonempty list_all_iff plain_component_def)
  with iff show "checked_path U raw = Ok p \<longleftrightarrow> p = raw \<and> list_all (admitted_char U False False) raw \<and>
      length (utf8s raw) \<le> 512 \<and> (\<exists>cs. cs \<noteq> [] \<and> list_all plain_component cs \<and> raw = join_path cs)" by simp
  fix n dir assume "checked_path U raw = Ok p"
  then have "list_all plain_component (split_on 47 p)" using iff[of p] by blast
  then have "list_all plain_component (take n (split_on 47 p))"
    by (auto simp: list_all_iff dest: in_set_takeD)
  then show "walk dir (take n (split_on 47 p)) = dir @ take n (split_on 47 p)" by (rule walk_plain)
qed

theorem repo_path_confined_witness:
  "checked_path sample_unicode (ascii ''src/a.rs'') = Ok (ascii ''src/a.rs'') \<and>
   walk [ascii ''work'', ascii ''repo''] (take 2 (split_on 47 (ascii ''src/a.rs''))) =
     [ascii ''work'', ascii ''repo''] @ take 2 (split_on 47 (ascii ''src/a.rs''))"
proof -
  have run: "checked_path sample_unicode (ascii ''src/a.rs'') = Ok (ascii ''src/a.rs'')" by code_simp
  with repo_path_confined[of sample_unicode "ascii ''src/a.rs''" "ascii ''src/a.rs''"] show ?thesis by blast
qed

section \<open>Anchors\<close>

definition digit_run :: "ustr \<Rightarrow> ustr \<Rightarrow> bool" where
  "digit_run ds post \<longleftrightarrow> ds \<noteq> [] \<and> list_all is_digit ds \<and> (post = [] \<or> \<not> is_word (hd post))"

lemma digit_word: "is_digit c \<Longrightarrow> is_word c"
  by (simp add: is_word_def is_alphanumeric_def)

lemma digits_at_iff: "digits_at s \<longleftrightarrow> (\<exists>ds post. s = ds @ post \<and> digit_run ds post)"
proof
  assume "digits_at s"
  then show "\<exists>ds post. s = ds @ post \<and> digit_run ds post"
    by (intro exI[of _ "takeWhile is_digit s"] exI[of _ "dropWhile is_digit s"])
      (auto simp: digits_at_def digit_run_def list_all_iff dest: set_takeWhileD split: list.splits)
next
  assume "\<exists>ds post. s = ds @ post \<and> digit_run ds post"
  then obtain ds post where s: "s = ds @ post" and d: "digit_run ds post" by blast
  have all: "\<forall>x \<in> set ds. is_digit x" using d by (simp add: digit_run_def list_all_iff)
  have "takeWhile is_digit post = []" "dropWhile is_digit post = post"
    using d digit_word by (cases post; auto simp: digit_run_def)+
  then show "digits_at s" using d all
    by (auto simp: digits_at_def s digit_run_def takeWhile_append2 dropWhile_append2 split: list.splits)
qed

definition id_separator :: "ustr \<Rightarrow> bool" where
  "id_separator sep \<longleftrightarrow> sep = [] \<or> (\<exists>c \<in> {32, 35, 95, 45}. sep = [c])"

lemma id_after_iff:
  "id_after r \<longleftrightarrow> (\<exists>sep ds post. r = sep @ ds @ post \<and> id_separator sep \<and> digit_run ds post)"
proof
  assume "id_after r"
  then consider "digits_at r" | c r' where "r = [c] @ r'" "c \<in> {32, 35, 95, 45}" "digits_at r'"
    by (auto simp: id_after_def split: list.splits)
  then obtain sep r' where "r = sep @ r'" "id_separator sep" "digits_at r'"
    by cases (metis append_Nil id_separator_def)+
  then show "\<exists>sep ds post. r = sep @ ds @ post \<and> id_separator sep \<and> digit_run ds post"
    unfolding digits_at_iff by blast
next
  assume "\<exists>sep ds post. r = sep @ ds @ post \<and> id_separator sep \<and> digit_run ds post"
  then obtain sep r' where "r = sep @ r'" "id_separator sep" "digits_at r'" unfolding digits_at_iff by blast
  then show "id_after r" by (auto simp: id_after_def id_separator_def)
qed

definition transient_occurrence :: "bool \<Rightarrow> ustr \<Rightarrow> bool" where
  "transient_occurrence word_before t \<longleftrightarrow>
    (\<exists>pre w r. t = pre @ w @ r \<and> w \<in> set transient_words \<and> id_after r \<and>
      (if pre = [] then \<not> word_before else \<not> is_word (last pre)))"

lemma transient_at_iff:
  "transient_at wb s \<longleftrightarrow> \<not> wb \<and> (\<exists>w r. s = w @ r \<and> w \<in> set transient_words \<and> id_after r)"
proof -
  have "(take (length w) s = w \<and> id_after (drop (length w) s)) \<longleftrightarrow> (\<exists>r. s = w @ r \<and> id_after r)" for w
    by (metis append_eq_conv_conj append_take_drop_id)
  then show ?thesis by (auto simp: transient_at_def list_ex_iff)
qed

lemma transient_occurrence_Cons:
  "transient_occurrence wb (c # cs) \<longleftrightarrow> transient_at wb (c # cs) \<or> transient_occurrence (is_word c) cs"
proof
  assume "transient_occurrence wb (c # cs)"
  then obtain pre w r where o: "c # cs = pre @ w @ r" "w \<in> set transient_words" "id_after r"
    "if pre = [] then \<not> wb else \<not> is_word (last pre)" unfolding transient_occurrence_def by blast
  show "transient_at wb (c # cs) \<or> transient_occurrence (is_word c) cs"
  proof (cases pre)
    case Nil
    then show ?thesis using o unfolding transient_at_iff by (metis append_Nil)
  next
    case (Cons d ps)
    then have "cs = ps @ w @ r" "if ps = [] then \<not> is_word c else \<not> is_word (last ps)"
      using o(1,4) by (auto split: if_splits)
    then show ?thesis using o(2,3) unfolding transient_occurrence_def by blast
  qed
next
  assume "transient_at wb (c # cs) \<or> transient_occurrence (is_word c) cs"
  then show "transient_occurrence wb (c # cs)"
  proof
    assume "transient_at wb (c # cs)"
    then show ?thesis unfolding transient_at_iff transient_occurrence_def by (metis append_Nil)
  next
    assume "transient_occurrence (is_word c) cs"
    then obtain pre w r where o: "cs = pre @ w @ r" "w \<in> set transient_words" "id_after r"
      "if pre = [] then \<not> is_word c else \<not> is_word (last pre)" unfolding transient_occurrence_def by blast
    have "c # cs = (c # pre) @ w @ r" "if c # pre = [] then \<not> wb else \<not> is_word (last (c # pre))"
      using o(1,4) by auto
    then show ?thesis using o(2,3) unfolding transient_occurrence_def by blast
  qed
qed

lemma transient_id_iff: "transient_id wb t \<longleftrightarrow> transient_occurrence wb t"
proof (induction wb t rule: transient_id.induct)
  case (1 wb)
  have "[] \<notin> set transient_words" by (simp add: transient_words_def ascii_def)
  then show ?case by (auto simp: transient_at_iff transient_occurrence_def)
qed (simp add: transient_occurrence_Cons)

text \<open>
  C28: An accepted identity anchor names no transient thing. It is non-empty, within the
  policy's limits, and nowhere contains one of the words job, campaign, generation, unit,
  lead, finding or line, with at most one separator and then a number, standing as a word of
  its own; and no word of it is a hexadecimal digest of 7 to 64 digits with a decimal digit.\<close>

theorem anchor_identity:
  assumes "checked_anchor U P raw = Ok t" "list_all is_scalar t"
  shows "t \<noteq> [] \<and> length t \<le> tp_max_chars P \<and> length (utf8s t) \<le> tp_max_bytes P \<and>
    \<not> (\<exists>pre w sep ds post. t = pre @ w @ sep @ ds @ post \<and> w \<in> set transient_words \<and>
        (sep = [] \<or> (\<exists>c \<in> {32, 35, 95, 45}. sep = [c])) \<and>
        ds \<noteq> [] \<and> list_all is_digit ds \<and> (post = [] \<or> \<not> is_word (hd post)) \<and> (pre = [] \<or> \<not> is_word (last pre))) \<and>
    (\<forall>word \<in> set (split_whitespace t). \<not> (7 \<le> length word \<and> length word \<le> 64 \<and>
        list_all is_hexdigit word \<and> list_ex is_digit word))"
proof -
  have facts: "t \<noteq> []" "limits P t = Ok ()" "\<not> transient_id False t" "\<not> list_ex is_hash (split_whitespace t)"
    using assms(1) by (auto simp: checked_anchor_def Let_def and_then_Ok_iff split: if_splits)
  have "length t \<le> tp_max_chars P" "length (utf8s t) \<le> tp_max_bytes P"
    using facts(2) utf8s_leads[OF assms(2)] by (auto simp: limits_def count_within_def split: result.splits if_splits)
  moreover have "\<not> (id_separator sep \<and> digit_run ds post \<and> (pre = [] \<or> \<not> is_word (last pre)))"
    if "t = pre @ w @ sep @ ds @ post" "w \<in> set transient_words" for pre w sep ds post
    using facts(3) that unfolding transient_id_iff transient_occurrence_def id_after_iff by (metis (full_types))
  moreover have "is_hash word" if "7 \<le> length word" "length word \<le> 64" "list_all is_hexdigit word" "list_ex is_digit word" for word
  proof -
    have "list_all (\<lambda>c. c < 128) word" using that(3) by (auto simp: list_all_iff is_hexdigit_def is_digit_def)
    then have "utf8s word = word" by (induction word) (auto simp: utf8_def)
    then show ?thesis using that by (simp add: is_hash_def)
  qed
  ultimately show ?thesis using facts(1,4)
    unfolding id_separator_def digit_run_def list_ex_iff by blast
qed

theorem anchor_identity_witness:
  "checked_anchor sample_unicode (prose_text ''identity_anchor'' 300 False) (ascii ''token  refresh line'') = Ok (ascii ''token refresh line'') \<and>
   length (ascii ''token refresh line'') \<le> 300"
proof -
  have run: "checked_anchor sample_unicode (prose_text ''identity_anchor'' 300 False) (ascii ''token  refresh line'') =
      Ok (ascii ''token refresh line'')" by code_simp
  have "list_all is_scalar (ascii ''token refresh line'')" by code_simp
  with anchor_identity[OF run] run show ?thesis by (simp add: prose_text_def)
qed

end
