(* ===== verification/Json_String.thy ===== *)
theory Json_String
  imports Bounded_Text
begin

text \<open>
  Decoding of one JSON string token with bounded output (\<open>loupe-core/src/text/json_string.rs\<close>):
  the iterator of decoded characters, the allocation-free counting pass and the decoder. The
  grammar of RFC 8259 is the inductive relation \<open>json_encodes\<close>.
\<close>

section \<open>The decoder\<close>

datatype cow = Borrowed ustr | Owned ustr

definition to_digit16 :: "nat \<Rightarrow> nat option" where
  "to_digit16 c =
    (if 48 \<le> c \<and> c \<le> 57 then Some (c - 48)
     else if 97 \<le> c \<and> c \<le> 102 then Some (c - 87)
     else if 65 \<le> c \<and> c \<le> 70 then Some (c - 55)
     else None)"

definition checked_u32 :: "nat \<Rightarrow> nat option" where
  "checked_u32 n = (if n \<le> 4294967295 then Some n else None)"

fun hex_digits :: "nat \<Rightarrow> nat \<Rightarrow> ustr \<Rightarrow> (nat \<times> ustr) option" where
  "hex_digits 0 v s = Some (v, s)"
| "hex_digits (Suc n) v [] = None"
| "hex_digits (Suc n) v (c # s) =
    (case checked_u32 (v * 16) of None \<Rightarrow> None
     | Some w \<Rightarrow> (case to_digit16 c of None \<Rightarrow> None
       | Some d \<Rightarrow> (case checked_u32 (w + d) of None \<Rightarrow> None | Some v' \<Rightarrow> hex_digits n v' s)))"

definition hex_quad :: "ustr \<Rightarrow> (nat \<times> ustr) option" where
  "hex_quad s = hex_digits 4 0 s"

definition from_u32 :: "nat \<Rightarrow> nat option" where
  "from_u32 cp = (if is_scalar cp then Some cp else None)"

definition unicode_escape :: "ustr \<Rightarrow> (nat \<times> ustr) option" where
  "unicode_escape s =
    (case hex_quad s of None \<Rightarrow> None
     | Some (first, s1) \<Rightarrow>
        if 55296 \<le> first \<and> first \<le> 56319 then
          (case s1 of
             c # d # s2 \<Rightarrow>
               if c \<noteq> 92 \<or> d \<noteq> 117 then None
               else (case hex_quad s2 of None \<Rightarrow> None
                 | Some (second, s3) \<Rightarrow>
                     if \<not> (56320 \<le> second \<and> second \<le> 57343) then None
                     else map_option (\<lambda>ch. (ch, s3))
                       (from_u32 ((first - 55296) * 1024 + (second - 56320) + 65536)))
           | _ \<Rightarrow> None)
        else map_option (\<lambda>ch. (ch, s1)) (from_u32 first))"

definition escaped_char :: "ustr \<Rightarrow> (nat \<times> ustr) option" where
  "escaped_char s =
    (case s of [] \<Rightarrow> None
     | c # s1 \<Rightarrow>
        if c = 34 then Some (34, s1)
        else if c = 92 then Some (92, s1)
        else if c = 47 then Some (47, s1)
        else if c = 98 then Some (8, s1)
        else if c = 102 then Some (12, s1)
        else if c = 110 then Some (10, s1)
        else if c = 114 then Some (13, s1)
        else if c = 116 then Some (9, s1)
        else if c = 117 then unicode_escape s1
        else None)"

text \<open>One item of \<open>DecodedChars\<close>; its consumers stop at the first \<open>None\<close>.\<close>

definition decoded_next :: "nat \<Rightarrow> ustr \<Rightarrow> (nat \<times> ustr) option" where
  "decoded_next ch s = (if ch = 92 then escaped_char s else if ch = 34 \<or> ch \<le> 31 then None else Some (ch, s))"

lemma hex_digits_length: "hex_digits n v s = Some (w, s') \<Longrightarrow> length s = n + length s'"
  by (induction n v s rule: hex_digits.induct) (auto split: option.splits)

lemma unicode_escape_length: "unicode_escape s = Some (ch, s') \<Longrightarrow> length s' \<le> length s"
  by (auto simp: unicode_escape_def hex_quad_def split: option.splits prod.splits if_splits list.splits
      dest!: hex_digits_length)

lemma decoded_next_length: "decoded_next ch s = Some (x, s') \<Longrightarrow> length s' \<le> length s"
  by (auto simp: decoded_next_def escaped_char_def split: if_splits list.splits dest: unicode_escape_length)

record json_size =
  js_bytes :: nat
  js_chars :: nat
  js_escaped :: bool

text \<open>The additions are checked in the source; lengths in memory do not reach \<open>usize::MAX\<close>.\<close>

function preflight_chars ::
  "string \<Rightarrow> nat \<Rightarrow> nat \<Rightarrow> json_size \<Rightarrow> ustr \<Rightarrow> (json_size, text_error) result" where
  "preflight_chars field max_bytes max_chars sz [] = Ok sz"
| "preflight_chars field max_bytes max_chars sz (c # s) =
    (case decoded_next c s of
       None \<Rightarrow> Err (text_error_new field RJsonSyntax)
     | Some (ch, s') \<Rightarrow>
        let bytes = js_bytes sz + length (utf8 ch) in
        if \<not> bytes \<le> max_bytes then Err (text_error_new field RBytes)
        else let chars = js_chars sz + 1 in
        if \<not> chars \<le> max_chars then Err (text_error_new field RChars)
        else preflight_chars field max_bytes max_chars (sz\<lparr>js_bytes := bytes, js_chars := chars\<rparr>) s')"
  by pat_completeness auto
termination
  by (relation "measure (\<lambda>(_, _, _, _, s). length s)") (auto dest: decoded_next_length)

definition contents :: "ustr \<Rightarrow> ustr option" where
  "contents raw =
    (case raw of [] \<Rightarrow> None
     | c # s \<Rightarrow> if c \<noteq> 34 then None else if s \<noteq> [] \<and> last s = 34 then Some (butlast s) else None)"

definition preflight :: "ustr \<Rightarrow> string \<Rightarrow> nat \<Rightarrow> nat \<Rightarrow> (json_size, text_error) result" where
  "preflight raw field max_bytes max_chars =
    and_then (ok_or (contents raw) (text_error_new field RJsonSyntax))
     (\<lambda>cs. preflight_chars field max_bytes max_chars
        \<lparr>js_bytes = 0, js_chars = 0, js_escaped = (92 \<in> set cs)\<rparr> cs)"

function decode_chars :: "string \<Rightarrow> ustr \<Rightarrow> ustr \<Rightarrow> (ustr, text_error) result" where
  "decode_chars field decoded [] = Ok decoded"
| "decode_chars field decoded (c # s) =
    (case decoded_next c s of
       None \<Rightarrow> Err (text_error_new field RJsonSyntax)
     | Some (ch, s') \<Rightarrow> decode_chars field (decoded @ [ch]) s')"
  by pat_completeness auto
termination
  by (relation "measure (\<lambda>(_, _, s). length s)") (auto dest: decoded_next_length)

definition decode_json_string_bounded ::
  "ustr \<Rightarrow> string \<Rightarrow> nat \<Rightarrow> nat \<Rightarrow> (cow, text_error) result" where
  "decode_json_string_bounded raw field max_decoded_bytes max_decoded_chars =
    and_then (preflight raw field max_decoded_bytes max_decoded_chars)
     (\<lambda>sz. and_then (ok_or (contents raw) (text_error_new field RJsonSyntax))
     (\<lambda>cs. if \<not> js_escaped sz then Ok (Borrowed cs)
           else map_ok Owned (decode_chars field [] cs)))"

section \<open>The grammar\<close>

text \<open>Four hexadecimal digits and their value.\<close>

definition hex4 :: "ustr \<Rightarrow> nat \<Rightarrow> bool" where
  "hex4 ds v \<longleftrightarrow> (\<exists>a b c d x y z w. ds = [a, b, c, d] \<and> to_digit16 a = Some x \<and> to_digit16 b = Some y \<and>
     to_digit16 c = Some z \<and> to_digit16 d = Some w \<and> v = ((x * 16 + y) * 16 + z) * 16 + w)"

definition short_escapes :: "(nat \<times> nat) list" where
  "short_escapes = [(34, 34), (92, 92), (47, 47), (98, 8), (102, 12), (110, 10), (114, 13), (116, 9)]"

inductive json_char :: "ustr \<Rightarrow> nat \<Rightarrow> bool" where
  plain: "32 \<le> c \<Longrightarrow> c \<noteq> 34 \<Longrightarrow> c \<noteq> 92 \<Longrightarrow> json_char [c] c"
| short: "(e, c) \<in> set short_escapes \<Longrightarrow> json_char [92, e] c"
| bmp: "hex4 ds c \<Longrightarrow> c < 55296 \<or> 57344 \<le> c \<Longrightarrow> json_char (92 # 117 # ds) c"
| pair: "hex4 ds hi \<Longrightarrow> hex4 es lo \<Longrightarrow> 55296 \<le> hi \<Longrightarrow> hi < 56320 \<Longrightarrow> 56320 \<le> lo \<Longrightarrow> lo < 57344 \<Longrightarrow>
    json_char (92 # 117 # ds @ 92 # 117 # es) (65536 + (hi - 55296) * 1024 + (lo - 56320))"

inductive json_encodes :: "ustr \<Rightarrow> ustr \<Rightarrow> bool" where
  empty: "json_encodes [] []"
| more: "json_char u c \<Longrightarrow> json_encodes s t \<Longrightarrow> json_encodes (u @ s) (c # t)"

inductive_cases json_char_NilE: "json_char [] c"

lemma json_encodes_Nil: "json_encodes [] t \<longleftrightarrow> t = []"
proof
  assume "json_encodes [] t"
  then show "t = []" by cases (auto elim: json_char_NilE)
qed (simp add: json_encodes.empty)

section \<open>The decoder implements the grammar\<close>

lemma map_ok_Err_iff: "map_ok f r = Err e \<longleftrightarrow> r = Err e"
  by (cases r) simp_all

lemma to_digit16_bound: "to_digit16 c = Some d \<Longrightarrow> d < 16"
  by (auto simp: to_digit16_def split: if_splits)

lemma hex_digits_step:
  assumes "v < 65536"
  shows "hex_digits (Suc n) v s = Some p \<longleftrightarrow>
    (\<exists>c s' d. s = c # s' \<and> to_digit16 c = Some d \<and> hex_digits n (v * 16 + d) s' = Some p)"
  using assms by (cases s) (auto simp: checked_u32_def split: option.splits dest: to_digit16_bound)

lemma hex_quad_Suc: "hex_quad s = hex_digits (Suc (Suc (Suc (Suc 0)))) 0 s"
proof -
  have "(4 :: nat) = Suc (Suc (Suc (Suc 0)))" by simp
  then show ?thesis by (simp only: hex_quad_def)
qed

lemma hex_quad_iff: "hex_quad s = Some (v, r) \<longleftrightarrow> (\<exists>ds. s = ds @ r \<and> hex4 ds v)"
proof
  assume "hex_quad s = Some (v, r)"
  then have "hex_digits (Suc (Suc (Suc (Suc 0)))) 0 s = Some (v, r)"
    by (simp only: hex_quad_Suc)
  then obtain a s1 x where 1: "s = a # s1" "to_digit16 a = Some x"
    and r1: "hex_digits (Suc (Suc (Suc 0))) x s1 = Some (v, r)"
    by (subst (asm) hex_digits_step) auto
  from r1 obtain b s2 y where 2: "s1 = b # s2" "to_digit16 b = Some y"
    and r2: "hex_digits (Suc (Suc 0)) (x * 16 + y) s2 = Some (v, r)"
    using to_digit16_bound[OF 1(2)] by (subst (asm) hex_digits_step) auto
  from r2 obtain c s3 z where 3: "s2 = c # s3" "to_digit16 c = Some z"
    and r3: "hex_digits (Suc 0) ((x * 16 + y) * 16 + z) s3 = Some (v, r)"
    using to_digit16_bound[OF 1(2)] to_digit16_bound[OF 2(2)] by (subst (asm) hex_digits_step) auto
  from r3 obtain d s4 w where 4: "s3 = d # s4" "to_digit16 d = Some w"
    and r4: "hex_digits 0 (((x * 16 + y) * 16 + z) * 16 + w) s4 = Some (v, r)"
    using to_digit16_bound[OF 1(2)] to_digit16_bound[OF 2(2)] to_digit16_bound[OF 3(2)]
    by (subst (asm) hex_digits_step) auto
  show "\<exists>ds. s = ds @ r \<and> hex4 ds v"
    using 1 2 3 4 r4 by (intro exI[of _ "[a, b, c, d]"]) (auto simp: hex4_def)
next
  assume "\<exists>ds. s = ds @ r \<and> hex4 ds v"
  then obtain a b c d x y z w where s: "s = [a, b, c, d] @ r"
    and t: "to_digit16 a = Some x" "to_digit16 b = Some y" "to_digit16 c = Some z" "to_digit16 d = Some w"
    and v: "v = ((x * 16 + y) * 16 + z) * 16 + w" unfolding hex4_def by blast
  show "hex_quad s = Some (v, r)"
    using t[THEN to_digit16_bound] by (simp add: hex_quad_Suc s t v checked_u32_def)
qed

lemma hex4_bound: "hex4 ds v \<Longrightarrow> v < 65536"
  by (auto simp: hex4_def dest!: to_digit16_bound)

lemma unicode_escape_sound:
  assumes "unicode_escape s = Some (ch, r)"
  shows "\<exists>u. s = u @ r \<and> json_char (92 # 117 # u) ch"
proof -
  obtain hi s1 where 1: "hex_quad s = Some (hi, s1)" using assms by (auto simp: unicode_escape_def split: option.splits)
  then obtain ds where ds: "s = ds @ s1" "hex4 ds hi" by (auto simp: hex_quad_iff)
  show ?thesis
  proof (cases "55296 \<le> hi \<and> hi \<le> 56319")
    case False
    then have "is_scalar hi" "r = s1" "ch = hi" using assms 1
      by (auto simp: unicode_escape_def from_u32_def split: if_splits)
    then show ?thesis using ds False by (auto simp: is_scalar_def intro!: exI[of _ ds] bmp)
  next
    case True
    then obtain s2 lo s3 where 2: "s1 = 92 # 117 # s2" "hex_quad s2 = Some (lo, s3)" "56320 \<le> lo" "lo \<le> 57343"
      "r = s3" "ch = (hi - 55296) * 1024 + (lo - 56320) + 65536"
      using assms 1 by (auto simp: unicode_escape_def from_u32_def split: if_splits list.splits option.splits)
    then obtain es where es: "s2 = es @ s3" "hex4 es lo" by (auto simp: hex_quad_iff)
    have "json_char (92 # 117 # ds @ 92 # 117 # es) ch"
      using pair[OF ds(2) es(2)] True 2(3,4) unfolding 2(6) by (simp add: add.commute add.left_commute)
    then show ?thesis using ds es 2 by (intro exI[of _ "ds @ 92 # 117 # es"]) simp
  qed
qed

lemma decoded_next_sound:
  assumes "decoded_next c s = Some (ch, r)"
  shows "\<exists>u. c # s = u @ r \<and> json_char u ch"
proof (cases "c = 92")
  case False
  then show ?thesis using assms by (auto simp: decoded_next_def split: if_splits intro!: exI[of _ "[c]"] plain)
next
  case True
  then obtain e s1 where s: "s = e # s1" using assms by (cases s) (auto simp: decoded_next_def escaped_char_def)
  show ?thesis
  proof (cases "e = 117")
    case True
    then have "unicode_escape s1 = Some (ch, r)" using assms \<open>c = 92\<close> s
      by (simp add: decoded_next_def escaped_char_def)
    from unicode_escape_sound[OF this] obtain u where "s1 = u @ r" "json_char (92 # 117 # u) ch" by blast
    then show ?thesis using \<open>c = 92\<close> s True by (intro exI[of _ "92 # 117 # u"]) simp
  next
    case False
    then have "(e, ch) \<in> set short_escapes" "r = s1" using assms \<open>c = 92\<close> s
      by (auto simp: decoded_next_def escaped_char_def short_escapes_def split: if_splits)
    then show ?thesis using \<open>c = 92\<close> s by (intro exI[of _ "[92, e]"]) (simp add: short)
  qed
qed

lemma decoded_next_complete:
  assumes "json_char u ch" "c # s = u @ r"
  shows "decoded_next c s = Some (ch, r)"
  using assms
proof cases
  case plain
  then show ?thesis using assms(2) by (auto simp: decoded_next_def)
next
  case (short e)
  then show ?thesis using assms(2) by (auto simp: decoded_next_def escaped_char_def short_escapes_def)
next
  case (bmp ds)
  then have "hex_quad (ds @ r) = Some (ch, r)" by (auto simp: hex_quad_iff)
  moreover have "is_scalar ch" using bmp hex4_bound by (fastforce simp: is_scalar_def)
  ultimately show ?thesis using bmp assms(2)
    by (auto simp: decoded_next_def escaped_char_def unicode_escape_def from_u32_def)
next
  case (pair ds hi es lo)
  have "hex_quad (ds @ 92 # 117 # es @ r) = Some (hi, 92 # 117 # es @ r)" "hex_quad (es @ r) = Some (lo, r)"
    using pair by (auto simp: hex_quad_iff)
  moreover have "is_scalar ch" using pair by (simp add: is_scalar_def)
  ultimately show ?thesis using pair assms(2)
    by (auto simp: decoded_next_def escaped_char_def unicode_escape_def from_u32_def add.commute add.left_commute)
qed

lemma json_encodes_Cons:
  "json_encodes (c # s) t \<longleftrightarrow> (\<exists>ch r t'. decoded_next c s = Some (ch, r) \<and> t = ch # t' \<and> json_encodes r t')"
proof
  assume "json_encodes (c # s) t"
  then show "\<exists>ch r t'. decoded_next c s = Some (ch, r) \<and> t = ch # t' \<and> json_encodes r t'"
  proof cases
    case (more u ch r t')
    then show ?thesis using decoded_next_complete by blast
  qed
next
  assume "\<exists>ch r t'. decoded_next c s = Some (ch, r) \<and> t = ch # t' \<and> json_encodes r t'"
  then obtain ch r t' where d: "decoded_next c s = Some (ch, r)" "t = ch # t'" "json_encodes r t'" by blast
  from decoded_next_sound[OF d(1)] obtain u where u: "c # s = u @ r" "json_char u ch" by blast
  show "json_encodes (c # s) t" unfolding u(1) d(2) by (rule more[OF u(2) d(3)])
qed

lemma decode_chars_iff: "decode_chars field acc s = Ok t \<longleftrightarrow> (\<exists>t'. t = acc @ t' \<and> json_encodes s t')"
proof (induction field acc s rule: decode_chars.induct)
  case (1 field acc)
  then show ?case by (auto simp: json_encodes_Nil)
next
  case (2 field acc c s)
  show ?case
  proof (cases "decoded_next c s")
    case None
    then show ?thesis by (simp add: json_encodes_Cons)
  next
    case (Some p)
    obtain ch r where p: "p = (ch, r)" by fastforce
    show ?thesis using 2[OF Some p[symmetric]] Some p by (auto simp: json_encodes_Cons)
  qed
qed

lemma json_encodes_unique: "json_encodes s t \<Longrightarrow> json_encodes s t' \<Longrightarrow> t = t'"
  using decode_chars_iff[of "[]" "[]" s] by (metis append_Nil result.inject(1))

lemma preflight_chars_iff:
  assumes "js_bytes sz \<le> mb" "js_chars sz \<le> mc"
  shows "preflight_chars field mb mc sz s = Ok sz' \<longleftrightarrow>
    (\<exists>t. json_encodes s t \<and> js_bytes sz + length (utf8s t) \<le> mb \<and> js_chars sz + length t \<le> mc \<and>
      sz' = sz\<lparr>js_bytes := js_bytes sz + length (utf8s t), js_chars := js_chars sz + length t\<rparr>)"
  using assms
proof (induction field mb mc sz s rule: preflight_chars.induct)
  case (1 field mb mc sz)
  then show ?case by (auto simp: json_encodes_Nil)
next
  case (2 field mb mc sz c s)
  show ?case
  proof (cases "decoded_next c s")
    case None
    then show ?thesis by (simp add: json_encodes_Cons)
  next
    case (Some p)
    obtain ch r where p: "p = (ch, r)" by fastforce
    show ?thesis
    proof (cases "js_bytes sz + length (utf8 ch) \<le> mb \<and> js_chars sz + 1 \<le> mc")
      case True
      then show ?thesis using 2(1)[OF Some p[symmetric] refl _ refl] Some p
        by (auto simp: json_encodes_Cons add.assoc)
    next
      case False
      then show ?thesis using Some p by (auto simp: json_encodes_Cons Let_def)
    qed
  qed
qed

lemma preflight_chars_Err:
  "preflight_chars field mb mc sz s = Err e \<Longrightarrow>
    te_field e = field \<and> te_code_point e = None \<and> te_rule e \<in> {RJsonSyntax, RBytes, RChars}"
  by (induction field mb mc sz s rule: preflight_chars.induct)
    (auto simp: text_error_new_def Let_def split: option.splits prod.splits if_splits)

lemma contents_iff: "contents raw = Some cs \<longleftrightarrow> raw = 34 # cs @ [34]"
  by (cases raw) (auto simp: contents_def dest: append_butlast_last_id)

lemma plain_contents: "json_encodes cs t \<Longrightarrow> 92 \<notin> set cs \<Longrightarrow> t = cs"
proof (induction rule: json_encodes.induct)
  case (more u c s t)
  from more(1) have "u = [c]" by cases (use more(4) in auto)
  then show ?case using more by simp
qed simp

lemma decode_iff:
  "decode_json_string_bounded raw field mb mc = Ok out \<longleftrightarrow>
    (\<exists>cs t. raw = 34 # cs @ [34] \<and> json_encodes cs t \<and> length (utf8s t) \<le> mb \<and> length t \<le> mc \<and>
      out = (if 92 \<in> set cs then Owned t else Borrowed t))"
proof (cases "contents raw")
  case None
  then show ?thesis
    using contents_iff[of raw]
    by (auto simp: decode_json_string_bounded_def preflight_def and_then_Ok_iff ok_or_Ok_iff simp del: split_paired_Ex)
next
  case (Some cs)
  then have raw: "raw = 34 # cs @ [34]" by (simp add: contents_iff)
  have run: "decode_json_string_bounded raw field mb mc =
      and_then (preflight_chars field mb mc \<lparr>js_bytes = 0, js_chars = 0, js_escaped = (92 \<in> set cs)\<rparr> cs)
        (\<lambda>sz. if \<not> js_escaped sz then Ok (Borrowed cs) else map_ok Owned (decode_chars field [] cs))"
    by (cases "preflight_chars field mb mc \<lparr>js_bytes = 0, js_chars = 0, js_escaped = (92 \<in> set cs)\<rparr> cs")
      (simp_all add: decode_json_string_bounded_def preflight_def Some)
  show ?thesis unfolding run and_then_Ok_iff
    by (auto simp: preflight_chars_iff map_ok_Ok_iff decode_chars_iff raw
        dest: json_encodes_unique plain_contents)
qed

text \<open>
  C29: The bounded decoder of JSON string tokens implements the grammar of RFC 8259. It
  succeeds exactly on a quoted sequence of encoded characters (unescaped characters other than
  quote, backslash and controls, the eight short escapes, BMP escapes that are not surrogates,
  surrogate pairs) whose decoded text fits both caps, and then yields exactly the text the token denotes, without
  a copy if and only if there is no escape. On every other input it fails with an error that carries
  only the field's name and one of the three rules.\<close>

theorem json_string_decoder:
  "case decode_json_string_bounded raw field mb mc of
     Ok out \<Rightarrow> (\<exists>cs t. raw = 34 # cs @ [34] \<and> json_encodes cs t \<and> length (utf8s t) \<le> mb \<and> length t \<le> mc \<and>
       out = (if 92 \<in> set cs then Owned t else Borrowed t))
   | Err e \<Rightarrow> te_field e = field \<and> te_code_point e = None \<and> te_rule e \<in> {RJsonSyntax, RBytes, RChars} \<and>
       (\<nexists>cs t. raw = 34 # cs @ [34] \<and> json_encodes cs t \<and> length (utf8s t) \<le> mb \<and> length t \<le> mc)"
proof (cases "decode_json_string_bounded raw field mb mc")
  case (Ok out)
  then show ?thesis using decode_iff[of raw field mb mc out] by simp
next
  case (Err e)
  then have no: "\<nexists>cs t. raw = 34 # cs @ [34] \<and> json_encodes cs t \<and> length (utf8s t) \<le> mb \<and> length t \<le> mc"
    using decode_iff[of raw field mb mc] by (metis result.distinct(1))
  have "decode_chars field [] cs \<noteq> Err e'" if "preflight raw field mb mc = Ok sz" "contents raw = Some cs" for sz cs e'
    using that no contents_iff[of raw cs] by (auto simp: preflight_def preflight_chars_iff)
  then have "preflight raw field mb mc = Err e \<or> e = text_error_new field RJsonSyntax" using Err
    by (cases "contents raw") (auto simp: decode_json_string_bounded_def and_then_Err_iff map_ok_Err_iff split: if_splits)
  then have "te_field e = field \<and> te_code_point e = None \<and> te_rule e \<in> {RJsonSyntax, RBytes, RChars}"
    by (cases "contents raw") (auto dest: preflight_chars_Err simp: preflight_def and_then_Err_iff text_error_new_def split: option.splits)
  with no Err show ?thesis by simp
qed

section \<open>Round trip\<close>

definition hex_char :: "nat \<Rightarrow> nat" where
  "hex_char d = (if d < 10 then 48 + d else 87 + d)"

definition print_char :: "nat \<Rightarrow> ustr" where
  "print_char c =
    (if c = 34 \<or> c = 92 then [92, c]
     else if c < 32 then [92, 117, 48, 48, hex_char (c div 16), hex_char (c mod 16)]
     else [c])"

definition json_print :: "ustr \<Rightarrow> ustr" where
  "json_print s = 34 # concat (map print_char s) @ [34]"

lemma to_digit16_hex_char: "d < 16 \<Longrightarrow> to_digit16 (hex_char d) = Some d"
  by (auto simp: to_digit16_def hex_char_def)

lemma print_char_encodes: "json_char (print_char c) c"
proof -
  have "hex4 [48, 48, hex_char (c div 16), hex_char (c mod 16)] c" if "c < 32"
  proof -
    have "to_digit16 48 = Some 0" "to_digit16 (hex_char (c div 16)) = Some (c div 16)"
      "to_digit16 (hex_char (c mod 16)) = Some (c mod 16)"
      using that by (auto simp: to_digit16_hex_char) (simp add: to_digit16_def)
    then show ?thesis unfolding hex4_def by (intro exI conjI) (rule refl, assumption+, simp)
  qed
  then show ?thesis by (auto simp: print_char_def short_escapes_def intro: json_char.intros)
qed

lemma print_encodes: "json_encodes (concat (map print_char s)) s"
  by (induction s) (auto intro: json_encodes.intros print_char_encodes)

lemma print_escaped: "92 \<in> set (concat (map print_char s)) \<longleftrightarrow> (\<exists>c \<in> set s. c = 34 \<or> c = 92 \<or> c < 32)"
  by (auto simp: print_char_def)


end
