(* ===== verification/Json_Value.thy ===== *)
theory Json_Value
  imports Json_String "HOL-Library.List_Lexorder"
begin

text \<open>
  Bounded JSON values (\<open>loupe-core/src/text/json.rs\<close>) and their canonical form
  (\<open>canonical.rs\<close>). The parser of \<open>serde_json\<close> is a parameter: it turns a document into the tree
  of what it offers to the visitor, up to the first syntax error, and says whether anything
  follows the value. Its renderer and the digest are parameters too. A float is its bit
  pattern. Strings are ordered by code points, which is the order of their UTF-8 bytes.
\<close>

section \<open>Values\<close>

datatype json_number = NInt int | NFloat nat

datatype json = Null | JBoolean bool | Number json_number | JString ustr | JArray "json list"
  | JObject "(ustr \<times> json) list"

text \<open>
  \<open>RBad\<close> is a value with a syntax error. The flag of a container is false if a syntax error
  follows the listed members before the next one; a member without a value lacks its colon.
\<close>

datatype raw_json = RBad | RNull | RBool bool | RInt int | RFloat nat | RStr ustr
  | RArr "raw_json list" bool | RObj "(ustr \<times> raw_json option) list" bool

section \<open>The visitor\<close>

record json_policy =
  jp_field :: string
  jp_max_bytes :: nat
  jp_max_depth :: nat
  jp_max_nodes :: nat

definition payload_policy :: json_policy where
  "payload_policy = \<lparr>jp_field = ''payload'', jp_max_bytes = 64 * 1024, jp_max_depth = 16, jp_max_nodes = 4096\<rparr>"

definition generated_profile_policy :: json_policy where
  "generated_profile_policy =
    \<lparr>jp_field = ''generated_profile'', jp_max_bytes = 32 * 1024, jp_max_depth = 16, jp_max_nodes = 4096\<rparr>"

record visit_state =
  vs_nodes :: nat
  vs_bytes :: nat
  vs_error :: "text_error option"

definition vs_start :: visit_state where
  "vs_start = \<lparr>vs_nodes = 0, vs_bytes = 0, vs_error = None\<rparr>"

definition vs_reject :: "text_error \<Rightarrow> visit_state \<Rightarrow> 'a option \<times> visit_state" where
  "vs_reject e st = (None, st\<lparr>vs_error := Some e\<rparr>)"

text \<open>\<open>State::charge\<close>; the sum cannot saturate below the cap of a policy.\<close>

definition vs_charge :: "json_policy \<Rightarrow> nat \<Rightarrow> visit_state \<Rightarrow> unit option \<times> visit_state" where
  "vs_charge P n st =
    (let st1 = st\<lparr>vs_bytes := vs_bytes st + n\<rparr> in
     if vs_bytes st1 > jp_max_bytes P then vs_reject (text_error_new (jp_field P) RBytes) st1
     else (Some (), st1))"

definition is_finite_f64 :: "nat \<Rightarrow> bool" where
  "is_finite_f64 bits \<longleftrightarrow> bits div 4503599627370496 mod 2048 \<noteq> 2047"

definition visit_str :: "unicode \<Rightarrow> json_policy \<Rightarrow> ustr \<Rightarrow> visit_state \<Rightarrow> json option \<times> visit_state" where
  "visit_str U P s st =
    (case vs_charge P (length (utf8s s)) st of
       (None, st1) \<Rightarrow> (None, st1)
     | (Some _, st1) \<Rightarrow>
        (case checked_text U json_leaf s of
           Err e \<Rightarrow> vs_reject e st1
         | Ok t \<Rightarrow> (Some (JString t), st1)))"

text \<open>The part of \<open>visit_map\<close> that admits a key.\<close>

definition visit_key ::
  "unicode \<Rightarrow> json_policy \<Rightarrow> (ustr \<times> json) list \<Rightarrow> ustr \<Rightarrow> visit_state \<Rightarrow> unit option \<times> visit_state" where
  "visit_key U P members key st =
    (case vs_charge P (length (utf8s key)) st of
       (None, st1) \<Rightarrow> (None, st1)
     | (Some _, st1) \<Rightarrow>
        (case check_identifier U json_key key of
           Err e \<Rightarrow> vs_reject e st1
         | Ok _ \<Rightarrow>
            if key \<in> fst ` set members then vs_reject (text_error_new (jp_field P) RJsonDuplicateKey) st1
            else (Some (), st1)))"

fun visit_node :: "unicode \<Rightarrow> json_policy \<Rightarrow> nat \<Rightarrow> raw_json \<Rightarrow> visit_state \<Rightarrow> json option \<times> visit_state"
and visit_seq :: "unicode \<Rightarrow> json_policy \<Rightarrow> nat \<Rightarrow> bool \<Rightarrow> json list \<Rightarrow> raw_json list \<Rightarrow> visit_state \<Rightarrow> json list option \<times> visit_state"
and visit_map :: "unicode \<Rightarrow> json_policy \<Rightarrow> nat \<Rightarrow> bool \<Rightarrow> (ustr \<times> json) list \<Rightarrow> (ustr \<times> raw_json option) list \<Rightarrow>
  visit_state \<Rightarrow> (ustr \<times> json) list option \<times> visit_state" where
  "visit_node U P depth r st =
    (if depth > jp_max_depth P then vs_reject (text_error_new (jp_field P) RJsonDepth) st
     else let st1 = st\<lparr>vs_nodes := vs_nodes st + 1\<rparr> in
     if vs_nodes st1 > jp_max_nodes P then vs_reject (text_error_new (jp_field P) RJsonNodes) st1
     else (case r of
         RBad \<Rightarrow> (None, st1)
       | RNull \<Rightarrow> (Some Null, st1)
       | RBool b \<Rightarrow> (Some (JBoolean b), st1)
       | RInt n \<Rightarrow> (Some (Number (NInt n)), st1)
       | RFloat f \<Rightarrow> if is_finite_f64 f then (Some (Number (NFloat f)), st1)
                    else vs_reject (text_error_new (jp_field P) RJsonSyntax) st1
       | RStr s \<Rightarrow> visit_str U P s st1
       | RArr rs closed \<Rightarrow> map_prod (map_option JArray) id (visit_seq U P (depth + 1) closed [] rs st1)
       | RObj ms closed \<Rightarrow> map_prod (map_option JObject) id (visit_map U P (depth + 1) closed [] ms st1)))"
| "visit_seq U P depth closed acc [] st = (if closed then Some acc else None, st)"
| "visit_seq U P depth closed acc (r # rs) st =
    (case visit_node U P depth r st of
       (None, st1) \<Rightarrow> (None, st1)
     | (Some v, st1) \<Rightarrow> visit_seq U P depth closed (acc @ [v]) rs st1)"
| "visit_map U P depth closed members [] st = (if closed then Some members else None, st)"
| "visit_map U P depth closed members ((key, r) # ms) st =
    (case visit_key U P members key st of
       (None, st1) \<Rightarrow> (None, st1)
     | (Some _, st1) \<Rightarrow>
        (case r of None \<Rightarrow> (None, st1)
         | Some r' \<Rightarrow>
            (case visit_node U P depth r' st1 of
               (None, st2) \<Rightarrow> (None, st2)
             | (Some v, st2) \<Rightarrow> visit_map U P depth closed (members @ [(key, v)]) ms st2)))"

declare visit_node.simps [simp del]

section \<open>The canonical form\<close>

primrec ordered :: "json \<Rightarrow> json" where
  "ordered Null = Null"
| "ordered (JBoolean b) = JBoolean b"
| "ordered (Number n) = Number n"
| "ordered (JString s) = JString s"
| "ordered (JArray vs) = JArray (map ordered vs)"
| "ordered (JObject fs) = JObject (sort_key fst (map (map_prod id ordered) fs))"

record json_codec =
  jc_parse :: "ustr \<Rightarrow> raw_json \<times> bool"
  jc_to_vec :: "json \<Rightarrow> nat list"
  jc_digest :: "nat list \<Rightarrow> nat list"

definition canonical_bytes :: "json_codec \<Rightarrow> json \<Rightarrow> nat list" where
  "canonical_bytes C v = jc_to_vec C (ordered v)"

record checked_json =
  cj_value :: json
  cj_canonical :: "nat list"
  cj_digest :: "nat list"

definition checked_json_finish :: "json_codec \<Rightarrow> json_policy \<Rightarrow> json \<Rightarrow> (checked_json, text_error) result" where
  "checked_json_finish C P v =
    (let canonical = canonical_bytes C v in
     if length canonical > jp_max_bytes P then Err (text_error_new (jp_field P) RBytes)
     else Ok \<lparr>cj_value = v, cj_canonical = canonical, cj_digest = jc_digest C canonical\<rparr>)"

definition checked_json_parse :: "unicode \<Rightarrow> json_codec \<Rightarrow> json_policy \<Rightarrow> ustr \<Rightarrow> (checked_json, text_error) result" where
  "checked_json_parse U C P raw =
    (if length (utf8s raw) > jp_max_bytes P then Err (text_error_new (jp_field P) RBytes)
     else case jc_parse C raw of (tree, at_end) \<Rightarrow>
       (case visit_node U P 1 tree vs_start of
          (None, st) \<Rightarrow> Err (case vs_error st of Some e \<Rightarrow> e | None \<Rightarrow> text_error_new (jp_field P) RJsonSyntax)
        | (Some v, st) \<Rightarrow>
           if \<not> at_end then Err (text_error_new (jp_field P) RJsonSyntax)
           else checked_json_finish C P v))"

section \<open>Measures of a document\<close>

definition leaf_ok :: "unicode \<Rightarrow> ustr \<Rightarrow> bool" where
  "leaf_ok U s \<longleftrightarrow> is_ok (checked_text U json_leaf s)"

definition key_ok :: "unicode \<Rightarrow> ustr \<Rightarrow> bool" where
  "key_ok U k \<longleftrightarrow> is_ok (check_identifier U json_key k)"

definition leaf_text :: "unicode \<Rightarrow> ustr \<Rightarrow> ustr" where
  "leaf_text U s = (case checked_text U json_leaf s of Ok t \<Rightarrow> t | Err _ \<Rightarrow> s)"

fun raw_nodes :: "raw_json \<Rightarrow> nat"
and seq_nodes :: "raw_json list \<Rightarrow> nat"
and map_nodes :: "(ustr \<times> raw_json option) list \<Rightarrow> nat" where
  "raw_nodes r = Suc (case r of RArr rs _ \<Rightarrow> seq_nodes rs | RObj ms _ \<Rightarrow> map_nodes ms | _ \<Rightarrow> 0)"
| "seq_nodes [] = 0"
| "seq_nodes (r # rs) = raw_nodes r + seq_nodes rs"
| "map_nodes [] = 0"
| "map_nodes ((k, r) # ms) = (case r of None \<Rightarrow> 0 | Some r' \<Rightarrow> raw_nodes r') + map_nodes ms"

fun raw_bytes :: "raw_json \<Rightarrow> nat"
and seq_bytes :: "raw_json list \<Rightarrow> nat"
and map_bytes :: "(ustr \<times> raw_json option) list \<Rightarrow> nat" where
  "raw_bytes r = (case r of RStr s \<Rightarrow> length (utf8s s) | RArr rs _ \<Rightarrow> seq_bytes rs | RObj ms _ \<Rightarrow> map_bytes ms | _ \<Rightarrow> 0)"
| "seq_bytes [] = 0"
| "seq_bytes (r # rs) = raw_bytes r + seq_bytes rs"
| "map_bytes [] = 0"
| "map_bytes ((k, r) # ms) = length (utf8s k) + (case r of None \<Rightarrow> 0 | Some r' \<Rightarrow> raw_bytes r') + map_bytes ms"

fun raw_depth :: "raw_json \<Rightarrow> nat"
and seq_depth :: "raw_json list \<Rightarrow> nat"
and map_depth :: "(ustr \<times> raw_json option) list \<Rightarrow> nat" where
  "raw_depth r = Suc (case r of RArr rs _ \<Rightarrow> seq_depth rs | RObj ms _ \<Rightarrow> map_depth ms | _ \<Rightarrow> 0)"
| "seq_depth [] = 0"
| "seq_depth (r # rs) = max (raw_depth r) (seq_depth rs)"
| "map_depth [] = 0"
| "map_depth ((k, r) # ms) = max (case r of None \<Rightarrow> 0 | Some r' \<Rightarrow> raw_depth r') (map_depth ms)"

fun raw_ok :: "unicode \<Rightarrow> raw_json \<Rightarrow> bool"
and seq_ok :: "unicode \<Rightarrow> raw_json list \<Rightarrow> bool"
and map_ok_raw :: "unicode \<Rightarrow> (ustr \<times> raw_json option) list \<Rightarrow> bool" where
  "raw_ok U r = (case r of RBad \<Rightarrow> False | RFloat f \<Rightarrow> is_finite_f64 f | RStr s \<Rightarrow> leaf_ok U s
     | RArr rs closed \<Rightarrow> closed \<and> seq_ok U rs
     | RObj ms closed \<Rightarrow> closed \<and> map_ok_raw U ms \<and> distinct (map fst ms) | _ \<Rightarrow> True)"
| "seq_ok U [] = True"
| "seq_ok U (r # rs) = (raw_ok U r \<and> seq_ok U rs)"
| "map_ok_raw U [] = True"
| "map_ok_raw U ((k, r) # ms) = (key_ok U k \<and> (case r of None \<Rightarrow> False | Some r' \<Rightarrow> raw_ok U r') \<and> map_ok_raw U ms)"

fun raw_value :: "unicode \<Rightarrow> raw_json \<Rightarrow> json"
and seq_value :: "unicode \<Rightarrow> raw_json list \<Rightarrow> json list"
and map_value :: "unicode \<Rightarrow> (ustr \<times> raw_json option) list \<Rightarrow> (ustr \<times> json) list" where
  "raw_value U r = (case r of RBad \<Rightarrow> Null | RNull \<Rightarrow> Null | RBool b \<Rightarrow> JBoolean b | RInt n \<Rightarrow> Number (NInt n)
     | RFloat f \<Rightarrow> Number (NFloat f) | RStr s \<Rightarrow> JString (leaf_text U s)
     | RArr rs _ \<Rightarrow> JArray (seq_value U rs) | RObj ms _ \<Rightarrow> JObject (map_value U ms))"
| "seq_value U [] = []"
| "seq_value U (r # rs) = raw_value U r # seq_value U rs"
| "map_value U [] = []"
| "map_value U ((k, r) # ms) = (k, (case r of None \<Rightarrow> Null | Some r' \<Rightarrow> raw_value U r')) # map_value U ms"

declare raw_nodes.simps [simp del] raw_bytes.simps [simp del] raw_depth.simps [simp del]
  raw_ok.simps [simp del] raw_value.simps [simp del]

lemmas raw_simps = raw_nodes.simps raw_bytes.simps raw_depth.simps raw_ok.simps raw_value.simps

section \<open>What the visitor accepts\<close>

definition vs_add :: "nat \<Rightarrow> nat \<Rightarrow> visit_state \<Rightarrow> visit_state" where
  "vs_add n b st = st\<lparr>vs_nodes := vs_nodes st + n, vs_bytes := vs_bytes st + b\<rparr>"

lemma vs_add_simps [simp]:
  "vs_nodes (vs_add n b st) = vs_nodes st + n" "vs_bytes (vs_add n b st) = vs_bytes st + b"
  "vs_add 0 0 st = st" "vs_add n b (vs_add n' b' st) = vs_add (n' + n) (b' + b) st"
  by (simp_all add: vs_add_def add.assoc)

lemma vs_charge_eq:
  "vs_charge P n st = (if vs_bytes st + n \<le> jp_max_bytes P then (Some (), vs_add 0 n st)
     else vs_reject (text_error_new (jp_field P) RBytes) (vs_add 0 n st))"
  by (simp add: vs_charge_def Let_def vs_add_def)

lemma vs_reject_Some [simp]: "vs_reject e st \<noteq> (Some v, st')"
  by (simp add: vs_reject_def)

lemma visit_str_iff:
  "visit_str U P s st = (Some v, st') \<longleftrightarrow> leaf_ok U s \<and> vs_bytes st + length (utf8s s) \<le> jp_max_bytes P \<and>
     v = JString (leaf_text U s) \<and> st' = vs_add 0 (length (utf8s s)) st"
  by (cases "checked_text U json_leaf s")
    (auto simp: visit_str_def vs_charge_eq vs_reject_def leaf_ok_def leaf_text_def)

lemma visit_key_iff:
  "visit_key U P members k st = (Some u, st') \<longleftrightarrow> key_ok U k \<and> k \<notin> fst ` set members \<and>
     vs_bytes st + length (utf8s k) \<le> jp_max_bytes P \<and> st' = vs_add 0 (length (utf8s k)) st"
  by (cases "check_identifier U json_key k")
    (auto simp: visit_key_def vs_charge_eq vs_reject_def key_ok_def)

definition fits :: "json_policy \<Rightarrow> nat \<Rightarrow> nat \<Rightarrow> nat \<Rightarrow> nat \<Rightarrow> visit_state \<Rightarrow> bool" where
  "fits P depth d n b st \<longleftrightarrow> depth + d \<le> Suc (jp_max_depth P) \<and> vs_nodes st + n \<le> jp_max_nodes P \<and>
     vs_bytes st + b \<le> jp_max_bytes P"

lemma fits_child:
  "depth \<le> jp_max_depth P \<Longrightarrow> fits P (depth + 1) d n b (vs_add 1 0 st) \<longleftrightarrow> fits P depth (Suc d) (Suc n) b st"
  by (auto simp: fits_def)

lemma visit_node_container:
  assumes "depth \<le> jp_max_depth P" "vs_nodes st + 1 \<le> jp_max_nodes P"
  shows "visit_node U P depth (RArr rs closed) st =
      map_prod (map_option JArray) id (visit_seq U P (depth + 1) closed [] rs (vs_add 1 0 st))"
    and "visit_node U P depth (RObj ms closed) st =
      map_prod (map_option JObject) id (visit_map U P (depth + 1) closed [] ms (vs_add 1 0 st))"
  using assms by (simp_all add: visit_node.simps Let_def vs_add_def)

lemma vs_add_one: "vs_add n b (vs_add 1 0 st) = vs_add (Suc n) b st"
  by simp

lemma map_prod_Some:
  "map_prod (map_option f) id p = (Some v, st') \<longleftrightarrow> (\<exists>x. p = (Some x, st') \<and> v = f x)"
  by (cases p) auto

lemma visit_iff:
  shows "fits P 0 0 0 0 st \<Longrightarrow> visit_node U P depth r st = (Some v, st') \<longleftrightarrow>
      raw_ok U r \<and> fits P depth (raw_depth r) (raw_nodes r) (raw_bytes r) st \<and> v = raw_value U r \<and>
      st' = vs_add (raw_nodes r) (raw_bytes r) st"
    and "fits P depth 0 0 0 st \<Longrightarrow> visit_seq U P depth closed acc rs st = (Some vs, st') \<longleftrightarrow>
      closed \<and> seq_ok U rs \<and> fits P depth (seq_depth rs) (seq_nodes rs) (seq_bytes rs) st \<and> vs = acc @ seq_value U rs \<and>
      st' = vs_add (seq_nodes rs) (seq_bytes rs) st"
    and "fits P depth 0 0 0 st \<Longrightarrow> visit_map U P depth closed members ms st = (Some fs, st') \<longleftrightarrow>
      closed \<and> map_ok_raw U ms \<and> distinct (map fst ms) \<and> fst ` set members \<inter> fst ` set ms = {} \<and>
      fits P depth (map_depth ms) (map_nodes ms) (map_bytes ms) st \<and> fs = members @ map_value U ms \<and>
      st' = vs_add (map_nodes ms) (map_bytes ms) st"
proof (induction U P depth r st and U P depth closed acc rs st and U P depth closed members ms st
    arbitrary: v st' and vs st' and fs st' rule: visit_node_visit_seq_visit_map.induct)
  case (1 U P depth r st)
  let ?st1 = "st\<lparr>vs_nodes := vs_nodes st + 1\<rparr>"
  have st1: "?st1 = vs_add 1 0 st" by (simp add: vs_add_def)
  show ?case
  proof (cases "depth \<le> jp_max_depth P \<and> vs_nodes st + 1 \<le> jp_max_nodes P")
    case False
    then show ?thesis by (auto simp: visit_node.simps Let_def fits_def raw_depth.simps raw_nodes.simps)
  next
    case True
    then have room: "fits P (depth + 1) 0 0 0 (vs_add 1 0 st)" using 1(3) by (simp add: fits_def)
    have d: "\<not> jp_max_depth P < depth" "\<not> jp_max_nodes P < vs_nodes ?st1" using True by auto
    show ?thesis
    proof (cases r)
      case (RArr rs closed)
      have "visit_seq U P (depth + 1) closed [] rs (vs_add 1 0 st) = (Some vs, st') \<longleftrightarrow>
          closed \<and> seq_ok U rs \<and> fits P (depth + 1) (seq_depth rs) (seq_nodes rs) (seq_bytes rs) (vs_add 1 0 st) \<and>
          vs = seq_value U rs \<and> st' = vs_add (seq_nodes rs) (seq_bytes rs) (vs_add 1 0 st)" for vs
        using 1(1)[OF d(1) refl d(2) RArr, unfolded st1, OF room] by (simp only: append_Nil)
      note inner = this
      have parts: "raw_ok U r \<longleftrightarrow> closed \<and> seq_ok U rs" "raw_value U r = JArray (seq_value U rs)"
        "raw_nodes r = Suc (seq_nodes rs)" "raw_bytes r = seq_bytes rs" "raw_depth r = Suc (seq_depth rs)"
        by (simp_all add: RArr raw_simps)
      have "visit_node U P depth r st = (Some v, st') \<longleftrightarrow>
          (\<exists>x. visit_seq U P (depth + 1) closed [] rs (vs_add 1 0 st) = (Some x, st') \<and> v = JArray x)"
        unfolding RArr by (simp only: visit_node_container[OF conjunct1[OF True] conjunct2[OF True]] map_prod_Some)
      then show ?thesis unfolding inner fits_child[OF conjunct1[OF True]] parts vs_add_one by blast
    next
      case (RObj ms closed)
      have "visit_map U P (depth + 1) closed [] ms (vs_add 1 0 st) = (Some fs, st') \<longleftrightarrow>
          closed \<and> map_ok_raw U ms \<and> distinct (map fst ms) \<and>
          fits P (depth + 1) (map_depth ms) (map_nodes ms) (map_bytes ms) (vs_add 1 0 st) \<and>
          fs = map_value U ms \<and> st' = vs_add (map_nodes ms) (map_bytes ms) (vs_add 1 0 st)" for fs
        using 1(2)[OF d(1) refl d(2) RObj, unfolded st1, OF room]
        by (simp only: append_Nil set_simps image_empty Int_empty_left simp_thms)
      note inner = this
      have parts: "raw_ok U r \<longleftrightarrow> closed \<and> map_ok_raw U ms \<and> distinct (map fst ms)" "raw_value U r = JObject (map_value U ms)"
        "raw_nodes r = Suc (map_nodes ms)" "raw_bytes r = map_bytes ms" "raw_depth r = Suc (map_depth ms)"
        by (simp_all add: RObj raw_simps)
      have "visit_node U P depth r st = (Some v, st') \<longleftrightarrow>
          (\<exists>x. visit_map U P (depth + 1) closed [] ms (vs_add 1 0 st) = (Some x, st') \<and> v = JObject x)"
        unfolding RObj by (simp only: visit_node_container[OF conjunct1[OF True] conjunct2[OF True]] map_prod_Some)
      then show ?thesis unfolding inner fits_child[OF conjunct1[OF True]] parts vs_add_one by blast
    qed (use True 1(3) in \<open>auto simp: visit_node.simps Let_def raw_simps fits_def visit_str_iff vs_add_def\<close>)
  qed
next
  case (2 U P depth closed acc st)
  then show ?case by (auto simp: fits_def)
next
  case (3 U P depth closed acc r rs st)
  have small: "fits P 0 0 0 0 st" using 3(3) by (simp add: fits_def)
  show ?case
  proof (cases "raw_ok U r \<and> fits P depth (raw_depth r) (raw_nodes r) (raw_bytes r) st")
    case True
    let ?st1 = "vs_add (raw_nodes r) (raw_bytes r) st"
    have node: "visit_node U P depth r st = (Some (raw_value U r), ?st1)" using 3(1)[OF small] True by blast
    have "fits P depth 0 0 0 ?st1" using True by (simp add: fits_def)
    from 3(2)[OF node[symmetric] refl this] show ?thesis using True node
      by (auto simp: fits_def add.assoc)
  next
    case False
    then have "fst (visit_node U P depth r st) = None"
      using 3(1)[OF small, of _ "snd (visit_node U P depth r st)"] by (metis not_None_eq prod.collapse)
    then show ?thesis using False by (cases "visit_node U P depth r st") (auto simp: fits_def)
  qed
next
  case (4 U P depth closed members st)
  then show ?case by (auto simp: fits_def)
next
  case (5 U P depth closed members key r ms st)
  show ?case
  proof (cases "key_ok U key \<and> key \<notin> fst ` set members \<and> vs_bytes st + length (utf8s key) \<le> jp_max_bytes P")
    case False
    then have "fst (visit_key U P members key st) = None"
      using visit_key_iff[of U P members key st _ "snd (visit_key U P members key st)"]
      by (metis not_None_eq prod.collapse)
    then show ?thesis using False by (cases "visit_key U P members key st") (auto simp: fits_def)
  next
    case True
    let ?st1 = "vs_add 0 (length (utf8s key)) st"
    have k: "visit_key U P members key st = (Some (), ?st1)" using True by (simp add: visit_key_iff)
    have small: "fits P 0 0 0 0 ?st1" "fits P depth 0 0 0 ?st1" using True 5(3) by (simp_all add: fits_def)
    show ?thesis
    proof (cases r)
      case None
      then show ?thesis by (simp add: k)
    next
      case (Some r')
      note node = 5(1)[OF k[symmetric] refl Some small(1)]
      show ?thesis
      proof (cases "raw_ok U r' \<and> fits P depth (raw_depth r') (raw_nodes r') (raw_bytes r') ?st1")
        case ok: True
        let ?st2 = "vs_add (raw_nodes r') (raw_bytes r') ?st1"
        have n: "visit_node U P depth r' ?st1 = (Some (raw_value U r'), ?st2)" using node ok by blast
        have "fits P depth 0 0 0 ?st2" using ok by (simp add: fits_def)
        from 5(2)[OF k[symmetric] refl Some n[symmetric] refl this] show ?thesis
          using True ok n k Some by (auto simp: fits_def add.assoc image_iff)
      next
        case False
        then have "fst (visit_node U P depth r' ?st1) = None"
          using node[of _ "snd (visit_node U P depth r' ?st1)"] by (metis not_None_eq prod.collapse)
        then show ?thesis using False Some k by (cases "visit_node U P depth r' ?st1") (auto simp: fits_def)
      qed
    qed
  qed
qed

lemma checked_json_parse_iff:
  "checked_json_parse U C P raw = Ok cj \<longleftrightarrow>
    (\<exists>tree. jc_parse C raw = (tree, True) \<and> length (utf8s raw) \<le> jp_max_bytes P \<and> raw_ok U tree \<and>
      raw_depth tree \<le> jp_max_depth P \<and> raw_nodes tree \<le> jp_max_nodes P \<and> raw_bytes tree \<le> jp_max_bytes P \<and>
      length (canonical_bytes C (raw_value U tree)) \<le> jp_max_bytes P \<and>
      cj = \<lparr>cj_value = raw_value U tree, cj_canonical = canonical_bytes C (raw_value U tree),
            cj_digest = jc_digest C (canonical_bytes C (raw_value U tree))\<rparr>)"
proof -
  obtain tree at_end where parse: "jc_parse C raw = (tree, at_end)" by fastforce
  have "fits P 0 0 0 0 vs_start" by (simp add: fits_def vs_start_def)
  note node = visit_iff(1)[OF this, of U 1 tree]
  have fit: "fits P 1 (raw_depth tree) (raw_nodes tree) (raw_bytes tree) vs_start \<longleftrightarrow>
      raw_depth tree \<le> jp_max_depth P \<and> raw_nodes tree \<le> jp_max_nodes P \<and> raw_bytes tree \<le> jp_max_bytes P"
    by (auto simp: fits_def vs_start_def)
  show ?thesis
  proof (cases "raw_ok U tree \<and> raw_depth tree \<le> jp_max_depth P \<and> raw_nodes tree \<le> jp_max_nodes P \<and>
      raw_bytes tree \<le> jp_max_bytes P")
    case True
    then have "visit_node U P 1 tree vs_start = (Some (raw_value U tree), vs_add (raw_nodes tree) (raw_bytes tree) vs_start)"
      using node fit by blast
    then show ?thesis using True by (auto simp: checked_json_parse_def checked_json_finish_def parse Let_def)
  next
    case False
    then obtain st where "visit_node U P 1 tree vs_start = (None, st)"
      using node fit by (metis not_None_eq prod.collapse)
    then show ?thesis using False by (auto simp: checked_json_parse_def parse)
  qed
qed

text \<open>
  C31: A bounded JSON document is accepted exactly when its text and its canonical form fit the byte cap,
  it is one complete syntactically correct value, it nests at most the allowed depth, has at most the
  allowed number of values, its strings and keys together fit the byte cap, every
  string is a valid prose leaf, every key is a valid identifier and no object repeats
  a key. The result is the document with its strings normalised, together with the canonical
  bytes and their digest.\<close>

theorem bounded_json_correct:
  "checked_json_parse U C P raw = Ok cj \<longleftrightarrow>
    (\<exists>tree. jc_parse C raw = (tree, True) \<and> length (utf8s raw) \<le> jp_max_bytes P \<and> raw_ok U tree \<and>
      raw_depth tree \<le> jp_max_depth P \<and> raw_nodes tree \<le> jp_max_nodes P \<and> raw_bytes tree \<le> jp_max_bytes P \<and>
      length (canonical_bytes C (raw_value U tree)) \<le> jp_max_bytes P \<and>
      cj = \<lparr>cj_value = raw_value U tree, cj_canonical = canonical_bytes C (raw_value U tree),
            cj_digest = jc_digest C (canonical_bytes C (raw_value U tree))\<rparr>)"
  by (rule checked_json_parse_iff)

section \<open>The canonical form decides equality\<close>

text \<open>What a value means: objects are finite maps.\<close>

datatype meaning = MAtom json | MArr "meaning list" | MObj "ustr \<Rightarrow> meaning option"

primrec sem :: "json \<Rightarrow> meaning" where
  "sem Null = MAtom Null"
| "sem (JBoolean b) = MAtom (JBoolean b)"
| "sem (Number n) = MAtom (Number n)"
| "sem (JString s) = MAtom (JString s)"
| "sem (JArray vs) = MArr (map sem vs)"
| "sem (JObject fs) = MObj (map_of (map (map_prod id sem) fs))"

fun keys_distinct :: "json \<Rightarrow> bool" where
  "keys_distinct (JArray vs) = list_all keys_distinct vs"
| "keys_distinct (JObject fs) = (distinct (map fst fs) \<and> list_all (\<lambda>(k, v). keys_distinct v) fs)"
| "keys_distinct _ = True"

lemma map_fst_map_prod [simp]: "map fst (map (map_prod id f) fs) = map fst fs"
  by (induction fs) auto

lemma sort_key_fst: "distinct (map fst fs) \<Longrightarrow> map_of (sort_key fst fs) = map_of (fs :: (ustr \<times> 'a) list)"
  by (subst map_of_inject_set) (auto simp: distinct_map inj_on_def)

lemma map_of_map_prod: "map_of (map (map_prod id f) fs) k = map_option f (map_of fs k)"
  by (induction fs) auto

lemma sem_ordered: "keys_distinct v \<Longrightarrow> sem (ordered v) = sem v"
proof (induction v)
  case (JObject fs)
  have "map_option sem (map_option ordered (map_of fs k)) = map_option sem (map_of fs k)" for k
    using JObject by (cases "map_of fs k") (fastforce simp: list_all_iff dest: map_of_SomeD)+
  then show ?case using JObject.prems by (auto simp: fun_eq_iff map_of_map_prod sort_key_fst)
qed (auto simp: list_all_iff)

lemma sort_key_unique:
  fixes fs gs :: "(ustr \<times> 'a) list"
  assumes "distinct (map fst fs)" "distinct (map fst gs)" "set fs = set gs"
  shows "sort_key fst fs = sort_key fst gs"
  using assms by (intro map_sorted_distinct_set_unique[where f = fst]) (simp_all add: distinct_map)

lemma counterpart:
  assumes "set (map (map_prod id f) fs) = set (map (map_prod id f) gs)" "(k, v) \<in> set fs"
  obtains v' where "(k, v') \<in> set gs" "f v' = f v"
proof -
  have "(k, f v) \<in> set (map (map_prod id f) fs)" using assms(2) by (auto simp: image_iff intro!: bexI[of _ "(k, v)"])
  then have "(k, f v) \<in> map_prod id f ` set gs" using assms(1) by simp
  then show thesis using that by auto
qed

lemma ordered_cong: "keys_distinct v \<Longrightarrow> keys_distinct w \<Longrightarrow> sem v = sem w \<Longrightarrow> ordered v = ordered w"
proof (induction v arbitrary: w)
  case (JArray vs)
  then obtain ws where w: "w = JArray ws" by (cases w) auto
  have "map ordered vs = map ordered ws"
    using JArray w by (auto simp: list_all_iff list_eq_iff_nth_eq)
  then show ?case by (simp add: w)
next
  case (JObject fs)
  then obtain gs where w: "w = JObject gs" by (cases w) auto
  have d: "distinct (map fst fs)" "distinct (map fst gs)" using JObject w by auto
  have eq: "set (map (map_prod id sem) fs) = set (map (map_prod id sem) gs)"
    using JObject.prems w d map_of_inject_set[of "map (map_prod id sem) fs" "map (map_prod id sem) gs"] by simp
  have step: "ordered v = ordered v'" if "(k, v) \<in> set fs" "(k, v') \<in> set gs" "sem v = sem v'" for k v v'
    using JObject.IH[of "(k, v)" v v'] JObject.prems w that by (auto simp: list_all_iff)
  have "set (map (map_prod id ordered) fs) = set (map (map_prod id ordered) gs)"
  proof (intro set_eqI iffI)
    fix p assume "p \<in> set (map (map_prod id ordered) fs)"
    then obtain k v where p: "p = (k, ordered v)" "(k, v) \<in> set fs" by auto
    from counterpart[OF eq p(2)] obtain v' where v': "(k, v') \<in> set gs" "sem v' = sem v" .
    from step[OF p(2) v'(1)] v' have "p = map_prod id ordered (k, v')" by (simp add: p)
    then show "p \<in> set (map (map_prod id ordered) gs)" using v'(1) by (simp only: set_map image_eqI)
  next
    fix p assume "p \<in> set (map (map_prod id ordered) gs)"
    then obtain k v' where p: "p = (k, ordered v')" "(k, v') \<in> set gs" by auto
    from counterpart[OF eq[symmetric] p(2)] obtain v where v: "(k, v) \<in> set fs" "sem v = sem v'" .
    from step[OF v(1) p(2)] v have "p = map_prod id ordered (k, v)" by (simp add: p)
    then show "p \<in> set (map (map_prod id ordered) fs)" using v(1) by (simp only: set_map image_eqI)
  qed
  then have "sort_key fst (map (map_prod id ordered) fs) = sort_key fst (map (map_prod id ordered) gs)"
    using d by (intro sort_key_unique) (simp_all only: map_fst_map_prod)
  then show ?case by (simp add: w)
qed (case_tac w; simp)+

lemma raw_value_keys_distinct:
  shows "raw_ok U r \<Longrightarrow> keys_distinct (raw_value U r)"
    and "seq_ok U rs \<Longrightarrow> list_all keys_distinct (seq_value U rs)"
    and "map_ok_raw U ms \<Longrightarrow> list_all (\<lambda>(k, v). keys_distinct v) (map_value U ms) \<and> map fst (map_value U ms) = map fst ms"
proof (induction U r and U rs and U ms rule: raw_ok_seq_ok_map_ok_raw.induct)
  case (1 U r)
  then show ?case by (cases r) (auto simp: raw_ok.simps raw_value.simps)
qed (auto split: option.splits)

text \<open>
  C32: The canonical form of a checked document depends only on its meaning, and decides it. Two accepted
  documents that mean the same (equal up to the order of the members of objects, at every level, and
  the layout of the text) have the same canonical bytes and the same digest; and the ordered
  trees that are rendered differ whenever the meanings differ.\<close>

theorem canonical_form_decides:
  assumes "checked_json_parse U C P raw = Ok a" "checked_json_parse U C P' raw' = Ok b"
  shows "(sem (cj_value a) = sem (cj_value b) \<longrightarrow> cj_canonical a = cj_canonical b \<and> cj_digest a = cj_digest b) \<and>
    (ordered (cj_value a) = ordered (cj_value b) \<longleftrightarrow> sem (cj_value a) = sem (cj_value b))"
proof -
  have keys: "keys_distinct (cj_value x) \<and> cj_canonical x = canonical_bytes C (cj_value x) \<and>
      cj_digest x = jc_digest C (cj_canonical x)" if "checked_json_parse U C Q r = Ok x" for Q r x
    using that unfolding checked_json_parse_iff by (auto intro: raw_value_keys_distinct)
  have iff: "ordered (cj_value a) = ordered (cj_value b) \<longleftrightarrow> sem (cj_value a) = sem (cj_value b)"
    using keys[OF assms(1)] keys[OF assms(2)] ordered_cong sem_ordered by metis
  then show ?thesis using keys[OF assms(1)] keys[OF assms(2)] unfolding canonical_bytes_def by metis
qed

definition sample_codec :: json_codec where
  "sample_codec =
    \<lparr>jc_parse = (\<lambda>raw. if raw = ascii ''ab'' then (RObj [(ascii ''a'', Some RNull), (ascii ''b'', Some (RInt 1))] True, True)
       else (RObj [(ascii ''b'', Some (RInt 1)), (ascii ''a'', Some RNull)] True, True)),
     jc_to_vec = (\<lambda>v. case v of JObject fs \<Rightarrow> concat (map fst fs) | _ \<Rightarrow> []), jc_digest = (\<lambda>bs. bs)\<rparr>"

definition sample_doc :: "nat \<Rightarrow> checked_json" where
  "sample_doc n = \<lparr>cj_value = JObject (if n = 0 then [(ascii ''a'', Null), (ascii ''b'', Number (NInt 1))]
     else [(ascii ''b'', Number (NInt 1)), (ascii ''a'', Null)]), cj_canonical = ascii ''ab'', cj_digest = ascii ''ab''\<rparr>"

theorem canonical_form_decides_witness:
  "checked_json_parse sample_unicode sample_codec payload_policy (ascii ''ab'') = Ok (sample_doc 0) \<and>
   checked_json_parse sample_unicode sample_codec payload_policy (ascii ''ba'') = Ok (sample_doc 1) \<and>
   sem (cj_value (sample_doc 0)) = sem (cj_value (sample_doc 1)) \<and>
   ordered (cj_value (sample_doc 0)) = ordered (cj_value (sample_doc 1))"
proof -
  have a: "checked_json_parse sample_unicode sample_codec payload_policy (ascii ''ab'') = Ok (sample_doc 0)" by code_simp
  have b: "checked_json_parse sample_unicode sample_codec payload_policy (ascii ''ba'') = Ok (sample_doc 1)" by code_simp
  have "ordered (cj_value (sample_doc 0)) = ordered (cj_value (sample_doc 1))" by code_simp
  with canonical_form_decides[OF a b] a b show ?thesis by blast
qed

end
