(* ===== verification/Text_Search.thy ===== *)
theory Text_Search
  imports Prelude "HOL-Library.Sublist"
begin

text \<open>
  The streaming substring search of the citation check (\<open>mcp/citation.rs\<close>, \<open>Search\<close>). The failure
  table is a plain vector and the fall-back loop follows it, so neither that the loop ends nor that its indices
  are in range is evident from the code: the loop is a partial function, \<open>None\<close> stands for
  a loop without end and for an index panic, and both are excluded below.
\<close>

section \<open>The code\<close>

definition get :: "'a list \<Rightarrow> nat \<Rightarrow> 'a option" where
  "get xs i = (if i < length xs then Some (xs ! i) else None)"

partial_function (option) fall_back :: "nat list \<Rightarrow> nat list \<Rightarrow> nat option \<Rightarrow> nat \<Rightarrow> nat option" where
  "fall_back quote pfx byte matched =
    (if matched > 0 \<and> get quote matched \<noteq> byte
     then Option.bind (get pfx (matched - 1)) (fall_back quote pfx byte)
     else Some matched)"

declare fall_back.simps [code]

fun fill_prefix :: "nat list \<Rightarrow> nat list \<Rightarrow> nat list \<Rightarrow> nat \<Rightarrow> nat list option" where
  "fill_prefix quote [] pfx matched = Some pfx"
| "fill_prefix quote (at # ats) pfx matched =
    Option.bind (fall_back quote pfx (get quote at) matched) (\<lambda>m.
      let m' = (if get quote at = get quote m then m + 1 else m) in
      if at < length pfx then fill_prefix quote ats (pfx[at := m']) m' else None)"

record search =
  se_quote :: "nat list"
  se_prefix :: "nat list"
  se_matched :: nat
  se_found :: "(nat \<times> nat) option"

definition search_new :: "nat list \<Rightarrow> search option" where
  "search_new quote =
    map_option (\<lambda>pfx. \<lparr>se_quote = quote, se_prefix = pfx, se_matched = 0, se_found = None\<rparr>)
      (fill_prefix quote [1..<length quote] (replicate (length quote) 0) 0)"

definition search_push :: "search \<Rightarrow> nat \<Rightarrow> nat \<Rightarrow> search option" where
  "search_push s byte offset =
    (if se_found s \<noteq> None then Some s
     else Option.bind (fall_back (se_quote s) (se_prefix s) (Some byte) (se_matched s)) (\<lambda>m.
       let m' = (if get (se_quote s) m = Some byte then m + 1 else m) in
       Some (s\<lparr>se_matched := m',
         se_found := (if m' = length (se_quote s)
                      then Some (offset + 1 - length (se_quote s), offset + 1) else None)\<rparr>)))"

fun search_run :: "search \<Rightarrow> nat list \<Rightarrow> nat \<Rightarrow> search option" where
  "search_run s [] offset = Some s"
| "search_run s (b # bs) offset = Option.bind (search_push s b offset) (\<lambda>s'. search_run s' bs (offset + 1))"

section \<open>The longest prefix that ends a text\<close>

definition best :: "nat list \<Rightarrow> nat list \<Rightarrow> nat \<Rightarrow> bool" where
  "best P t m \<longleftrightarrow> m \<le> length P \<and> suffix (take m P) t \<and> (\<forall>k \<le> length P. suffix (take k P) t \<longrightarrow> k \<le> m)"

definition table_upto :: "nat list \<Rightarrow> nat list \<Rightarrow> nat \<Rightarrow> bool" where
  "table_upto P pfx n \<longleftrightarrow> n \<le> length pfx \<and> (\<forall>i < n. best P (tl (take (i + 1) P)) (pfx ! i))"

lemma get_Some [simp]: "get xs i = Some x \<longleftrightarrow> i < length xs \<and> xs ! i = x"
  by (auto simp: get_def)

lemma table_uptoD: "table_upto P pfx n \<Longrightarrow> i < n \<Longrightarrow> best P (tl (take (i + 1) P)) (pfx ! i)"
  by (simp add: table_upto_def)

lemma best_nil: "best P [] 0"
  by (auto simp: best_def)

lemma best_le: "best P t m \<Longrightarrow> m \<le> length t"
  by (auto simp: best_def dest: suffix_length_le)

lemma best_tl: "best P (tl (take n P)) m \<Longrightarrow> n < length P \<Longrightarrow> m \<le> n - 1"
  using best_le[of P "tl (take n P)" m] by (simp add: min_def)

lemma suffix_take_snoc:
  assumes "k < length P"
  shows "suffix (take (Suc k) P) (t @ [b]) \<longleftrightarrow> P ! k = b \<and> suffix (take k P) t"
  using assms by (simp add: take_Suc_conv_app_nth)

lemma suffix_tl: "suffix xs ys \<Longrightarrow> length xs < length ys \<Longrightarrow> suffix xs (tl ys)"
  by (cases ys) (auto simp: suffix_Cons)

text \<open>
  Falling back ends, stays inside the table, and stops at the longest prefix that ends the
  text and continues with the byte, or at the empty one.
\<close>

lemma fall_back_stops:
  assumes "table_upto P pfx m" "m < length P" "suffix (take m P) t"
    and "\<And>k. k < length P \<Longrightarrow> suffix (take k P) t \<Longrightarrow> P ! k = b \<Longrightarrow> k \<le> m"
  shows "\<exists>m' \<le> m. fall_back P pfx (Some b) m = Some m' \<and> suffix (take m' P) t \<and> (m' = 0 \<or> P ! m' = b) \<and>
    (\<forall>k < length P. suffix (take k P) t \<longrightarrow> P ! k = b \<longrightarrow> k \<le> m')"
  using assms
proof (induction m rule: less_induct)
  case (less m)
  show ?case
  proof (cases "m > 0 \<and> P ! m \<noteq> b")
    case False
    then show ?thesis using less.prems by (auto simp: fall_back.simps[of P pfx "Some b" m])
  next
    case True
    define m1 where "m1 = pfx ! (m - 1)"
    have "best P (tl (take (m - 1 + 1) P)) (pfx ! (m - 1))" using table_uptoD[OF less.prems(1), of "m - 1"] True by simp
    then have b1: "best P (tl (take m P)) m1" using True by (simp add: m1_def)
    have lt: "m1 < m" using best_tl[OF b1] True less.prems(2) by linarith
    have s1: "suffix (take m1 P) t"
    proof -
      have "suffix (tl (take m P)) (take m P)" by (cases "take m P") (auto simp: suffix_Cons)
      then show ?thesis using b1 less.prems(3) unfolding best_def by (blast intro: suffix_order.trans)
    qed
    have max1: "k \<le> m1" if "k < length P" "suffix (take k P) t" "P ! k = b" for k
    proof -
      have "k < m" using less.prems(4)[OF that] True that(3) by (cases "k = m") auto
      then have "suffix (take k P) (take m P)"
        using suffix_length_suffix[OF that(2) less.prems(3)] less.prems(2) by simp
      then have "suffix (take k P) (tl (take m P))" using \<open>k < m\<close> less.prems(2) by (intro suffix_tl) auto
      then show ?thesis using b1 that(1) by (simp add: best_def)
    qed
    have eq: "fall_back P pfx (Some b) m = fall_back P pfx (Some b) m1"
    proof -
      have "m - 1 < length pfx" using True less.prems(1) unfolding table_upto_def by linarith
      then have "get pfx (m - 1) = Some m1" by (simp add: m1_def)
      then show ?thesis using True by (simp only: fall_back.simps[of P pfx "Some b" m]) (simp add: m1_def)
    qed
    have "table_upto P pfx m1" using less.prems(1) lt by (simp add: table_upto_def)
    moreover have "m1 < length P" using lt less.prems(2) by linarith
    ultimately have "\<exists>m' \<le> m1. fall_back P pfx (Some b) m1 = Some m' \<and> suffix (take m' P) t \<and> (m' = 0 \<or> P ! m' = b) \<and>
        (\<forall>k < length P. suffix (take k P) t \<longrightarrow> P ! k = b \<longrightarrow> k \<le> m')"
      using s1 max1 by (rule less.IH[OF lt])
    moreover have "m' \<le> m" if "m' \<le> m1" for m' using that lt by linarith
    ultimately show ?thesis unfolding eq by blast
  qed
qed

lemma kmp_step:
  assumes "table_upto P pfx m" "m < length P" "best P t m"
  shows "\<exists>m'. fall_back P pfx (Some b) m = Some m' \<and> best P (t @ [b]) (if get P m' = Some b then m' + 1 else m')"
proof -
  obtain m' where m': "m' \<le> m" "fall_back P pfx (Some b) m = Some m'" "suffix (take m' P) t" "m' = 0 \<or> P ! m' = b"
    "\<forall>k < length P. suffix (take k P) t \<longrightarrow> P ! k = b \<longrightarrow> k \<le> m'"
    using fall_back_stops[OF assms(1,2), of t b] assms(3) by (auto simp: best_def)
  have lt: "m' < length P" using m'(1) assms(2) by simp
  have max: "k \<le> (if P ! m' = b then m' + 1 else m')" if k: "k \<le> length P" "suffix (take k P) (t @ [b])" for k
  proof (cases k)
    case (Suc j)
    then have "P ! j = b \<and> suffix (take j P) t" using k suffix_take_snoc[of j P t b] by (simp only: Suc_le_eq)
    then have "j \<le> m'" "P ! j = b" using m'(5) k(1) Suc by auto
    then show ?thesis using m'(4) Suc by (cases "m' = 0") auto
  qed simp
  have "best P (t @ [b]) (if P ! m' = b then m' + 1 else m')"
  proof (cases "P ! m' = b")
    case True
    then show ?thesis using suffix_take_snoc[OF lt, of t b] m'(3) lt max by (simp only: best_def) simp
  next
    case False
    then have "m' = 0" using m'(4) by blast
    then show ?thesis using False max by (simp only: best_def) simp
  qed
  then show ?thesis using m'(2) lt by auto
qed

lemma tl_take_snoc: "0 < n \<Longrightarrow> n < length P \<Longrightarrow> tl (take n P) @ [P ! n] = tl (take (n + 1) P)"
  by (cases P; cases n) (auto simp: take_Suc_conv_app_nth)

lemma fill_prefix_table:
  assumes "0 < n" "n \<le> length P" "length pfx = length P" "table_upto P pfx n" "best P (tl (take n P)) m"
  shows "\<exists>pfx'. fill_prefix P [n..<length P] pfx m = Some pfx' \<and> length pfx' = length P \<and> table_upto P pfx' (length P)"
  using assms
proof (induction "length P - n" arbitrary: n pfx m)
  case (Suc d)
  then have n: "n < length P" by simp
  have m: "m < n" using best_tl[OF Suc.prems(5)] Suc.prems(1) n by linarith
  have "table_upto P pfx m" using Suc.prems(4) m by (simp add: table_upto_def)
  from kmp_step[OF this _ Suc.prems(5), of "P ! n"] m n obtain m1 where
    m1: "fall_back P pfx (Some (P ! n)) m = Some m1"
    and b: "best P (tl (take n P) @ [P ! n]) (if get P m1 = Some (P ! n) then m1 + 1 else m1)" by auto
  define m2 where "m2 = (if get P m1 = Some (P ! n) then m1 + 1 else m1)"
  have b2: "best P (tl (take (n + 1) P)) m2" using b tl_take_snoc[OF Suc.prems(1) n] by (simp add: m2_def)
  have table: "table_upto P (pfx[n := m2]) (n + 1)"
    using Suc.prems(3,4) b2 n by (auto simp: table_upto_def nth_list_update less_Suc_eq)
  have at: "get P n = Some (P ! n)" using n by simp
  have "fill_prefix P [n..<length P] pfx m = fill_prefix P [n + 1..<length P] (pfx[n := m2]) m2"
    unfolding upt_conv_Cons[OF n] fill_prefix.simps unfolding at m1 m2_def using n Suc.prems(3)
    by (simp add: Let_def eq_commute[of "Some (P ! n)"])
  then show ?case using Suc.hyps(1)[OF _ _ _ _ table b2] Suc.hyps(2) Suc.prems(3) n by simp
qed simp

lemma search_new_ok:
  "\<exists>pfx. search_new P = Some \<lparr>se_quote = P, se_prefix = pfx, se_matched = 0, se_found = None\<rparr> \<and> table_upto P pfx (length P)"
proof (cases P)
  case (Cons a as)
  have "table_upto P (replicate (length P) 0) 1" using best_nil Cons by (simp add: table_upto_def)
  from fill_prefix_table[OF _ _ _ this, of 0] show ?thesis using best_nil Cons
    by (auto simp: search_new_def)
qed (simp add: search_new_def table_upto_def)

text \<open>The first place where a text has read the whole pattern.\<close>

fun first_end :: "nat list \<Rightarrow> nat list \<Rightarrow> nat list \<Rightarrow> nat option" where
  "first_end P t [] = None"
| "first_end P t (b # bs) = (if suffix P (t @ [b]) then Some (length t + 1) else first_end P (t @ [b]) bs)"

lemma first_end_find:
  "first_end P t bs = find (\<lambda>e. suffix P (take e (t @ bs))) [length t + 1..<length (t @ bs) + 1]"
proof (induction P t bs rule: first_end.induct)
  case (2 P t b bs)
  have "[length t + 1..<length (t @ b # bs) + 1] = (length t + 1) # [length (t @ [b]) + 1..<length ((t @ [b]) @ bs) + 1]"
    by (subst upt_conv_Cons) simp_all
  moreover have "take (length t + 1) (t @ b # bs) = t @ [b]" by simp
  moreover have "t @ b # bs = (t @ [b]) @ bs" by simp
  ultimately show ?case using 2 by (cases "suffix P (t @ [b])") (simp_all only: first_end.simps find.simps if_True if_False simp_thms)
qed simp

text \<open>A search that has read a text and not found its quote yet.\<close>

definition searching :: "nat list \<Rightarrow> nat list \<Rightarrow> search \<Rightarrow> bool" where
  "searching P t s \<longleftrightarrow> se_quote s = P \<and> se_found s = None \<and>
    table_upto P (se_prefix s) (length P) \<and> best P t (se_matched s) \<and> (P \<noteq> [] \<longrightarrow> se_matched s < length P)"

lemma best_full: "best P t m \<Longrightarrow> m = length P \<longleftrightarrow> suffix P t"
  unfolding best_def by (metis order_antisym order_refl take_all_iff)

lemma search_push_step:
  assumes "searching P t s"
  shows "\<exists>s'. search_push s b n = Some s' \<and>
    (if suffix P (t @ [b]) then se_found s' = Some (n + 1 - length P, n + 1) else searching P (t @ [b]) s')"
proof (cases "P = []")
  case True
  then show ?thesis using assms by (simp add: searching_def search_push_def fall_back.simps best_def get_def)
next
  case False
  then have "table_upto P (se_prefix s) (se_matched s)" "se_matched s < length P" "best P t (se_matched s)"
    using assms by (simp_all add: searching_def table_upto_def)
  from kmp_step[OF this, of b] obtain m where m: "fall_back P (se_prefix s) (Some b) (se_matched s) = Some m"
    and nxt: "best P (t @ [b]) (if get P m = Some b then m + 1 else m)" by blast
  define m' where "m' = (if get P m = Some b then m + 1 else m)"
  have push: "search_push s b n = Some (s\<lparr>se_matched := m',
      se_found := (if m' = length P then Some (n + 1 - length P, n + 1) else None)\<rparr>)"
    using assms m unfolding m'_def by (simp add: searching_def search_push_def Let_def)
  have best: "best P (t @ [b]) m'" using nxt by (simp only: m'_def)
  then have "m' \<le> length P" by (simp add: best_def)
  then show ?thesis using push best best_full[OF best] assms by (auto simp: searching_def)
qed

lemma search_run_found: "se_found s \<noteq> None \<Longrightarrow> search_run s bs n = Some s"
  by (induction bs arbitrary: n) (simp_all add: search_push_def)

lemma search_run_spec:
  assumes "searching P t s"
  shows "\<exists>s'. search_run s bs (off + length t) = Some s' \<and>
    se_found s' = map_option (\<lambda>e. (off + e - length P, off + e)) (first_end P t bs)"
  using assms
proof (induction P t bs arbitrary: s rule: first_end.induct)
  case (1 P t)
  then show ?case by (simp add: searching_def)
next
  case (2 P t b bs)
  from search_push_step[OF 2(2), of b "off + length t"] obtain s' where
    push: "search_push s b (off + length t) = Some s'"
    and s': "if suffix P (t @ [b]) then se_found s' = Some (off + length t + 1 - length P, off + length t + 1)
             else searching P (t @ [b]) s'" by blast
  show ?case
  proof (cases "suffix P (t @ [b])")
    case True
    then have found: "se_found s' = Some (off + length t + 1 - length P, off + length t + 1)"
      using s' by (simp only: if_True)
    then have "search_run s (b # bs) (off + length t) = Some s'" using push by (simp add: search_run_found)
    then show ?thesis using found True by (simp only: first_end.simps) simp
  next
    case False
    then have "searching P (t @ [b]) s'" using s' by (simp only: if_False)
    from 2(1)[OF False this] push False show ?thesis by (simp only: first_end.simps) simp
  qed
qed

text \<open>
  C37: The streaming search never loops and never indexes outside its vectors: for every quote and every
  text, building the failure table and pushing the bytes one by one returns, and what has
  been found is exactly the range of the first occurrence, the one whose end is the first place where
  the bytes read so far end with the quote.\<close>

theorem search_terminates_with_first_occurrence:
  "\<exists>s0 s. search_new quote = Some s0 \<and> search_run s0 bytes offset = Some s \<and>
     se_found s = map_option (\<lambda>e. (offset + e - length quote, offset + e))
       (find (\<lambda>e. suffix quote (take e bytes)) [1..<length bytes + 1])"
proof -
  obtain s0 where s0: "search_new quote = Some s0" "searching quote [] s0"
    using search_new_ok[of quote] best_nil by (force simp: searching_def)
  show ?thesis using s0(1) search_run_spec[OF s0(2), of bytes offset] by (simp add: first_end_find)
qed

end
