(* ===== verification/Fingerprint.thy ===== *)
theory Fingerprint
  imports Bounded_Text
begin

text \<open>
  Fingerprints of findings: the window of source lines around a finding, normalised and hashed
  (\<open>fingerprint.rs\<close>), and the incremental form that never holds the window
  (\<open>mcp/citation/fingerprint.rs\<close>). The character tables of \<open>to_lowercase\<close> are the
  parameter \<open>case_tables\<close>, the hash function is the parameter \<open>blake3\<close>; the state of an incremental hasher
  is the bytes it was given.
\<close>

section \<open>Lines and lower case\<close>

fun split_inclusive :: "nat \<Rightarrow> nat list \<Rightarrow> nat list list" where
  "split_inclusive sep [] = []"
| "split_inclusive sep (c # cs) =
    (if c = sep then [c] # split_inclusive sep cs
     else (case split_inclusive sep cs of [] \<Rightarrow> [[c]] | p # ps \<Rightarrow> (c # p) # ps))"

text \<open>\<open>strip_suffix\<close> of a single element.\<close>

definition strip_last :: "nat \<Rightarrow> nat list \<Rightarrow> nat list option" where
  "strip_last c s = (if s \<noteq> [] \<and> last s = c then Some (butlast s) else None)"

definition strip_eol :: "nat list \<Rightarrow> nat list" where
  "strip_eol line =
    (case strip_last 10 line of
       None \<Rightarrow> line
     | Some body \<Rightarrow> (case strip_last 13 body of None \<Rightarrow> body | Some b \<Rightarrow> b))"

text \<open>\<open>str::lines\<close>.\<close>

definition str_lines :: "ustr \<Rightarrow> ustr list" where
  "str_lines s = map strip_eol (split_inclusive 10 s)"

record case_tables =
  ct_ignorable :: "nat \<Rightarrow> bool"
  ct_cased :: "nat \<Rightarrow> bool"
  ct_lower :: "nat \<Rightarrow> ustr"

text \<open>
  \<open>str::to_lowercase\<close>: character by character, except that a capital sigma becomes
  the final form at the end of a word (the Final_Sigma condition of the Unicode standard).
\<close>

definition ignorable_then_cased :: "case_tables \<Rightarrow> ustr \<Rightarrow> bool" where
  "ignorable_then_cased T s =
    (case dropWhile (ct_ignorable T) s of [] \<Rightarrow> False | c # _ \<Rightarrow> ct_cased T c)"

fun lowercase_from :: "case_tables \<Rightarrow> ustr \<Rightarrow> ustr \<Rightarrow> ustr" where
  "lowercase_from T before [] = []"
| "lowercase_from T before (c # cs) =
    (if c = 931
     then [if ignorable_then_cased T before \<and> \<not> ignorable_then_cased T cs then 962 else 963]
     else ct_lower T c) @ lowercase_from T (c # before) cs"

definition to_lowercase :: "case_tables \<Rightarrow> ustr \<Rightarrow> ustr" where
  "to_lowercase T s = lowercase_from T [] s"

section \<open>The reference: normalise, then hash\<close>

fun normalize_lines :: "case_tables \<Rightarrow> ustr list \<Rightarrow> ustr \<Rightarrow> ustr" where
  "normalize_lines T [] out = out"
| "normalize_lines T (line # lines) out =
    (let trimmed = trim line in
     if trimmed = [] then normalize_lines T lines out
     else let collapsed = join_spaces (split_whitespace trimmed);
              out1 = (if out \<noteq> [] then out @ [10] else out)
          in normalize_lines T lines (out1 @ to_lowercase T collapsed))"

definition normalize_window :: "case_tables \<Rightarrow> ustr \<Rightarrow> ustr" where
  "normalize_window T s = normalize_lines T (str_lines s) []"

definition compute :: "(nat list \<Rightarrow> 'h) \<Rightarrow> case_tables \<Rightarrow> ustr \<Rightarrow> ustr \<Rightarrow> ustr \<Rightarrow> 'h" where
  "compute blake3 T scanner_id file_path content_window =
    blake3 (utf8s scanner_id @ [0] @ utf8s file_path @ [0] @ utf8s (normalize_window T content_window))"

definition max_u32 :: nat where "max_u32 = 4294967295"

definition saturating_add_u32 :: "nat \<Rightarrow> nat \<Rightarrow> nat" where
  "saturating_add_u32 a b = min (a + b) max_u32"

definition join_lines :: "ustr list \<Rightarrow> ustr" where
  "join_lines ls = (case ls of [] \<Rightarrow> [] | l # ls \<Rightarrow> l @ concat (map (\<lambda>x. 10 # x) ls))"

definition extract_window :: "ustr \<Rightarrow> nat \<Rightarrow> nat \<Rightarrow> nat \<Rightarrow> ustr" where
  "extract_window source line_start line_end context_lines =
    (let ls = str_lines source in
     if ls = [] then []
     else let start = line_start - context_lines - 1;
              last_line = min (saturating_add_u32 line_end context_lines) (length ls)
          in if start \<ge> last_line then []
             else join_lines (take (last_line - start) (drop start ls)))"

section \<open>The incremental form\<close>

definition SCANNER_ID :: ustr where "SCANNER_ID = ascii ''llm-code-review''"

definition unicode_context :: "case_tables \<Rightarrow> nat \<Rightarrow> bool \<times> bool" where
  "unicode_context T ch =
    (let medial = (\<lambda>probe. take 2 (to_lowercase T probe) = [97, 963]);
         followed_by_cased = medial [65, 931, ch, 65];
         followed_by_boundary = medial [65, 931, ch, 33]
     in (followed_by_cased \<and> \<not> followed_by_boundary, followed_by_boundary))"

definition case_context :: "case_tables \<Rightarrow> nat \<Rightarrow> bool \<times> bool" where
  "case_context T ch =
    (if ch < 128 then map (unicode_context T) [0..<128] ! ch else unicode_context T ch)"

record fingerprint =
  fp_hash :: "nat list"
  fp_final_sigma :: "nat list option"
  fp_preceding_cased :: bool
  fp_content :: bool
  fp_line_content :: bool
  fp_space :: bool

definition fingerprint_new :: "ustr \<Rightarrow> fingerprint" where
  "fingerprint_new file =
    \<lparr>fp_hash = utf8s SCANNER_ID @ [0] @ utf8s file @ [0], fp_final_sigma = None, fp_preceding_cased = False,
     fp_content = False, fp_line_content = False, fp_space = False\<rparr>"

definition fp_update :: "nat \<Rightarrow> fingerprint \<Rightarrow> fingerprint" where
  "fp_update c f = f\<lparr>fp_hash := fp_hash f @ utf8 c,
     fp_final_sigma := map_option (\<lambda>h. h @ utf8 c) (fp_final_sigma f)\<rparr>"

definition fp_resolve :: "bool \<Rightarrow> bool \<Rightarrow> fingerprint \<Rightarrow> fingerprint" where
  "fp_resolve ignorable cased f =
    (if ignorable then f
     else case fp_final_sigma f of
         None \<Rightarrow> f
       | Some h \<Rightarrow> f\<lparr>fp_final_sigma := None, fp_hash := (if \<not> cased then h else fp_hash f)\<rparr>)"

definition fp_lower :: "case_tables \<Rightarrow> nat \<Rightarrow> fingerprint \<Rightarrow> fingerprint" where
  "fp_lower T ch f =
    (case case_context T ch of (ignorable, cased) \<Rightarrow>
      let f1 = fp_resolve ignorable cased f;
          f2 = (if ch = 931 \<and> fp_preceding_cased f1
                then f1\<lparr>fp_final_sigma := Some (fp_hash f1 @ utf8 962), fp_hash := fp_hash f1 @ utf8 963\<rparr>
                else fold fp_update (ct_lower T ch) f1)
      in if \<not> ignorable then f2\<lparr>fp_preceding_cased := cased\<rparr> else f2)"

definition finish_case :: "fingerprint \<Rightarrow> fingerprint" where
  "finish_case f =
    (case fp_final_sigma f of None \<Rightarrow> f | Some h \<Rightarrow> f\<lparr>fp_hash := h, fp_final_sigma := None\<rparr>)
      \<lparr>fp_preceding_cased := False\<rparr>"

definition fp_push :: "case_tables \<Rightarrow> nat \<Rightarrow> fingerprint \<Rightarrow> fingerprint" where
  "fp_push T ch f =
    (if ch = 10 then (finish_case f)\<lparr>fp_line_content := False, fp_space := False\<rparr>
     else if is_whitespace ch then f\<lparr>fp_space := fp_space f \<or> fp_line_content f\<rparr>
     else
       let f1 = (if \<not> fp_line_content f
                 then (if fp_content f then fp_lower T 10 f else f)\<lparr>fp_line_content := True, fp_content := True\<rparr>
                 else if fp_space f then fp_lower T 32 f else f)
       in fp_lower T ch (f1\<lparr>fp_space := False\<rparr>))"

definition fp_finish :: "(nat list \<Rightarrow> 'h) \<Rightarrow> fingerprint \<Rightarrow> 'h" where
  "fp_finish blake3 f = blake3 (fp_hash (finish_case f))"

section \<open>The two agree\<close>

text \<open>Facts of the Unicode tables that the code relies on.\<close>

definition case_laws :: "case_tables \<Rightarrow> bool" where
  "case_laws T \<longleftrightarrow>
    (\<forall>c \<in> {65, 931}. \<not> ct_ignorable T c \<and> ct_cased T c) \<and> (\<forall>c \<in> {10, 32, 33}. \<not> ct_ignorable T c \<and> \<not> ct_cased T c) \<and>
    ct_lower T 65 = [97] \<and> ct_lower T 931 = [963] \<and> ct_lower T 32 = [32] \<and> ct_lower T 10 = [10] \<and> (\<forall>c. ct_lower T c \<noteq> [])"

lemma case_lawsD:
  assumes "case_laws T"
  shows "\<not> ct_ignorable T 65" "ct_cased T 65" "\<not> ct_ignorable T 931" "ct_cased T 931"
    "\<not> ct_ignorable T 10" "\<not> ct_cased T 10" "\<not> ct_ignorable T 32" "\<not> ct_cased T 32" "\<not> ct_ignorable T 33" "\<not> ct_cased T 33"
    "ct_lower T 65 = [97]" "ct_lower T 931 = [963]" "ct_lower T 32 = [32]" "ct_lower T 10 = [10]" "ct_lower T c \<noteq> []"
  using assms by (auto simp: case_laws_def)

lemma unicode_context_eq:
  assumes "case_laws T"
  shows "unicode_context T c = (ct_ignorable T c, \<not> ct_ignorable T c \<and> ct_cased T c)"
  using case_lawsD[OF assms]
  by (simp add: unicode_context_def to_lowercase_def ignorable_then_cased_def Let_def)

lemma case_context_eq:
  assumes "case_laws T"
  shows "case_context T c = (ct_ignorable T c, \<not> ct_ignorable T c \<and> ct_cased T c)"
  by (simp add: case_context_def unicode_context_eq[OF assms])

text \<open>Lower case of a text whose continuation begins, after ignorable characters, with a cased one or not.\<close>

definition then_cased :: "case_tables \<Rightarrow> ustr \<Rightarrow> bool \<Rightarrow> bool" where
  "then_cased T s fut = (case dropWhile (ct_ignorable T) s of [] \<Rightarrow> fut | c # _ \<Rightarrow> ct_cased T c)"

fun lowercase_before :: "case_tables \<Rightarrow> ustr \<Rightarrow> ustr \<Rightarrow> bool \<Rightarrow> ustr" where
  "lowercase_before T before [] fut = []"
| "lowercase_before T before (c # cs) fut =
    (if c = 931
     then [if ignorable_then_cased T before \<and> \<not> then_cased T cs fut then 962 else 963]
     else ct_lower T c) @ lowercase_before T (c # before) cs fut"

lemma to_lowercase_before: "to_lowercase T s = lowercase_before T [] s False"
proof -
  have "lowercase_from T before s = lowercase_before T before s False" for before
    by (induction T before s rule: lowercase_from.induct) (simp_all add: then_cased_def ignorable_then_cased_def)
  then show ?thesis by (simp add: to_lowercase_def)
qed

lemma then_cased_snoc: "then_cased T (cs @ [c]) fut = then_cased T cs (if ct_ignorable T c then fut else ct_cased T c)"
  by (induction cs) (simp_all add: then_cased_def)

lemma ignorable_then_cased_Cons:
  "ignorable_then_cased T (c # cs) = (if ct_ignorable T c then ignorable_then_cased T cs else ct_cased T c)"
  by (simp add: ignorable_then_cased_def)

lemma lowercase_before_snoc:
  "lowercase_before T before (cs @ [c]) fut =
    lowercase_before T before cs (if ct_ignorable T c then fut else ct_cased T c) @
    (if c = 931 then [if ignorable_then_cased T (rev cs @ before) \<and> \<not> fut then 962 else 963] else ct_lower T c)"
  by (induction cs arbitrary: before) (simp_all add: then_cased_snoc, simp_all add: then_cased_def)

text \<open>A fingerprint in the middle of a word: both endings of an open sigma are at hand.\<close>

definition casing :: "case_tables \<Rightarrow> nat list \<Rightarrow> ustr \<Rightarrow> fingerprint \<Rightarrow> bool" where
  "casing T h cs f \<longleftrightarrow>
    fp_hash f = h @ utf8s (lowercase_before T [] cs True) \<and>
    (case fp_final_sigma f of
       None \<Rightarrow> lowercase_before T [] cs False = lowercase_before T [] cs True
     | Some k \<Rightarrow> k = h @ utf8s (lowercase_before T [] cs False)) \<and>
    fp_preceding_cased f = ignorable_then_cased T (rev cs)"

lemma fold_fp_update:
  "fold fp_update cs f = f\<lparr>fp_hash := fp_hash f @ utf8s cs, fp_final_sigma := map_option (\<lambda>h. h @ utf8s cs) (fp_final_sigma f)\<rparr>"
  by (induction cs arbitrary: f) (auto simp: fp_update_def option.map_comp option.map_ident comp_def intro!: fingerprint.equality option.map_cong)

lemma fp_lower_flags [simp]:
  "fp_content (fp_lower T c f) = fp_content f" "fp_line_content (fp_lower T c f) = fp_line_content f"
  "fp_space (fp_lower T c f) = fp_space f"
  by (simp_all add: fp_lower_def fp_resolve_def fold_fp_update Let_def split: prod.split option.split)

lemma casing_lower:
  assumes "case_laws T" "casing T h cs f"
  shows "casing T h (cs @ [c]) (fp_lower T c f)"
proof (cases "ct_ignorable T c")
  case True
  moreover have "c \<noteq> 931" using True case_lawsD(3)[OF assms(1)] by auto
  ultimately show ?thesis using assms(2)
    by (auto simp: casing_def fp_lower_def fp_resolve_def case_context_eq[OF assms(1)] fold_fp_update
        lowercase_before_snoc ignorable_then_cased_Cons Let_def split: option.splits)
next
  case False
  then show ?thesis using assms(2) case_lawsD(4,12)[OF assms(1)]
    by (cases "ct_cased T c"; cases "fp_final_sigma f")
      (auto simp: casing_def fp_lower_def fp_resolve_def case_context_eq[OF assms(1)] fold_fp_update
        lowercase_before_snoc ignorable_then_cased_Cons Let_def)
qed

lemma casing_finish:
  "casing T h cs f \<Longrightarrow> fp_hash (finish_case f) = h @ utf8s (to_lowercase T cs)"
  by (auto simp: casing_def finish_case_def to_lowercase_before split: option.splits)

text \<open>White space: words of a line that grows by one character.\<close>

lemma split_whitespace_blank: "split_whitespace s = [] \<longleftrightarrow> list_all is_whitespace s"
  by (induction s rule: split_whitespace.induct) auto

lemma split_whitespace_words: "\<forall>c \<in> set p. \<not> is_whitespace c \<Longrightarrow> p \<noteq> [] \<Longrightarrow> split_whitespace p = [p]"
  by (cases p) (auto simp: takeWhile_eq_all_conv[THEN iffD2] dropWhile_eq_Nil_conv[THEN iffD2])

lemma split_whitespace_snoc_space: "is_whitespace c \<Longrightarrow> split_whitespace (p @ [c]) = split_whitespace p"
proof (induction p rule: split_whitespace.induct)
  case (2 d cs)
  show ?case
  proof (cases "is_whitespace d")
    case False
    show ?thesis
    proof (cases "\<exists>x \<in> set cs. is_whitespace x")
      case True
      then obtain x where x: "x \<in> set cs" "is_whitespace x" by blast
      then show ?thesis using 2 False
        by (simp add: takeWhile_append1[OF x(1)] dropWhile_append1[OF x(1)])
    next
      case nows: False
      then show ?thesis using 2(3) False
        by (simp add: takeWhile_append2 dropWhile_append2 takeWhile_eq_all_conv[THEN iffD2] dropWhile_eq_Nil_conv[THEN iffD2])
    qed
  qed (use 2 in simp)
qed simp

lemma split_whitespace_snoc_word:
  assumes "\<not> is_whitespace c"
  shows "split_whitespace (p @ [c]) =
    (if p = [] \<or> is_whitespace (last p) then split_whitespace p @ [[c]]
     else butlast (split_whitespace p) @ [last (split_whitespace p) @ [c]])"
proof (induction p rule: split_whitespace.induct)
  case 1
  then show ?case using assms by simp
next
  case (2 d cs)
  show ?case
  proof (cases "is_whitespace d")
    case True
    then show ?thesis using 2(1) by (cases "cs = []") auto
  next
    case False
    show ?thesis
    proof (cases "\<exists>x \<in> set cs. is_whitespace x")
      case True
      then obtain x where x: "x \<in> set cs" "is_whitespace x" by blast
      let ?rest = "dropWhile (\<lambda>x. \<not> is_whitespace x) cs"
      have rest: "?rest \<noteq> []" using x by (auto simp: dropWhile_eq_Nil_conv)
      have lst: "last ?rest = last cs" "cs \<noteq> []"
        using rest last_appendR[OF rest, of "takeWhile (\<lambda>x. \<not> is_whitespace x) cs"] by auto
      have "split_whitespace ?rest \<noteq> []" if "\<not> is_whitespace (last cs)"
        using that lst(1) last_in_set[OF rest] unfolding split_whitespace_blank list_all_iff by metis
      then show ?thesis using 2(2)[OF False] False rest lst
        by (auto simp: takeWhile_append1[OF x(1)] dropWhile_append1[OF x(1)] x(2))
    next
      case nows: False
      then have w: "\<forall>x \<in> set ((d # cs) @ [c]). \<not> is_whitespace x" using False assms by auto
      then have "split_whitespace ((d # cs) @ [c]) = [(d # cs) @ [c]]" "split_whitespace (d # cs) = [d # cs]"
        by (intro split_whitespace_words; auto)+
      moreover have "\<not> is_whitespace (last (d # cs))" using w last_in_set[of "d # cs"] by (auto simp del: last.simps)
      ultimately show ?thesis by (simp del: split_whitespace.simps last.simps add: last_ConsL)
    qed
  qed
qed

lemma join_spaces_snoc: "join_spaces (ws @ [w]) = join_spaces ws @ (if ws = [] then w else 32 # w)"
  by (simp add: join_spaces_def enumerate_append_eq)

lemma join_spaces_extend: "ws \<noteq> [] \<Longrightarrow> join_spaces (butlast ws @ [last ws @ w]) = join_spaces ws @ w"
  by (cases ws rule: rev_cases) (simp_all add: join_spaces_snoc)

definition collapse :: "ustr \<Rightarrow> ustr" where
  "collapse s = join_spaces (split_whitespace s)"

lemma collapse_snoc:
  "collapse (p @ [c]) =
    (if is_whitespace c then collapse p
     else if split_whitespace p = [] then [c]
     else if is_whitespace (last p) then collapse p @ [32, c] else collapse p @ [c])"
proof (cases "is_whitespace c \<or> p = []")
  case False
  then have "split_whitespace p \<noteq> []" if "\<not> is_whitespace (last p)"
    using that by (auto simp: split_whitespace_blank list_all_iff)
  then show ?thesis using False join_spaces_extend[of "split_whitespace p" "[c]"]
    by (cases "is_whitespace (last p)") (auto simp: collapse_def split_whitespace_snoc_word join_spaces_snoc, simp add: join_spaces_def)
qed (auto simp: collapse_def split_whitespace_snoc_space join_spaces_def)

text \<open>A fingerprint inside a line; \<open>b\<close> says whether an earlier line had content.\<close>

definition in_line :: "case_tables \<Rightarrow> nat list \<Rightarrow> bool \<Rightarrow> ustr \<Rightarrow> fingerprint \<Rightarrow> bool" where
  "in_line T h b p f \<longleftrightarrow>
    fp_content f = (b \<or> split_whitespace p \<noteq> []) \<and> fp_line_content f = (split_whitespace p \<noteq> []) \<and>
    fp_space f = (split_whitespace p \<noteq> [] \<and> is_whitespace (last p)) \<and>
    casing T (h @ (if b \<and> split_whitespace p \<noteq> [] then [10] else [])) (collapse p) f"

lemma casing_flags [simp]:
  "casing T h cs (f\<lparr>fp_content := x\<rparr>) = casing T h cs f" "casing T h cs (f\<lparr>fp_line_content := x\<rparr>) = casing T h cs f"
  "casing T h cs (f\<lparr>fp_space := x\<rparr>) = casing T h cs f"
  by (simp_all add: casing_def)

lemma casing_newline:
  assumes "case_laws T" "casing T h [] f"
  shows "casing T (h @ [10]) [] (fp_lower T 10 f)"
  using casing_lower[OF assms, of 10] case_lawsD(5,6,14)[OF assms(1)]
  by (auto simp: casing_def ignorable_then_cased_def utf8_def split: option.splits)

lemma in_line_push:
  assumes "case_laws T" "in_line T h b p f" "c \<noteq> 10"
  shows "in_line T h b (p @ [c]) (fp_push T c f)"
proof (cases "is_whitespace c")
  case True
  then show ?thesis using assms(2,3)
    by (auto simp: in_line_def fp_push_def split_whitespace_snoc_space collapse_snoc)
next
  case c: False
  note facts = assms(2)[unfolded in_line_def]
  have word: "split_whitespace (p @ [c]) \<noteq> []" using c by (auto simp: split_whitespace_blank)
  have nospace: "\<not> is_whitespace (last (p @ [c]))" using c by simp
  show ?thesis
  proof (cases "split_whitespace p = []")
    case True
    define g where "g = (if b then fp_lower T 10 f else f)\<lparr>fp_line_content := True, fp_content := True, fp_space := False\<rparr>"
    have "casing T (h @ (if b then [10] else [])) [] g"
      using facts True casing_newline[OF assms(1)] by (auto simp: g_def collapse_def join_spaces_def)
    from casing_lower[OF assms(1) this, of c]
    have "casing T (h @ (if b then [10] else [])) (collapse (p @ [c])) (fp_lower T c g)"
      using True c by (simp add: collapse_snoc)
    moreover have "fp_push T c f = fp_lower T c g"
      using facts True c assms(3) by (simp add: fp_push_def Let_def g_def)
    ultimately show ?thesis using word nospace by (simp add: in_line_def g_def)
  next
    case False
    define g where "g = (if fp_space f then fp_lower T 32 f else f)\<lparr>fp_space := False\<rparr>"
    have "casing T (h @ (if b then [10] else [])) (collapse p @ (if is_whitespace (last p) then [32] else [])) g"
      using facts False casing_lower[OF assms(1), of _ "collapse p" f 32] by (simp add: g_def)
    from casing_lower[OF assms(1) this, of c]
    have "casing T (h @ (if b then [10] else [])) (collapse (p @ [c])) (fp_lower T c g)"
      using False c by (simp add: collapse_snoc split: if_splits)
    moreover have "fp_push T c f = fp_lower T c g"
      using facts False c assms(3) by (simp add: fp_push_def Let_def g_def)
    ultimately show ?thesis using word nospace facts False by (simp add: in_line_def g_def)
  qed
qed

lemma in_line_fold:
  assumes "case_laws T" "in_line T h b [] f" "10 \<notin> set p"
  shows "in_line T h b p (fold (fp_push T) p f)"
  using assms(3)
proof (induction p rule: rev_induct)
  case (snoc c p)
  then show ?case using in_line_push[OF assms(1), of h b p "fold (fp_push T) p f" c] by simp
qed (use assms(2) in simp)

text \<open>What a line adds to the normalised window; line ends and outer white space do not matter.\<close>

definition normalize_step :: "case_tables \<Rightarrow> ustr \<Rightarrow> ustr \<Rightarrow> ustr" where
  "normalize_step T line out =
    (if split_whitespace line = [] then out
     else (if out \<noteq> [] then out @ [10] else out) @ to_lowercase T (collapse line))"

lemma split_whitespace_dropWhile: "split_whitespace (dropWhile is_whitespace s) = split_whitespace s"
  by (induction s) simp_all

lemma split_whitespace_trim: "split_whitespace (trim s) = split_whitespace s"
proof -
  have "split_whitespace (rev (dropWhile is_whitespace (rev t))) = split_whitespace t" for t
    by (induction t rule: rev_induct) (simp_all add: split_whitespace_snoc_space)
  then show ?thesis by (simp add: trim_def split_whitespace_dropWhile)
qed

lemma trim_Nil: "trim s = [] \<longleftrightarrow> split_whitespace s = []"
proof
  assume "split_whitespace s = []"
  then show "trim s = []" by (auto simp: trim_def split_whitespace_blank list_all_iff dest: set_dropWhileD)
qed (metis split_whitespace.simps(1) split_whitespace_trim)

lemma normalize_lines_fold: "normalize_lines T ls out = fold (normalize_step T) ls out"
  by (induction ls arbitrary: out) (simp_all add: normalize_step_def Let_def trim_Nil split_whitespace_trim collapse_def)

lemma split_whitespace_strip_eol: "split_whitespace (strip_eol line) = split_whitespace line"
proof -
  have "split_whitespace body = split_whitespace line" if "strip_last c line = Some body" "is_whitespace c" for c body line
    using that split_whitespace_snoc_space[of c "butlast line"] append_butlast_last_id[of line]
    by (auto simp: strip_last_def split: if_splits)
  moreover have "is_whitespace 10" "is_whitespace 13" by (simp_all add: is_whitespace_def)
  ultimately show ?thesis by (auto simp: strip_eol_def split: option.split)
qed

lemma normalize_step_strip_eol: "normalize_step T (strip_eol line) = normalize_step T line"
  by (rule ext) (simp add: normalize_step_def collapse_def split_whitespace_strip_eol)

lemma normalize_window_fold: "normalize_window T s = fold (normalize_step T) (split_inclusive 10 s) []"
  by (simp add: normalize_window_def normalize_lines_fold str_lines_def fold_map comp_def normalize_step_strip_eol)

lemma split_inclusive_no_sep: "sep \<notin> set p \<Longrightarrow> p \<noteq> [] \<Longrightarrow> split_inclusive sep p = [p]"
proof (induction p)
  case (Cons c p)
  then show ?case by (cases "p = []") auto
qed simp

lemma split_inclusive_sep: "sep \<notin> set p \<Longrightarrow> split_inclusive sep (p @ sep # s) = (p @ [sep]) # split_inclusive sep s"
  by (induction p) auto

lemma lines_induct [case_names last line]:
  assumes "\<And>p. 10 \<notin> set p \<Longrightarrow> P p" "\<And>p s. 10 \<notin> set p \<Longrightarrow> P s \<Longrightarrow> P (p @ (10 :: nat) # s)"
  shows "P s"
proof (induction "length s" arbitrary: s rule: less_induct)
  case less
  show ?case
  proof (cases "10 \<in> set s")
    case True
    then obtain p t where "s = p @ 10 # t" "10 \<notin> set p" by (auto dest: split_list_first)
    then show ?thesis using assms(2)[of p t] less[of t] by simp
  qed (use assms(1) in blast)
qed

text \<open>A fingerprint between two lines.\<close>

definition between_lines :: "nat list \<Rightarrow> ustr \<Rightarrow> fingerprint \<Rightarrow> bool" where
  "between_lines h out f \<longleftrightarrow>
    f = \<lparr>fp_hash = h @ utf8s out, fp_final_sigma = None, fp_preceding_cased = False, fp_content = (out \<noteq> []),
         fp_line_content = False, fp_space = False\<rparr>"

lemma collapse_Nil: "collapse s = [] \<longleftrightarrow> split_whitespace s = []"
  by (induction s rule: rev_induct) (auto simp: collapse_snoc split_whitespace_snoc_space split_whitespace_blank,
      auto simp: collapse_def join_spaces_def)

lemma to_lowercase_Nil: "case_laws T \<Longrightarrow> to_lowercase T s = [] \<longleftrightarrow> s = []"
  by (cases s) (auto simp: to_lowercase_def case_lawsD)

lemma line_pushed:
  assumes "case_laws T" "between_lines h out f" "10 \<notin> set p"
  shows "fp_hash (finish_case (fold (fp_push T) p f)) = h @ utf8s (normalize_step T p out) \<and>
    between_lines h (normalize_step T p out) (fp_push T 10 (fold (fp_push T) p f))"
proof -
  let ?g = "fold (fp_push T) p f"
  have "in_line T (h @ utf8s out) (out \<noteq> []) [] f"
    using assms(2) by (simp add: between_lines_def in_line_def casing_def collapse_def join_spaces_def ignorable_then_cased_def)
  from in_line_fold[OF assms(1) this assms(3)] have g: "in_line T (h @ utf8s out) (out \<noteq> []) p ?g" .
  then have hash: "fp_hash (finish_case ?g) = h @ utf8s (normalize_step T p out)"
    by (auto simp: in_line_def normalize_step_def dest!: casing_finish)
      (auto simp: utf8_def collapse_Nil[symmetric] to_lowercase_def)
  have "fp_content ?g = (normalize_step T p out \<noteq> [])"
    using g by (auto simp: in_line_def normalize_step_def to_lowercase_Nil[OF assms(1)] collapse_Nil)
  moreover have "fp_final_sigma (finish_case ?g) = None" "fp_preceding_cased (finish_case ?g) = False"
    "fp_content (finish_case ?g) = fp_content ?g"
    by (simp_all add: finish_case_def split: option.split)
  ultimately show ?thesis using hash by (simp add: between_lines_def fp_push_def)
qed

lemma window_pushed:
  assumes "case_laws T" "between_lines h out f"
  shows "fp_hash (finish_case (fold (fp_push T) s f)) = h @ utf8s (fold (normalize_step T) (split_inclusive 10 s) out)"
  using assms(2)
proof (induction s arbitrary: out f rule: lines_induct)
  case (last p)
  then show ?case using line_pushed[OF assms(1), of h out f p]
    by (cases "p = []") (simp_all add: split_inclusive_no_sep normalize_step_def)
next
  case (line p s)
  have "normalize_step T (p @ [10]) = normalize_step T p"
    by (rule ext) (simp add: normalize_step_def collapse_def split_whitespace_snoc_space is_whitespace_def)
  then show ?case using line.IH[of "normalize_step T p out"] line_pushed[OF assms(1) line.prems line.hyps(1)]
    by (simp add: split_inclusive_sep[OF line.hyps(1)])
qed

text \<open>
  C39: The incremental fingerprint equals the reference: pushing the characters of a window one by one, with two hash
  states to look ahead over a capital sigma, gives for every window and every hash function the value that
  \<open>compute\<close> gives for the window as a whole, provided the case tables have the usual entries for the few
  characters the code names.\<close>

theorem incremental_fingerprint:
  assumes "case_laws T"
  shows "fp_finish blake3 (fold (fp_push T) window (fingerprint_new file)) = compute blake3 T SCANNER_ID file window"
proof -
  have "between_lines (utf8s SCANNER_ID @ [0] @ utf8s file @ [0]) [] (fingerprint_new file)"
    by (simp add: between_lines_def fingerprint_new_def)
  from window_pushed[OF assms this, of window] show ?thesis
    by (simp add: fp_finish_def compute_def normalize_window_fold)
qed

definition ascii_case :: case_tables where
  "ascii_case =
    \<lparr>ct_ignorable = (\<lambda>c. c = 39), ct_cased = (\<lambda>c. (65 \<le> c \<and> c \<le> 90) \<or> (97 \<le> c \<and> c \<le> 122) \<or> c \<in> {931, 962, 963}),
     ct_lower = (\<lambda>c. if 65 \<le> c \<and> c \<le> 90 then [c + 32] else if c = 931 then [963] else [c])\<rparr>"

lemma ascii_case_laws: "case_laws ascii_case"
  by (simp add: case_laws_def ascii_case_def)

theorem incremental_fingerprint_witness:
  "case_laws ascii_case \<and>
   fp_finish (\<lambda>h. h) (fold (fp_push ascii_case) [32, 65, 931, 39, 13, 10, 10, 66, 9, 9, 931, 32, 65, 931, 67] (fingerprint_new [97])) =
     compute (\<lambda>h. h) ascii_case SCANNER_ID [97] [32, 65, 931, 39, 13, 10, 10, 66, 9, 9, 931, 32, 65, 931, 67] \<and>
   normalize_window ascii_case [32, 65, 931, 39, 13, 10, 10, 66, 9, 9, 931, 32, 65, 931, 67] =
     [97, 962, 39, 10, 98, 32, 963, 32, 97, 963, 99]"
proof -
  have "normalize_window ascii_case [32, 65, 931, 39, 13, 10, 10, 66, 9, 9, 931, 32, 65, 931, 67] =
     [97, 962, 39, 10, 98, 32, 963, 32, 97, 963, 99]" by code_simp
  then show ?thesis using ascii_case_laws incremental_fingerprint[OF ascii_case_laws] by blast
qed

end
