(* ===== verification/Worker_Streams.thy ===== *)
theory Worker_Streams
  imports Bounded_Text
begin

text \<open>
  Byte streams of the worker: line framing of MCP records (\<open>mcp/framing.rs\<close>) and the capture
  of a command's output with its beginning and its end (\<open>llm/cli_output.rs\<close>). A reader is the
  list of what its polls deliver: non-empty chunks, \<open>None\<close> for an I/O error, and the end of the
  stream when the list is exhausted.
\<close>

section \<open>Records\<close>

datatype record_error = Oversized | ReadFailed

type_synonym reader = "nat list option list"

definition max_usize :: nat where "max_usize = 18446744073709551615"

definition admitted_record_len :: "nat \<Rightarrow> nat \<Rightarrow> nat \<Rightarrow> bool \<Rightarrow> bool \<Rightarrow> nat option" where
  "admitted_record_len current n limit pending_cr eof =
    (if current + n > max_usize then None
     else let required = current + n; framing = (if pending_cr \<and> \<not> eof then 1 else 0) in
       if required - framing \<le> limit then Some required else None)"

definition last_byte :: "nat list \<Rightarrow> nat option" where
  "last_byte bs = (if bs = [] then None else Some (last bs))"

text \<open>What \<open>consume\<close> leaves of the polled chunk is polled again.\<close>

definition unread :: "nat list \<Rightarrow> reader \<Rightarrow> reader" where
  "unread left reader = (if left = [] then reader else Some left # reader)"

fun next_record_from :: "nat \<Rightarrow> nat list \<Rightarrow> reader \<Rightarrow> (nat list option \<times> reader, record_error) result" where
  "next_record_from limit rec [] =
    (case admitted_record_len (length rec) 0 limit False True of
       None \<Rightarrow> Err Oversized
     | Some _ \<Rightarrow> Ok (if rec \<noteq> [] then Some rec else None, []))"
| "next_record_from limit rec (None # reader) = Err ReadFailed"
| "next_record_from limit rec (Some available # reader) =
    (let newline = 10 \<in> set available;
         part = takeWhile (\<lambda>b. b \<noteq> 10) available;
         cr = (case last_byte part of Some b \<Rightarrow> b = 13 | None \<Rightarrow> last_byte rec = Some 13)
     in case admitted_record_len (length rec) (length part) limit cr False of
          None \<Rightarrow> Err Oversized
        | Some _ \<Rightarrow>
           let rec1 = rec @ part in
           if newline
           then Ok (Some (if cr then butlast rec1 else rec1), unread (drop (length part + 1) available) reader)
           else next_record_from limit rec1 reader)"

definition next_record :: "reader \<Rightarrow> nat \<Rightarrow> (nat list option \<times> reader, record_error) result" where
  "next_record reader limit = next_record_from limit [] reader"

section \<open>Captured output\<close>

definition MAX_CLI_OUTPUT_BYTES :: nat where "MAX_CLI_OUTPUT_BYTES = 1024 * 1024"
definition TAIL_BYTES :: nat where "TAIL_BYTES = MAX_CLI_OUTPUT_BYTES div 2"

record capture =
  cp_bytes :: "nat list"
  cp_truncated :: bool
  cp_tail_cursor :: nat

definition copy_at :: "nat \<Rightarrow> nat list \<Rightarrow> nat list \<Rightarrow> nat list" where
  "copy_at start block bytes = take start bytes @ block @ drop (start + length block) bytes"

text \<open>
  The inner loop. The cursor stays below \<open>TAIL_BYTES\<close>, so every round makes progress; the
  second condition never ends it early.
\<close>

function keep_tail :: "nat list \<Rightarrow> nat list \<Rightarrow> nat \<Rightarrow> nat list \<times> nat" where
  "keep_tail discarded bytes tail_cursor =
    (if discarded = [] \<or> tail_cursor \<ge> TAIL_BYTES then (bytes, tail_cursor)
     else let n = min (length discarded) (TAIL_BYTES - tail_cursor);
              start = TAIL_BYTES + tail_cursor
          in keep_tail (drop n discarded) (copy_at start (take n discarded) bytes)
               ((tail_cursor + n) mod TAIL_BYTES))"
  by auto
termination by (relation "measure (\<lambda>(d, _, _). length d)") auto

declare keep_tail.simps [simp del]

definition capture_read :: "nat list \<Rightarrow> capture \<Rightarrow> capture" where
  "capture_read chunk c =
    (let kept = min (length chunk) (MAX_CLI_OUTPUT_BYTES - length (cp_bytes c));
         bytes = cp_bytes c @ take kept chunk;
         discarded = drop kept chunk
     in case keep_tail discarded bytes (cp_tail_cursor c) of (bytes', cursor) \<Rightarrow>
       \<lparr>cp_bytes = bytes', cp_truncated = cp_truncated c \<or> discarded \<noteq> [], cp_tail_cursor = cursor\<rparr>)"

definition rotate_left :: "nat \<Rightarrow> nat list \<Rightarrow> nat list" where
  "rotate_left n xs = drop n xs @ take n xs"

fun collect_from :: "reader \<Rightarrow> capture \<Rightarrow> (capture, record_error) result" where
  "collect_from [] c = Ok c"
| "collect_from (None # reader) c = Err ReadFailed"
| "collect_from (Some chunk # reader) c = collect_from reader (capture_read chunk c)"

definition collect_cli_output :: "reader \<Rightarrow> (nat list \<times> bool, record_error) result" where
  "collect_cli_output reader =
    map_ok (\<lambda>c.
      (if cp_truncated c
       then take TAIL_BYTES (cp_bytes c) @ rotate_left (cp_tail_cursor c) (drop TAIL_BYTES (cp_bytes c))
       else cp_bytes c, cp_truncated c))
     (collect_from reader \<lparr>cp_bytes = [], cp_truncated = False, cp_tail_cursor = 0\<rparr>)"

section \<open>Framing does not depend on the chunks\<close>

text \<open>The record at the front of a byte string, and what follows it.\<close>

definition first_record :: "nat \<Rightarrow> nat list \<Rightarrow> (nat list option \<times> nat list, record_error) result" where
  "first_record limit s =
    (let line = takeWhile (\<lambda>b. b \<noteq> 10) s;
         body = (if 10 \<in> set s \<and> line \<noteq> [] \<and> last line = 13 then butlast line else line)
     in if length body > limit then Err Oversized
        else if 10 \<in> set s then Ok (Some body, drop (length line + 1) s)
        else Ok (if line = [] then None else Some line, []))"

lemma last_byte_append:
  "(case last_byte part of Some b \<Rightarrow> b = 13 | None \<Rightarrow> last_byte rec = Some 13) \<longleftrightarrow>
     rec @ part \<noteq> [] \<and> last (rec @ part) = 13"
  by (auto simp: last_byte_def)

lemma admitted_iff:
  assumes "limit < max_usize"
  shows "admitted_record_len m n limit cr eof = Some k \<longleftrightarrow>
    k = m + n \<and> m + n - (if cr \<and> \<not> eof then 1 else 0) \<le> limit"
  using assms by (auto simp: admitted_record_len_def Let_def)

definition join_reader :: "reader \<Rightarrow> nat list" where
  "join_reader reader = concat (map the reader)"

lemma join_unread [simp]: "join_reader (unread left reader) = left @ join_reader reader"
  by (simp add: unread_def join_reader_def)

lemma takeWhile_no_newline: "10 \<notin> set rec \<Longrightarrow> takeWhile (\<lambda>b. b \<noteq> 10) (rec @ s) = rec @ takeWhile (\<lambda>b. b \<noteq> 10) s"
  by (induction rec) auto

text \<open>A prefix that is too long, even if its last byte turns out to be framing, decides.\<close>

lemma first_record_oversized:
  assumes "10 \<notin> set p" "length p - (if p \<noteq> [] \<and> last p = 13 then 1 else 0) > limit"
  shows "first_record limit (p @ s) = Err Oversized"
proof -
  have p: "length p > limit" using assms(2) by (auto split: if_splits)
  have big: "limit < length (if c \<and> p @ x \<noteq> [] \<and> last (p @ x) = 13 then butlast (p @ x) else p @ x)" for c x
  proof (cases x)
    case Nil
    then show ?thesis using assms(2) p by (cases "p \<noteq> [] \<and> last p = 13") auto
  next
    case (Cons y ys)
    have "length (butlast (p @ x)) = length p + length ys" "length (p @ x) = length p + Suc (length ys)"
      using Cons by simp_all
    then show ?thesis using p by (simp only: split: if_split) linarith
  qed
  show ?thesis
    unfolding first_record_def Let_def takeWhile_no_newline[OF assms(1)] by (simp only: big if_True)
qed

lemma next_record_from_first:
  assumes "limit < max_usize" "None \<notin> set reader" "10 \<notin> set rec"
  shows "map_ok (\<lambda>(r, rest). (r, join_reader rest)) (next_record_from limit rec reader) =
    first_record limit (rec @ join_reader reader)"
  using assms
proof (induction limit rec reader rule: next_record_from.induct)
  case (1 limit rec)
  have t: "takeWhile (\<lambda>b. b \<noteq> 10) rec = rec" using takeWhile_no_newline[OF 1(3), of "[]"] by simp
  have first: "first_record limit rec =
      (if length rec > limit then Err Oversized else Ok (if rec = [] then None else Some rec, []))"
    unfolding first_record_def Let_def t using 1(3) by simp
  have "admitted_record_len (length rec) 0 limit False True = (if length rec \<le> limit then Some (length rec) else None)"
    using 1(1) by (simp add: admitted_record_len_def Let_def)
  then show ?case using first by (simp add: join_reader_def)
next
  case (3 limit rec available reader)
  let ?part = "takeWhile (\<lambda>b. b \<noteq> 10) available"
  define cr where "cr = (case last_byte ?part of Some b \<Rightarrow> b = 13 | None \<Rightarrow> last_byte rec = Some 13)"
  have cr: "cr \<longleftrightarrow> rec @ ?part \<noteq> [] \<and> last (rec @ ?part) = 13" unfolding cr_def by (rule last_byte_append)
  have no: "10 \<notin> set (rec @ ?part)" using 3(4) by (auto dest: set_takeWhileD)
  have join: "join_reader (Some available # reader) = available @ join_reader reader" by (simp add: join_reader_def)
  have whole: "rec @ available @ s = (rec @ ?part) @ dropWhile (\<lambda>b. b \<noteq> 10) available @ s" for s by simp
  show ?case
  proof (cases "length (rec @ ?part) - (if cr then 1 else 0) \<le> limit")
    case False
    then have "admitted_record_len (length rec) (length ?part) limit cr False = None"
      using admitted_iff[OF 3(2), of "length rec" "length ?part" cr False]
      by (cases "admitted_record_len (length rec) (length ?part) limit cr False") auto
    then have "next_record_from limit rec (Some available # reader) = Err Oversized"
      unfolding next_record_from.simps Let_def cr_def[symmetric] by simp
    moreover have "first_record limit (rec @ available @ join_reader reader) = Err Oversized"
      unfolding whole using first_record_oversized[OF no] False cr by simp
    ultimately show ?thesis by (simp add: join)
  next
    case True
    then have adm: "admitted_record_len (length rec) (length ?part) limit cr False = Some (length rec + length ?part)"
      using 3(2) by (simp add: admitted_iff)
    show ?thesis
    proof (cases "10 \<in> set available")
      case nl: True
      have line: "takeWhile (\<lambda>b. b \<noteq> 10) (rec @ available @ s) = rec @ ?part" for s
        using takeWhile_no_newline[OF 3(4), of "available @ s"] takeWhile_append1[of 10 available "\<lambda>b. b \<noteq> 10" s] nl
        by simp
      have "length ?part + 1 \<le> length available"
        using nl by (induction available) auto
      then have "drop (length (rec @ ?part) + 1) (rec @ available @ s) = drop (length ?part + 1) available @ s" for s by simp
      then have "first_record limit (rec @ available @ join_reader reader) =
          Ok (Some (if cr then butlast (rec @ ?part) else rec @ ?part), drop (length ?part + 1) available @ join_reader reader)"
        unfolding first_record_def Let_def line using True nl cr by (auto split: if_splits)
      moreover have "next_record_from limit rec (Some available # reader) =
          Ok (Some (if cr then butlast (rec @ ?part) else rec @ ?part), unread (drop (length ?part + 1) available) reader)"
        unfolding next_record_from.simps Let_def cr_def[symmetric] adm using nl by simp
      ultimately show ?thesis by (simp add: join)
    next
      case nonl: False
      then have part: "?part = available" unfolding takeWhile_eq_all_conv by auto
      have "next_record_from limit rec (Some available # reader) = next_record_from limit (rec @ ?part) reader"
        unfolding next_record_from.simps Let_def cr_def[symmetric] adm using nonl by simp
      moreover have "map_ok (\<lambda>(r, rest). (r, join_reader rest)) (next_record_from limit (rec @ ?part) reader) =
          first_record limit ((rec @ ?part) @ join_reader reader)"
        by (rule 3(1)[OF refl refl cr_def adm refl _ 3(2) _ no]) (use nonl 3(3) in auto)
      ultimately show ?thesis by (simp add: join part)
    qed
  qed
qed simp

text \<open>
  C35: Reading an MCP record does not depend on how the input arrives. For every division of a byte stream into
  chunks, the reader returns what a direct look at the whole stream
  gives: the bytes up to the first LF without one CR before it, or the whole rest at the end of the stream,
  where a final CR is content; the record is refused exactly if that content exceeds the limit; and the
  bytes left to read are exactly those behind the record.\<close>

theorem record_framing:
  assumes "limit < max_usize" "None \<notin> set reader"
  shows "map_ok (\<lambda>(r, rest). (r, join_reader rest)) (next_record reader limit) = first_record limit (join_reader reader)"
  using next_record_from_first[OF assms, of "[]"] by (simp add: next_record_def)

theorem record_framing_witness:
  "map_ok (\<lambda>(r, rest). (r, join_reader rest)) (next_record [Some [97, 98], Some [99, 13], Some [10, 120]] 3) =
     first_record 3 [97, 98, 99, 13, 10, 120] \<and>
   first_record 3 [97, 98, 99, 13, 10, 120] = Ok (Some [97, 98, 99], [120])"
proof -
  have "(3 :: nat) < max_usize" by (simp add: max_usize_def)
  moreover have "None \<notin> set [Some [97, 98], Some [99, 13], Some [10, 120 :: nat]]" by simp
  ultimately show ?thesis using record_framing[of 3 "[Some [97, 98], Some [99, 13], Some [10, 120]]"]
    by (simp add: join_reader_def first_record_def)
qed

section \<open>The captured output is the head and the tail\<close>

definition last_n :: "nat \<Rightarrow> nat list \<Rightarrow> nat list" where
  "last_n n xs = drop (length xs - n) xs"

lemma last_n_drop:
  assumes "k + n \<le> length xs"
  shows "last_n n (drop k xs) = last_n n xs"
proof -
  have "length xs - k - n + k = length xs - n" using assms by simp
  then show ?thesis by (simp only: last_n_def length_drop drop_drop)
qed

lemma last_n_append: "length xs \<ge> n \<Longrightarrow> last_n n (last_n n xs @ ys) = last_n n (xs @ ys)"
  by (simp add: last_n_def add.commute)

lemma tail_bytes: "0 < TAIL_BYTES" "MAX_CLI_OUTPUT_BYTES = 2 * TAIL_BYTES"
  by (simp_all add: TAIL_BYTES_def MAX_CLI_OUTPUT_BYTES_def)

lemma ring_write:
  assumes "length r = n" "c < n" "c + length b \<le> n" "b \<noteq> []"
  shows "rotate_left ((c + length b) mod n) (copy_at c b r) = drop (length b) (rotate_left c r @ b)"
proof -
  define a m z where "a = take c r" and "m = take (length b) (drop c r)" and "z = drop (c + length b) r"
  have parts: "r = a @ m @ z" "length a = c" "length m = length b"
    using assms by (auto simp: a_def m_def z_def) (metis add.commute append_take_drop_id drop_drop)
  have new: "copy_at c b r = a @ b @ z" using parts assms by (simp add: copy_at_def)
  have old: "rotate_left c r = m @ z @ a" using parts by (simp add: rotate_left_def)
  show ?thesis
  proof (cases "c + length b = n")
    case True
    then have "z = []" using assms(1) by (simp add: z_def)
    then show ?thesis unfolding new old using True parts(2,3) by (simp add: rotate_left_def)
  next
    case False
    then have "(c + length b) mod n = c + length b" using assms by simp
    then show ?thesis unfolding new old using parts(2,3) by (simp add: rotate_left_def)
  qed
qed

definition ring :: "nat list \<Rightarrow> nat \<Rightarrow> nat list" where
  "ring bytes c = rotate_left c (drop TAIL_BYTES bytes)"

lemma length_ring: "length bytes = MAX_CLI_OUTPUT_BYTES \<Longrightarrow> c < TAIL_BYTES \<Longrightarrow> length (ring bytes c) = TAIL_BYTES"
  using tail_bytes by (simp add: ring_def rotate_left_def)

lemma keep_tail_spec:
  assumes "length bytes = MAX_CLI_OUTPUT_BYTES" "c < TAIL_BYTES" "keep_tail d bytes c = (bytes', c')"
  shows "length bytes' = MAX_CLI_OUTPUT_BYTES \<and> c' < TAIL_BYTES \<and> take TAIL_BYTES bytes' = take TAIL_BYTES bytes \<and>
    ring bytes' c' = last_n TAIL_BYTES (ring bytes c @ d)"
  using assms
proof (induction d bytes c rule: keep_tail.induct)
  case (1 d bytes c)
  show ?case
  proof (cases "d = []")
    case True
    then show ?thesis using 1(2-4) length_ring[OF 1(2,3)] by (auto simp: keep_tail.simps[of "[]"] last_n_def)
  next
    case False
    define n where "n = min (length d) (TAIL_BYTES - c)"
    define b where "b = take n d"
    define bytes1 where "bytes1 = copy_at (TAIL_BYTES + c) b bytes"
    define c1 where "c1 = (c + n) mod TAIL_BYTES"
    have b: "length b = n" "b \<noteq> []" "c + length b \<le> TAIL_BYTES" "d = b @ drop n d"
      using False 1(3) by (auto simp: b_def n_def)
    have c1: "c1 < TAIL_BYTES" using tail_bytes by (simp add: c1_def)
    have len: "length bytes1 = MAX_CLI_OUTPUT_BYTES" "take TAIL_BYTES bytes1 = take TAIL_BYTES bytes"
      using 1(2) b tail_bytes by (simp_all add: bytes1_def copy_at_def)
    have "drop TAIL_BYTES bytes1 = copy_at c b (drop TAIL_BYTES bytes)"
      using 1(2) tail_bytes by (simp add: bytes1_def copy_at_def drop_take add.commute add.left_commute)
    then have r1: "ring bytes1 c1 = drop n (ring bytes c @ b)"
      using ring_write[of "drop TAIL_BYTES bytes" TAIL_BYTES c b] 1(2,3) b tail_bytes by (simp add: ring_def c1_def)
    have "keep_tail (drop n d) bytes1 c1 = (bytes', c')"
      using 1(4) False 1(3) by (simp add: keep_tail.simps[of d] n_def b_def bytes1_def c1_def Let_def)
    from 1(1)[OF _ n_def refl len(1)[unfolded bytes1_def b_def] c1[unfolded c1_def]
        this[unfolded bytes1_def b_def c1_def]] False 1(3)
    have IH: "length bytes' = MAX_CLI_OUTPUT_BYTES" "c' < TAIL_BYTES" "take TAIL_BYTES bytes' = take TAIL_BYTES bytes1"
      "ring bytes' c' = last_n TAIL_BYTES (ring bytes1 c1 @ drop n d)"
      by (auto simp: bytes1_def b_def c1_def)
    have "n \<le> length (ring bytes c)" using b length_ring[OF 1(2,3)] by simp
    then have "ring bytes1 c1 @ drop n d = drop n (ring bytes c @ b @ drop n d)" unfolding r1 by simp
    then have "ring bytes1 c1 @ drop n d = drop n (ring bytes c @ d)" using b(4) by simp
    moreover have "n + TAIL_BYTES \<le> length (ring bytes c @ d)" using length_ring[OF 1(2,3)] by (simp add: n_def)
    ultimately show ?thesis using IH len(2) by (simp only: last_n_drop)
  qed
qed

definition captured :: "nat list \<Rightarrow> capture \<Rightarrow> bool" where
  "captured p c \<longleftrightarrow>
    (if length p \<le> MAX_CLI_OUTPUT_BYTES
     then c = \<lparr>cp_bytes = p, cp_truncated = False, cp_tail_cursor = 0\<rparr>
     else length (cp_bytes c) = MAX_CLI_OUTPUT_BYTES \<and> cp_tail_cursor c < TAIL_BYTES \<and> cp_truncated c \<and>
       take TAIL_BYTES (cp_bytes c) = take TAIL_BYTES p \<and> ring (cp_bytes c) (cp_tail_cursor c) = last_n TAIL_BYTES p)"

lemma captured_read:
  assumes "captured p c"
  shows "captured (p @ chunk) (capture_read chunk c)"
proof (cases "length (p @ chunk) \<le> MAX_CLI_OUTPUT_BYTES")
  case True
  then have "c = \<lparr>cp_bytes = p, cp_truncated = False, cp_tail_cursor = 0\<rparr>" using assms by (simp add: captured_def)
  then show ?thesis using True by (simp add: captured_def capture_read_def Let_def keep_tail.simps)
next
  case False
  define kept where "kept = min (length chunk) (MAX_CLI_OUTPUT_BYTES - length (cp_bytes c))"
  define bytes where "bytes = cp_bytes c @ take kept chunk"
  obtain bytes' cursor where k: "keep_tail (drop kept chunk) bytes (cp_tail_cursor c) = (bytes', cursor)" by fastforce
  have read: "capture_read chunk c =
      \<lparr>cp_bytes = bytes', cp_truncated = cp_truncated c \<or> drop kept chunk \<noteq> [], cp_tail_cursor = cursor\<rparr>"
    using k by (simp add: capture_read_def Let_def kept_def bytes_def)
  have start: "length bytes = MAX_CLI_OUTPUT_BYTES \<and> cp_tail_cursor c < TAIL_BYTES \<and>
      (cp_truncated c \<or> drop kept chunk \<noteq> []) \<and> take TAIL_BYTES bytes = take TAIL_BYTES (p @ chunk) \<and>
      last_n TAIL_BYTES (ring bytes (cp_tail_cursor c) @ drop kept chunk) = last_n TAIL_BYTES (p @ chunk)"
  proof (cases "length p \<le> MAX_CLI_OUTPUT_BYTES")
    case small: True
    then have c: "c = \<lparr>cp_bytes = p, cp_truncated = False, cp_tail_cursor = 0\<rparr>" using assms by (simp add: captured_def)
    then have kept: "kept = MAX_CLI_OUTPUT_BYTES - length p" "kept < length chunk" using False small by (auto simp: kept_def)
    have len: "length bytes = MAX_CLI_OUTPUT_BYTES" using c kept small by (simp add: bytes_def)
    have tail: "ring bytes 0 @ drop kept chunk = drop TAIL_BYTES (p @ chunk)"
    proof -
      have "ring bytes 0 @ drop kept chunk = drop TAIL_BYTES bytes @ drop kept chunk" by (simp add: ring_def rotate_left_def)
      also have "\<dots> = drop TAIL_BYTES (bytes @ drop kept chunk)"
        using kept small tail_bytes len by (simp only: drop_append) simp
      also have "bytes @ drop kept chunk = p @ chunk" using c by (simp add: bytes_def)
      finally show ?thesis .
    qed
    have "last_n TAIL_BYTES (ring bytes 0 @ drop kept chunk) = last_n TAIL_BYTES (p @ chunk)"
      unfolding tail using False tail_bytes by (intro last_n_drop) simp
    moreover have "take TAIL_BYTES bytes = take TAIL_BYTES (p @ chunk)"
      using c kept small tail_bytes by (simp add: bytes_def min_def)
    ultimately show ?thesis using c kept tail_bytes len by simp
  next
    case big: False
    then have c: "length (cp_bytes c) = MAX_CLI_OUTPUT_BYTES" "cp_tail_cursor c < TAIL_BYTES" "cp_truncated c"
      "take TAIL_BYTES (cp_bytes c) = take TAIL_BYTES p" "ring (cp_bytes c) (cp_tail_cursor c) = last_n TAIL_BYTES p"
      using assms by (auto simp: captured_def)
    then have "kept = 0" "bytes = cp_bytes c" by (simp_all add: kept_def bytes_def)
    then show ?thesis using c big tail_bytes by (simp add: last_n_append)
  qed
  then have "length bytes' = MAX_CLI_OUTPUT_BYTES \<and> cursor < TAIL_BYTES \<and> take TAIL_BYTES bytes' = take TAIL_BYTES bytes \<and>
      ring bytes' cursor = last_n TAIL_BYTES (ring bytes (cp_tail_cursor c) @ drop kept chunk)"
    using keep_tail_spec[OF _ _ k] by blast
  then show ?thesis using start False by (simp add: captured_def read)
qed

lemma collect_from_error: "None \<in> set reader \<Longrightarrow> collect_from reader c = Err ReadFailed"
  by (induction reader c rule: collect_from.induct) auto

lemma collect_from_captured:
  assumes "None \<notin> set reader" "captured p c"
  shows "\<exists>c'. collect_from reader c = Ok c' \<and> captured (p @ join_reader reader) c'"
  using assms
proof (induction reader c arbitrary: p rule: collect_from.induct)
  case (3 chunk reader c)
  from 3(1)[OF _ captured_read[OF 3(3), of chunk]] 3(2) show ?case by (simp add: join_reader_def)
qed (simp_all add: join_reader_def)

text \<open>
  C36: The output of a command is kept exactly as documented, however the pipe delivers it: all of it if it has at
  most 1 MiB, otherwise its first and its last 512 KiB in order, flagged as truncated. The ring
  buffer that overwrites the second half in place does not show, and a read error is the only other outcome.\<close>

theorem cli_output_head_and_tail:
  "collect_cli_output reader =
    (let output = join_reader reader in
     if None \<in> set reader then Err ReadFailed
     else if length output \<le> 1048576 then Ok (output, False)
     else Ok (take 524288 output @ drop (length output - 524288) output, True))"
proof (cases "None \<in> set reader")
  case True
  then show ?thesis by (simp add: collect_cli_output_def collect_from_error)
next
  case False
  have "captured [] \<lparr>cp_bytes = [], cp_truncated = False, cp_tail_cursor = 0\<rparr>" by (simp add: captured_def)
  from collect_from_captured[OF False this] obtain c where
    "collect_from reader \<lparr>cp_bytes = [], cp_truncated = False, cp_tail_cursor = 0\<rparr> = Ok c" "captured (join_reader reader) c"
    by auto
  then show ?thesis using False
    by (auto simp: captured_def collect_cli_output_def Let_def ring_def last_n_def TAIL_BYTES_def MAX_CLI_OUTPUT_BYTES_def)
qed

end
