(* ===== verification/Citation.thy ===== *)
theory Citation
  imports Text_Search Fingerprint Worker_Streams
begin

text \<open>
  Citations of findings (\<open>mcp/citation.rs\<close>): the fenced quotes of a description are
  compared with the cited lines of a source file, which is read once, in chunks, while its UTF-8 is
  checked and its fingerprint computed. The answers of the cancellation token to the successive polls are the
  parameter \<open>cancel\<close>, indexed by the number of polls so far. \<open>Stuck\<close> stands for a panic or a loop without end.
\<close>

section \<open>Quotes\<close>

datatype citation_error = Missing | NotRegular | Range | Quote | Io | Utf8 | Task | Cancelled
datatype citation_failure = MissingFile | NotRegularFile | RangeInvalid | QuoteMismatch
datatype fault = Fail citation_error | Stuck

fun citation_reason :: "citation_error \<Rightarrow> citation_failure option" where
  "citation_reason Missing = Some MissingFile"
| "citation_reason NotRegular = Some NotRegularFile"
| "citation_reason Range = Some RangeInvalid"
| "citation_reason Quote = Some QuoteMismatch"
| "citation_reason _ = None"

definition delimiter :: "nat list \<Rightarrow> (nat \<times> nat \<times> nat list) option" where
  "delimiter raw =
    (let line = strip_eol raw;
         spaces = length (takeWhile (\<lambda>b. b = 32) line);
         rest = drop spaces line
     in if spaces > 3 then None
        else (case rest of
            [] \<Rightarrow> None
          | kind # _ \<Rightarrow>
              if kind \<noteq> 96 \<and> kind \<noteq> 126 then None
              else let len = length (takeWhile (\<lambda>b. b = kind) rest) in
                if len \<ge> 3 then Some (kind, len, drop len rest) else None))"

definition get_range :: "nat list \<Rightarrow> nat \<Rightarrow> nat \<Rightarrow> nat list option" where
  "get_range xs a b = (if a \<le> b \<and> b \<le> length xs then Some (take (b - a) (drop a xs)) else None)"

definition closes :: "nat \<Rightarrow> nat \<Rightarrow> nat list \<Rightarrow> bool" where
  "closes kind len line =
    (case delimiter line of
       None \<Rightarrow> False
     | Some (close, close_len, rest) \<Rightarrow>
         close = kind \<and> close_len \<ge> len \<and> list_all (\<lambda>b. b = 32 \<or> b = 9) rest)"

fun fences_from ::
  "nat list \<Rightarrow> nat list list \<Rightarrow> (nat \<times> nat \<times> nat) option \<Rightarrow> nat \<Rightarrow> nat list list \<Rightarrow> (nat list list, citation_error) result" where
  "fences_from description [] open_fence offset quotes = (if open_fence \<noteq> None then Err Quote else Ok quotes)"
| "fences_from description (line # lines) open_fence offset quotes =
    (case open_fence of
       Some (kind, len, start) \<Rightarrow>
         if closes kind len line
         then and_then (ok_or (get_range description start offset) Quote) (\<lambda>raw.
           let payload = strip_eol raw in
           if payload = [] then Err Quote
           else fences_from description lines None (offset + length line) (quotes @ [payload]))
         else fences_from description lines open_fence (offset + length line) quotes
     | None \<Rightarrow>
         fences_from description lines
           (map_option (\<lambda>(kind, len, _). (kind, len, offset + length line)) (delimiter line))
           (offset + length line) quotes)"

definition fences :: "nat list \<Rightarrow> (nat list list, citation_error) result" where
  "fences description = fences_from description (split_inclusive 10 description) None 0 []"

section \<open>The scan\<close>

definition FINGERPRINT_CONTEXT_LINES :: nat where "FINGERPRINT_CONTEXT_LINES = 2"

definition max_u64 :: nat where "max_u64 = 18446744073709551615"

definition checked_succ :: "nat \<Rightarrow> nat option" where
  "checked_succ n = (if n < max_u64 then Some (n + 1) else None)"

definition lead_width :: "nat \<Rightarrow> nat option" where
  "lead_width byte =
    (if 194 \<le> byte \<and> byte \<le> 223 then Some 2
     else if 224 \<le> byte \<and> byte \<le> 239 then Some 3
     else if 240 \<le> byte \<and> byte \<le> 244 then Some 4
     else None)"

text \<open>
  \<open>from_utf8\<close> on a slice as long as its first byte announces: it is valid exactly if it is the
  encoding of one scalar value.
\<close>

definition code_point :: "nat list \<Rightarrow> nat" where
  "code_point bs =
    (case bs of
       [a, b] \<Rightarrow> (a - 192) * 64 + (b - 128)
     | [a, b, c] \<Rightarrow> (a - 224) * 4096 + (b - 128) * 64 + (c - 128)
     | [a, b, c, d] \<Rightarrow> (a - 240) * 262144 + (b - 128) * 4096 + (c - 128) * 64 + (d - 128)
     | _ \<Rightarrow> 0)"

definition from_utf8 :: "nat list \<Rightarrow> nat option" where
  "from_utf8 bs = (let c = code_point bs in if is_scalar c \<and> utf8 c = bs then Some c else None)"

definition scan_scalar ::
  "nat \<Rightarrow> nat list \<Rightarrow> nat \<Rightarrow> (nat option \<times> nat list \<times> nat, citation_error) result" where
  "scan_scalar byte scalar width =
    (if scalar = [] \<and> byte < 128 then Ok (Some byte, scalar, width)
     else and_then (if scalar = [] then ok_or (lead_width byte) Utf8 else Ok width) (\<lambda>w.
       if length scalar \<ge> 4 then Err Utf8
       else if length scalar + 1 = w
       then map_ok (\<lambda>c. (Some c, [], w)) (ok_or (from_utf8 (scalar @ [byte])) Utf8)
       else Ok (None, scalar @ [byte], w)))"

record scan_state =
  sc_search :: "search list"
  sc_hash :: fingerprint
  sc_scalar :: "nat list"
  sc_width :: nat
  sc_line :: nat
  sc_offset :: nat
  sc_final_lf :: bool
  sc_polls :: nat

fun fail :: "('a, citation_error) result \<Rightarrow> ('a, fault) result" where
  "fail (Ok x) = Ok x"
| "fail (Err e) = Err (Fail e)"

definition check_cancellation :: "(nat \<Rightarrow> bool) \<Rightarrow> nat \<Rightarrow> (nat, fault) result" where
  "check_cancellation cancel polls = (if cancel polls then Err (Fail Cancelled) else Ok (polls + 1))"

definition poll :: "(nat \<Rightarrow> bool) \<Rightarrow> scan_state \<Rightarrow> (scan_state, fault) result" where
  "poll cancel st = map_ok (\<lambda>n. st\<lparr>sc_polls := n\<rparr>) (check_cancellation cancel (sc_polls st))"

definition push_quotes :: "nat \<Rightarrow> nat \<Rightarrow> nat \<Rightarrow> scan_state \<Rightarrow> (scan_state, fault) result" where
  "push_quotes start last_line byte st =
    (if sc_line st \<ge> start \<and> sc_line st \<le> last_line
     then map_ok (\<lambda>ss. st\<lparr>sc_search := ss\<rparr>)
       (ok_or (those (map (\<lambda>s. search_push s byte (sc_offset st)) (sc_search st))) Stuck)
     else Ok st)"

definition source_byte ::
  "case_tables \<Rightarrow> (nat \<Rightarrow> bool) \<Rightarrow> nat \<Rightarrow> nat \<Rightarrow> nat \<Rightarrow> scan_state \<Rightarrow> (scan_state, fault) result" where
  "source_byte T cancel start last_line byte st =
    and_then (if sc_offset st mod 256 = 0 then poll cancel st else Ok st) (\<lambda>st1.
    and_then (push_quotes start last_line byte st1) (\<lambda>st2.
    and_then (fail (scan_scalar byte (sc_scalar st2) (sc_width st2))) (\<lambda>(ch, scalar, width).
      let from_line = max (start - FINGERPRINT_CONTEXT_LINES) 1;
          through = saturating_add_u32 last_line FINGERPRINT_CONTEXT_LINES;
          hash = (case ch of
              Some c \<Rightarrow> if sc_line st2 \<ge> from_line \<and> sc_line st2 \<le> through then fp_push T c (sc_hash st2) else sc_hash st2
            | None \<Rightarrow> sc_hash st2);
          final_lf = (byte = 10)
      in and_then (fail (if final_lf then ok_or (checked_succ (sc_line st2)) Io else Ok (sc_line st2))) (\<lambda>line.
         map_ok (\<lambda>offset. st2\<lparr>sc_hash := hash, sc_scalar := scalar, sc_width := width, sc_final_lf := final_lf,
             sc_line := line, sc_offset := offset\<rparr>)
           (fail (ok_or (checked_succ (sc_offset st2)) Io))))))"

fun scan_bytes ::
  "case_tables \<Rightarrow> (nat \<Rightarrow> bool) \<Rightarrow> nat \<Rightarrow> nat \<Rightarrow> nat list \<Rightarrow> scan_state \<Rightarrow> (scan_state, fault) result" where
  "scan_bytes T cancel start last_line [] st = Ok st"
| "scan_bytes T cancel start last_line (b # bs) st =
    and_then (source_byte T cancel start last_line b st) (scan_bytes T cancel start last_line bs)"

fun scan_reads ::
  "case_tables \<Rightarrow> (nat \<Rightarrow> bool) \<Rightarrow> nat \<Rightarrow> nat \<Rightarrow> reader \<Rightarrow> scan_state \<Rightarrow> (scan_state, fault) result" where
  "scan_reads T cancel start last_line [] st = and_then (poll cancel st) (poll cancel)"
| "scan_reads T cancel start last_line (None # reader) st = and_then (poll cancel st) (\<lambda>_. Err (Fail Io))"
| "scan_reads T cancel start last_line (Some chunk # reader) st =
    and_then (poll cancel st) (\<lambda>st1. and_then (poll cancel st1) (\<lambda>st2.
    and_then (scan_bytes T cancel start last_line chunk st2) (scan_reads T cancel start last_line reader)))"

type_synonym 'h scan_output = "nat \<times> 'h \<times> (nat \<times> nat) option list"

definition scan_finish :: "(nat list \<Rightarrow> 'h) \<Rightarrow> scan_state \<Rightarrow> ('h scan_output, fault) result" where
  "scan_finish blake3 st =
    (if sc_scalar st \<noteq> [] then Err (Fail Utf8)
     else Ok (max (if sc_final_lf st then sc_line st - 1 else sc_line st) 1,
              fp_finish blake3 (sc_hash st), map se_found (sc_search st)))"

definition scan ::
  "(nat list \<Rightarrow> 'h) \<Rightarrow> case_tables \<Rightarrow> (nat \<Rightarrow> bool) \<Rightarrow> nat \<Rightarrow> reader \<Rightarrow> ustr \<Rightarrow> nat \<Rightarrow> nat \<Rightarrow> nat list list \<Rightarrow>
     ('h scan_output, fault) result" where
  "scan blake3 T cancel polls source file start last_line quotes =
    and_then (check_cancellation cancel polls) (\<lambda>n.
    and_then (ok_or (those (map search_new quotes)) Stuck) (\<lambda>searches.
    and_then (scan_reads T cancel start last_line source
      \<lparr>sc_search = searches, sc_hash = fingerprint_new file, sc_scalar = [], sc_width = 0, sc_line = 1,
       sc_offset = 0, sc_final_lf = False, sc_polls = n\<rparr>) (\<lambda>st.
    and_then (poll cancel st) (scan_finish blake3))))"

fun judge :: "nat \<Rightarrow> nat \<Rightarrow> 'h scan_output \<Rightarrow> ('h, fault) result" where
  "judge start last_line (lines, fingerprint, matches) =
    (if start = 0 \<or> start > last_line \<or> last_line > lines then Err (Fail Range)
     else if list_ex (\<lambda>m. m = None) matches then Err (Fail Quote)
     else Ok fingerprint)"

definition check_source ::
  "(nat list \<Rightarrow> 'h) \<Rightarrow> case_tables \<Rightarrow> (nat \<Rightarrow> bool) \<Rightarrow> nat \<Rightarrow> reader \<Rightarrow> ustr \<Rightarrow> nat \<Rightarrow> nat \<Rightarrow> nat list \<Rightarrow> ('h, fault) result" where
  "check_source blake3 T cancel polls source file start last_line description =
    and_then (check_cancellation cancel polls) (\<lambda>n.
    and_then (fail (fences description)) (\<lambda>quotes.
    and_then (scan blake3 T cancel n source file start last_line quotes) (judge start last_line)))"

definition citation_validate ::
  "(nat list \<Rightarrow> 'h) \<Rightarrow> case_tables \<Rightarrow> (nat \<Rightarrow> bool) \<Rightarrow> bool option \<Rightarrow> reader \<Rightarrow> ustr \<Rightarrow> nat \<Rightarrow> nat \<Rightarrow> ustr \<Rightarrow> ('h, fault) result" where
  "citation_validate blake3 T cancel is_file source file start last_line description =
    and_then (check_cancellation cancel 0) (\<lambda>n.
      case is_file of
        None \<Rightarrow> Err (Fail Io)
      | Some regular \<Rightarrow>
          if \<not> regular then Err (Fail NotRegular)
          else check_source blake3 T cancel n source file start last_line (utf8s description))"

end
