(* ===== verification/Citation_Check.thy ===== *)
theory Citation_Check
  imports Citation
begin

text \<open>
  Correctness of the citation check: byte-wise UTF-8 decoding, counting of lines, the
  windows that the quotes and the fingerprint see, and from these the acceptance condition.
\<close>

section \<open>UTF-8\<close>

lemma utf8_single: "c < 128 \<Longrightarrow> utf8 c = [c]"
  by (simp add: utf8_def)

lemma utf8_wide:
  assumes "is_scalar c" "128 \<le> c"
  obtains a r where "utf8 c = a # r" "lead_width a = Some (length (utf8 c))" "128 \<le> a" "r \<noteq> []" "length (utf8 c) \<le> 4"
    "code_point (utf8 c) = c" "list_all (\<lambda>b. 128 \<le> b) (utf8 c)"
proof -
  consider "c < 2048" | "2048 \<le> c" "c < 65536" | "65536 \<le> c" "c \<le> 1114111"
    using assms(1) by (fastforce simp: is_scalar_def)
  then show thesis
  proof cases
    case 1
    have "2 \<le> c div 64" "c div 64 \<le> 31" using assms(2) 1 by auto
    then show thesis using 1 assms(2)
      by (intro that[of "192 + c div 64" "[128 + c mod 64]"]) (simp_all add: utf8_def lead_width_def code_point_def)
  next
    case 2
    have "c div 4096 \<le> 15" using 2 by auto
    moreover have "c div 64 div 64 = c div 4096" by (simp add: div_mult2_eq[symmetric])
    moreover have "c div 4096 * 4096 + c div 64 mod 64 * 64 + c mod 64 = c"
      using div_mult_mod_eq[of c 64] div_mult_mod_eq[of "c div 64" 64] calculation(2) by linarith
    ultimately show thesis using 2
      by (intro that[of "224 + c div 4096" "[128 + c div 64 mod 64, 128 + c mod 64]"])
        (simp_all add: utf8_def lead_width_def code_point_def)
  next
    case 3
    have "c div 262144 \<le> 4" using 3 by auto
    moreover have "c div 64 div 64 = c div 4096" by (simp add: div_mult2_eq[symmetric])
    moreover have "c div 4096 div 64 = c div 262144" by (simp add: div_mult2_eq[symmetric])
    moreover have "c div 262144 * 262144 + c div 4096 mod 64 * 4096 + c div 64 mod 64 * 64 + c mod 64 = c"
      using div_mult_mod_eq[of c 64] div_mult_mod_eq[of "c div 64" 64] div_mult_mod_eq[of "c div 4096" 64]
        calculation(2,3) by linarith
    ultimately show thesis using 3
      by (intro that[of "240 + c div 262144" "[128 + c div 4096 mod 64, 128 + c div 64 mod 64, 128 + c mod 64]"])
        (simp_all add: utf8_def lead_width_def code_point_def)
  qed
qed

lemma from_utf8_Some: "from_utf8 bs = Some c \<Longrightarrow> is_scalar c \<and> utf8 c = bs"
  by (auto simp: from_utf8_def Let_def split: if_splits)

lemma from_utf8_utf8: "is_scalar c \<Longrightarrow> 128 \<le> c \<Longrightarrow> from_utf8 (utf8 c) = Some c"
  by (rule utf8_wide[of c]) (simp_all add: from_utf8_def Let_def)

lemma newline_in_utf8: "10 \<in> set (utf8 c) \<longleftrightarrow> c = 10"
  by (simp add: utf8_ascii)

lemma utf8_prefix_free:
  assumes "is_scalar c" "is_scalar d" "utf8 c @ x = utf8 d @ y"
  shows "c = d \<and> x = y"
proof -
  have len: "hd (utf8 e) < 128 \<and> utf8 e = [e] \<or> 128 \<le> hd (utf8 e) \<and> lead_width (hd (utf8 e)) = Some (length (utf8 e)) \<and> code_point (utf8 e) = e"
    if "is_scalar e" for e
  proof (cases "e < 128")
    case False
    show ?thesis by (rule utf8_wide[OF that]) (use False in auto)
  qed (simp add: utf8_single)
  have "hd (utf8 c) = hd (utf8 d)" using assms(3) utf8_nonempty by (metis hd_append)
  then have "length (utf8 c) = length (utf8 d)" using len[OF assms(1)] len[OF assms(2)] by auto
  then have "utf8 c = utf8 d" "x = y" using assms(3) by auto
  then show ?thesis using len[OF assms(1)] len[OF assms(2)] by auto
qed

lemma utf8s_prefix:
  assumes "utf8s cs = utf8s cs1 @ r" "list_all is_scalar cs" "list_all is_scalar cs1"
  shows "\<exists>cs2. cs = cs1 @ cs2 \<and> utf8s cs2 = r"
  using assms
proof (induction cs1 arbitrary: cs)
  case (Cons c cs1)
  then obtain d ds where cs: "cs = d # ds" using utf8_nonempty by (cases cs) auto
  then have "utf8 d @ utf8s ds = utf8 c @ utf8s cs1 @ r" using Cons.prems(1) by simp
  then have "d = c" "utf8s ds = utf8s cs1 @ r" using utf8_prefix_free[of d c] Cons.prems(2,3) cs by auto
  then show ?case using Cons.IH[of ds] Cons.prems(2,3) cs by auto
qed auto

section \<open>Lines of a byte or character string\<close>

fun region :: "nat \<Rightarrow> nat \<Rightarrow> nat \<Rightarrow> nat list \<Rightarrow> nat list" where
  "region a b n [] = []"
| "region a b n (x # xs) = (if a \<le> n \<and> n \<le> b then [x] else []) @ region a b (if x = 10 then n + 1 else n) xs"

definition newlines :: "nat list \<Rightarrow> nat" where
  "newlines xs = length (filter (\<lambda>x. x = 10) xs)"

lemma newlines_simps [simp]:
  "newlines [] = 0" "newlines (x # xs) = (if x = 10 then 1 else 0) + newlines xs" "newlines (xs @ ys) = newlines xs + newlines ys"
  by (simp_all add: newlines_def)

lemma newlines_le: "newlines xs \<le> length xs"
  by (simp add: newlines_def)

lemma newlines_0: "newlines xs = 0 \<longleftrightarrow> 10 \<notin> set xs"
  by (induction xs) auto

lemma region_append: "region a b n (xs @ ys) = region a b n xs @ region a b (n + newlines xs) ys"
  by (induction xs arbitrary: n) simp_all

lemma region_line: "10 \<notin> set p \<Longrightarrow> region a b n p = (if a \<le> n \<and> n \<le> b then p else [])"
  by (induction p) auto

lemma newlines_utf8s: "list_all is_scalar cs \<Longrightarrow> newlines (utf8s cs) = newlines cs"
proof (induction cs)
  case (Cons c cs)
  have "newlines (utf8 c) = (if c = 10 then 1 else 0)"
    using Cons.prems newline_in_utf8[of c] by (cases "c = 10") (auto simp: newlines_0 utf8_single)
  then show ?case using Cons by simp
qed simp

lemma filter_enumerate:
  "map snd (filter (\<lambda>(i, x). a \<le> i \<and> i \<le> b) (enumerate n xs)) = take (b + 1 - max a n) (drop (a - n) xs)"
proof (induction xs arbitrary: n)
  case (Cons x xs)
  show ?case
  proof (cases "a \<le> n \<and> n \<le> b")
    case True
    then have "b + 1 - n = Suc (b + 1 - Suc n)" by (simp add: Suc_diff_le)
    then show ?thesis using True Cons[of "Suc n"] by (simp add: max_def)
  next
    case False
    show ?thesis
    proof (cases "n < a")
      case True
      then have "a - n = Suc (a - Suc n)" "max a n = max a (Suc n)" by simp_all
      then show ?thesis using False Cons[of "Suc n"] by simp
    next
      case le: False
      then show ?thesis using False Cons[of "Suc n"] by (simp add: max_def)
    qed
  qed
qed simp

lemma region_pieces:
  "region a b n s = concat (map snd (filter (\<lambda>(i, x). a \<le> i \<and> i \<le> b) (enumerate n (split_inclusive 10 s))))"
proof (induction s arbitrary: n rule: lines_induct)
  case (last p)
  then show ?case by (cases "p = []") (simp_all add: region_line split_inclusive_no_sep)
next
  case (line p s)
  then show ?case by (simp add: region_append region_line split_inclusive_sep newlines_0[THEN iffD2])
qed

lemma region_lines: "region a b n s = concat (take (b + 1 - max a n) (drop (a - n) (split_inclusive 10 s)))"
  by (simp only: region_pieces filter_enumerate)

lemma length_split_inclusive:
  "length (split_inclusive 10 s) = newlines s + (if s = [] \<or> last s = 10 then 0 else 1)"
proof (induction s rule: lines_induct)
  case (last p)
  then show ?case by (cases "p = []") (auto simp: split_inclusive_no_sep newlines_0 dest: last_in_set)
next
  case (line p s)
  then show ?case by (simp add: split_inclusive_sep newlines_0[THEN iffD2])
qed

text \<open>The window of the fingerprint: cutting lines out of the text or selecting its characters.\<close>

lemma strip_eol_no_newline: "l \<in> set (split_inclusive 10 s) \<Longrightarrow> 10 \<notin> set (strip_eol l)"
proof (induction s rule: lines_induct)
  case (last p)
  then show ?case
    by (cases "p = []") (auto simp: split_inclusive_no_sep strip_eol_def strip_last_def dest: in_set_butlastD split: option.splits if_splits)
next
  case (line p s)
  then show ?case
    by (auto simp: split_inclusive_sep strip_eol_def strip_last_def dest: in_set_butlastD split: option.splits if_splits)
qed

lemma normalize_step_Nil [simp]: "normalize_step T [] out = out"
  by (simp add: normalize_step_def)

lemma normalize_step_newline: "normalize_step T (p @ [10]) = normalize_step T p"
  by (rule ext) (simp add: normalize_step_def collapse_def split_whitespace_snoc_space is_whitespace_def)

lemma normalize_join_lines:
  assumes "\<forall>l \<in> set ls. 10 \<notin> set l"
  shows "fold (normalize_step T) (split_inclusive 10 (join_lines ls)) out = fold (normalize_step T) ls out"
  using assms
proof (induction ls arbitrary: out)
  case (Cons l ls)
  show ?case
  proof (cases ls)
    case Nil
    then show ?thesis using Cons.prems by (cases "l = []") (simp_all add: join_lines_def split_inclusive_no_sep)
  next
    case (Cons k ks)
    then have "join_lines (l # ls) = l @ 10 # join_lines ls" by (simp add: join_lines_def)
    then show ?thesis using Cons.IH Cons.prems by (simp add: split_inclusive_sep normalize_step_newline)
  qed
qed (simp add: join_lines_def)

lemma split_inclusive_concat_pieces:
  "split_inclusive 10 (concat (take n (drop k (split_inclusive 10 s)))) = take n (drop k (split_inclusive 10 s))"
proof -
  have take_pieces: "split_inclusive 10 (concat (take n (split_inclusive 10 s))) = take n (split_inclusive 10 s)" for n s
  proof (induction s arbitrary: n rule: lines_induct)
    case (last p)
    then show ?case by (cases "p = []"; cases n) (simp_all add: split_inclusive_no_sep)
  next
    case (line p s)
    then show ?case by (cases n) (simp_all add: split_inclusive_sep)
  qed
  have drop_pieces: "\<exists>t. drop k (split_inclusive 10 s) = split_inclusive 10 t" for k
  proof (induction s arbitrary: k rule: lines_induct)
    case (last p)
    then have "drop k (split_inclusive 10 p) = split_inclusive 10 (if k = 0 then p else [])"
      by (cases "p = []"; cases k) (simp_all add: split_inclusive_no_sep)
    then show ?case by blast
  next
    case (line p s)
    then show ?case
    proof (cases k)
      case (Suc j)
      then show ?thesis using line by (simp add: split_inclusive_sep)
    qed auto
  qed
  show ?thesis using drop_pieces[of k] take_pieces by metis
qed

lemma window_lines:
  assumes "from_line = max (start - c) 1"
  shows "normalize_window T (region from_line (saturating_add_u32 last_line c) 1 s) =
    normalize_window T (extract_window s start last_line c)"
proof -
  let ?pieces = "split_inclusive 10 s"
  define through where "through = saturating_add_u32 last_line c"
  define k where "k = start - c - 1"
  have k: "max from_line 1 = k + 1" "from_line - 1 = k" using assms by (auto simp: k_def)
  have "region from_line through 1 s = concat (take (through - k) (drop k ?pieces))"
    unfolding region_lines k by simp
  then have lhs: "normalize_window T (region from_line through 1 s) = fold (normalize_step T) (take (through - k) (drop k ?pieces)) []"
    by (simp add: normalize_window_fold split_inclusive_concat_pieces)
  have "extract_window s start last_line c =
      (if k \<ge> min through (length ?pieces) then [] else join_lines (take (through - k) (drop k (map strip_eol ?pieces))))"
    by (auto simp: extract_window_def Let_def str_lines_def k_def through_def min_def)
  moreover have "fold (normalize_step T) (split_inclusive 10 (join_lines (take (through - k) (drop k (map strip_eol ?pieces))))) [] =
      fold (normalize_step T) (take (through - k) (drop k ?pieces)) []"
  proof -
    have "\<forall>l \<in> set (take (through - k) (drop k (map strip_eol ?pieces))). 10 \<notin> set l"
      using strip_eol_no_newline[of _ s] by (auto dest!: in_set_takeD in_set_dropD)
    then show ?thesis
      by (simp add: normalize_join_lines take_map[symmetric] drop_map[symmetric] fold_map comp_def normalize_step_strip_eol)
        (simp add: take_map drop_map fold_map comp_def normalize_step_strip_eol)
  qed
  moreover have "take (through - k) (drop k ?pieces) = []" if "k \<ge> min through (length ?pieces)"
    using that by (auto simp: min_def split: if_splits)
  ultimately show ?thesis using lhs by (auto simp: normalize_window_fold through_def)
qed

section \<open>Searching all quotes\<close>

definition searched :: "nat list \<Rightarrow> nat list \<Rightarrow> search \<Rightarrow> bool" where
  "searched t q s \<longleftrightarrow> q \<noteq> [] \<and> (if sublist q t then se_found s \<noteq> None else searching q t s)"

lemma searched_found: "searched t q s \<Longrightarrow> se_found s = None \<longleftrightarrow> \<not> sublist q t"
  by (auto simp: searched_def searching_def split: if_splits)

lemma searched_push:
  assumes "searched t q s"
  shows "\<exists>s'. search_push s b n = Some s' \<and> searched (t @ [b]) q s'"
proof (cases "sublist q t")
  case True
  then have "sublist q (t @ [b])" by (simp add: sublist_snoc)
  then show ?thesis using assms True by (auto simp: searched_def search_push_def)
next
  case False
  then have "searching q t s" using assms by (simp add: searched_def)
  from search_push_step[OF this, of b n] obtain s' where "search_push s b n = Some s'"
    "if suffix q (t @ [b]) then se_found s' = Some (n + 1 - length q, n + 1) else searching q (t @ [b]) s'" by blast
  moreover have "sublist q (t @ [b]) \<longleftrightarrow> suffix q (t @ [b])" using False by (simp add: sublist_snoc)
  ultimately show ?thesis using assms by (auto simp only: searched_def split: if_splits)
qed

lemma searched_push_all:
  assumes "list_all2 (searched t) qs ss"
  shows "\<exists>ss'. those (map (\<lambda>s. search_push s b n) ss) = Some ss' \<and> list_all2 (searched (t @ [b])) qs ss'"
  using assms
proof (induction rule: list_all2_induct)
  case (Cons q qs s ss)
  then show ?case using searched_push[OF Cons(1), of b n] by fastforce
qed simp

lemma searched_new_all:
  assumes "[] \<notin> set qs"
  shows "\<exists>ss. those (map search_new qs) = Some ss \<and> list_all2 (searched []) qs ss"
  using assms
proof (induction qs)
  case (Cons q qs)
  obtain pfx where new: "search_new q = Some \<lparr>se_quote = q, se_prefix = pfx, se_matched = 0, se_found = None\<rparr>" "table_upto q pfx (length q)"
    using search_new_ok by blast
  then have "searched [] q \<lparr>se_quote = q, se_prefix = pfx, se_matched = 0, se_found = None\<rparr>"
    using Cons.prems best_nil by (auto simp: searched_def searching_def)
  then show ?case using Cons new(1) by auto
qed simp

lemma fences_nonempty: "fences_from d ls f n qs = Ok qs' \<Longrightarrow> [] \<notin> set qs \<Longrightarrow> [] \<notin> set qs'"
proof (induction ls arbitrary: f n qs)
  case (Cons l ls)
  show ?case
  proof (cases f)
    case None
    then show ?thesis using Cons by simp
  next
    case (Some a)
    then show ?thesis using Cons.prems Cons.IH[of None "n + length l"] Cons.IH[of f "n + length l" qs]
      by (cases a) (fastforce simp: and_then_Ok_iff ok_or_Ok_iff Let_def split: if_splits)
  qed
qed (simp split: if_splits)

section \<open>The scan\<close>

definition pending :: "nat list \<Rightarrow> nat \<Rightarrow> bool" where
  "pending scalar width \<longleftrightarrow> scalar = [] \<or> lead_width (hd scalar) = Some width \<and> length scalar < width"

definition scanned_upto :: "case_tables \<Rightarrow> ustr \<Rightarrow> nat \<Rightarrow> nat \<Rightarrow> nat list list \<Rightarrow> nat list \<Rightarrow> scan_state \<Rightarrow> bool" where
  "scanned_upto T file start last_line quotes bs st \<longleftrightarrow>
    (\<exists>cs. bs = utf8s cs @ sc_scalar st \<and> list_all is_scalar cs \<and>
       sc_hash st = fold (fp_push T) (region (max (start - 2) 1) (saturating_add_u32 last_line 2) 1 cs) (fingerprint_new file)) \<and>
    pending (sc_scalar st) (sc_width st) \<and>
    sc_line st = 1 + newlines bs \<and> sc_offset st = length bs \<and> sc_final_lf st = (bs \<noteq> [] \<and> last bs = 10) \<and>
    list_all2 (searched (region start last_line 1 bs)) quotes (sc_search st)"

lemma scanned_poll: "poll cancel st = Ok st' \<Longrightarrow> scanned_upto T file start last_line quotes bs st' = scanned_upto T file start last_line quotes bs st"
proof -
  assume "poll cancel st = Ok st'"
  then obtain n where "st' = st\<lparr>sc_polls := n\<rparr>" by (auto simp: poll_def map_ok_Ok_iff)
  then show ?thesis by (simp add: scanned_upto_def)
qed

lemma fail_iff [simp]: "fail r = Ok x \<longleftrightarrow> r = Ok x" "fail r = Err e \<longleftrightarrow> (\<exists>e'. e = Fail e' \<and> r = Err e')"
  by (cases r; auto)+

lemma lead_width_bounds: "lead_width b = Some w \<Longrightarrow> 2 \<le> w \<and> w \<le> 4 \<and> 128 \<le> b"
  by (auto simp: lead_width_def split: if_splits)

text \<open>One more byte: either the scalar stays incomplete or it is one character more.\<close>

lemma scan_scalar_step:
  assumes "scan_scalar b scalar w = Ok (ch, scalar', w')" "pending scalar w"
  shows "pending scalar' w' \<and> (case ch of None \<Rightarrow> scalar' = scalar @ [b] | Some c \<Rightarrow> scalar' = [] \<and> is_scalar c \<and> utf8 c = scalar @ [b])"
proof (cases "scalar = [] \<and> b < 128")
  case True
  then show ?thesis using assms by (auto simp: scan_scalar_def pending_def utf8_single is_scalar_def)
next
  case False
  then obtain v where v: "if scalar = [] then lead_width b = Some v else v = w"
    and rest: "(if length scalar \<ge> 4 then Err Utf8
       else if length scalar + 1 = v then map_ok (\<lambda>c. (Some c, [], v)) (ok_or (from_utf8 (scalar @ [b])) Utf8)
       else Ok (None, scalar @ [b], v)) = Ok (ch, scalar', w')"
    using assms(1) by (auto simp: scan_scalar_def and_then_Ok_iff ok_or_Ok_iff split: if_splits)
  have lead: "lead_width (hd (scalar @ [b])) = Some v" "length scalar < v"
    using v assms(2) lead_width_bounds[of b v] by (auto simp: pending_def split: if_splits)
  show ?thesis using rest lead by (auto simp: pending_def map_ok_Ok_iff ok_or_Ok_iff dest: from_utf8_Some split: if_splits)
qed

lemma push_quotes_ok:
  assumes "list_all2 (searched (region start last_line 1 bs)) quotes (sc_search st)" "sc_line st = 1 + newlines bs"
  shows "\<exists>ss. push_quotes start last_line b st = Ok (st\<lparr>sc_search := ss\<rparr>) \<and>
    list_all2 (searched (region start last_line 1 (bs @ [b]))) quotes ss"
proof (cases "sc_line st \<ge> start \<and> sc_line st \<le> last_line")
  case True
  then have "region start last_line 1 (bs @ [b]) = region start last_line 1 bs @ [b]" using assms(2) by (simp add: region_append)
  then show ?thesis using True searched_push_all[OF assms(1), of b "sc_offset st"] by (auto simp: push_quotes_def)
next
  case False
  then have "region start last_line 1 (bs @ [b]) = region start last_line 1 bs" using assms(2) by (simp add: region_append)
  then show ?thesis using False assms(1) by (auto simp: push_quotes_def intro: exI[of _ "sc_search st"])
qed

definition after_byte ::
  "case_tables \<Rightarrow> nat \<Rightarrow> nat \<Rightarrow> nat \<Rightarrow> scan_state \<Rightarrow> nat option \<Rightarrow> nat list \<Rightarrow> nat \<Rightarrow> scan_state" where
  "after_byte T start last_line b st ch scalar width =
    st\<lparr>sc_hash := (case ch of
          Some c \<Rightarrow> if sc_line st \<ge> max (start - 2) 1 \<and> sc_line st \<le> saturating_add_u32 last_line 2 then fp_push T c (sc_hash st) else sc_hash st
        | None \<Rightarrow> sc_hash st),
      sc_scalar := scalar, sc_width := width, sc_final_lf := (b = 10),
      sc_line := (if b = 10 then sc_line st + 1 else sc_line st), sc_offset := sc_offset st + 1\<rparr>"

lemma scanned_after_byte:
  assumes "scanned_upto T file start last_line quotes bs st" "scan_scalar b (sc_scalar st) (sc_width st) = Ok (ch, scalar, width)"
    "list_all2 (searched (region start last_line 1 (bs @ [b]))) quotes ss"
  shows "scanned_upto T file start last_line quotes (bs @ [b]) (after_byte T start last_line b (st\<lparr>sc_search := ss\<rparr>) ch scalar width)"
proof -
  from assms(1) obtain cs where cs: "bs = utf8s cs @ sc_scalar st" "list_all is_scalar cs"
    "sc_hash st = fold (fp_push T) (region (max (start - 2) 1) (saturating_add_u32 last_line 2) 1 cs) (fingerprint_new file)"
    and st: "pending (sc_scalar st) (sc_width st)" "sc_line st = 1 + newlines bs" "sc_offset st = length bs"
    unfolding scanned_upto_def by blast
  note step = scan_scalar_step[OF assms(2) st(1)]
  have "\<exists>cs'. bs @ [b] = utf8s cs' @ scalar \<and> list_all is_scalar cs' \<and>
      sc_hash (after_byte T start last_line b (st\<lparr>sc_search := ss\<rparr>) ch scalar width) =
        fold (fp_push T) (region (max (start - 2) 1) (saturating_add_u32 last_line 2) 1 cs') (fingerprint_new file)"
  proof (cases ch)
    case None
    then show ?thesis using step cs by (intro exI[of _ cs]) (simp add: after_byte_def)
  next
    case (Some c)
    then have c: "scalar = []" "is_scalar c" "utf8 c = sc_scalar st @ [b]" using step by simp_all
    have "newlines (sc_scalar st) = 0"
    proof (cases "sc_scalar st = []")
      case False
      then have "c \<noteq> 10" using c(3) by (auto simp: utf8_single)
      then show ?thesis using newline_in_utf8[of c] c(3) by (simp add: newlines_0)
    qed simp
    then have "sc_line st = 1 + newlines cs" using st(2) cs(1,2) by (simp add: newlines_utf8s)
    then show ?thesis using cs c Some
      by (intro exI[of _ "cs @ [c]"]) (simp add: after_byte_def region_append)
  qed
  then show ?thesis using step st assms(3) by (simp add: scanned_upto_def after_byte_def)
qed

lemma source_byte_cases:
  assumes "scanned_upto T file start last_line quotes bs st" "if sc_offset st mod 256 = 0 then poll cancel st = Ok st1 else st1 = st"
  shows "\<exists>ss. list_all2 (searched (region start last_line 1 (bs @ [b]))) quotes ss \<and>
    source_byte T cancel start last_line b st =
      and_then (fail (scan_scalar b (sc_scalar st1) (sc_width st1))) (\<lambda>(ch, scalar, width).
        if b = 10 \<and> \<not> sc_line st1 < max_u64 \<or> \<not> sc_offset st1 < max_u64 then Err (Fail Io)
        else Ok (after_byte T start last_line b (st1\<lparr>sc_search := ss\<rparr>) ch scalar width))"
proof -
  have "scanned_upto T file start last_line quotes bs st1"
    using assms scanned_poll[of cancel st st1] by (simp split: if_splits)
  then have "list_all2 (searched (region start last_line 1 bs)) quotes (sc_search st1)" "sc_line st1 = 1 + newlines bs"
    by (simp_all add: scanned_upto_def)
  from push_quotes_ok[OF this, of b] obtain ss where push: "push_quotes start last_line b st1 = Ok (st1\<lparr>sc_search := ss\<rparr>)"
    "list_all2 (searched (region start last_line 1 (bs @ [b]))) quotes ss" by blast
  have first: "(if sc_offset st mod 256 = 0 then poll cancel st else Ok st) = Ok st1" using assms(2) by (simp split: if_splits)
  have "source_byte T cancel start last_line b st =
      and_then (fail (scan_scalar b (sc_scalar st1) (sc_width st1))) (\<lambda>(ch, scalar, width).
        if b = 10 \<and> \<not> sc_line st1 < max_u64 \<or> \<not> sc_offset st1 < max_u64 then Err (Fail Io)
        else Ok (after_byte T start last_line b (st1\<lparr>sc_search := ss\<rparr>) ch scalar width))"
    unfolding source_byte_def first
    by (cases "scan_scalar b (sc_scalar st1) (sc_width st1)")
      (auto simp: push(1) checked_succ_def after_byte_def FINGERPRINT_CONTEXT_LINES_def Let_def split: option.split)
  then show ?thesis using push(2) by blast
qed

text \<open>A computation that establishes a condition if it succeeds, and never panics or hangs.\<close>

definition sound :: "('a, fault) result \<Rightarrow> ('a \<Rightarrow> bool) \<Rightarrow> bool" where
  "sound r P = (case r of Ok x \<Rightarrow> P x | Err e \<Rightarrow> e \<noteq> Stuck)"

lemma sound_simps [simp]: "sound (Ok x) P = P x" "sound (Err e) P = (e \<noteq> Stuck)"
  by (simp_all add: sound_def)

lemma sound_and_then: "sound r P \<Longrightarrow> (\<And>x. P x \<Longrightarrow> sound (f x) Q) \<Longrightarrow> sound (and_then r f) Q"
  by (cases r) simp_all

lemma sound_check_cancellation: "sound (check_cancellation cancel n) (\<lambda>_. True)"
  by (simp add: check_cancellation_def)

lemma sound_fail: "(\<And>x. r = Ok x \<Longrightarrow> P x) \<Longrightarrow> sound (fail r) P"
  by (cases r) simp_all

lemma sound_poll:
  assumes "scanned_upto T file start last_line quotes bs st"
  shows "sound (poll cancel st) (scanned_upto T file start last_line quotes bs)"
proof (cases "poll cancel st")
  case (Ok st')
  then show ?thesis using assms scanned_poll by simp
next
  case (Err e)
  then show ?thesis by (auto simp: poll_def check_cancellation_def split: if_splits)
qed

lemma sound_source_byte:
  assumes "scanned_upto T file start last_line quotes bs st"
  shows "sound (source_byte T cancel start last_line b st) (scanned_upto T file start last_line quotes (bs @ [b]))"
proof (cases "if sc_offset st mod 256 = 0 then poll cancel st else Ok st")
  case (Err e)
  then show ?thesis using sound_poll[OF assms, of cancel] by (simp add: source_byte_def split: if_splits)
next
  case (Ok st1)
  then have st1: "if sc_offset st mod 256 = 0 then poll cancel st = Ok st1 else st1 = st" by (simp split: if_splits)
  then have inv: "scanned_upto T file start last_line quotes bs st1" using assms scanned_poll[of cancel st st1] by (simp split: if_splits)
  from source_byte_cases[OF assms st1, of b] obtain ss where ss: "list_all2 (searched (region start last_line 1 (bs @ [b]))) quotes ss"
    and eq: "source_byte T cancel start last_line b st =
      and_then (fail (scan_scalar b (sc_scalar st1) (sc_width st1))) (\<lambda>(ch, scalar, width).
        if b = 10 \<and> \<not> sc_line st1 < max_u64 \<or> \<not> sc_offset st1 < max_u64 then Err (Fail Io)
        else Ok (after_byte T start last_line b (st1\<lparr>sc_search := ss\<rparr>) ch scalar width))" by blast
  show ?thesis unfolding eq
    by (cases "scan_scalar b (sc_scalar st1) (sc_width st1)") (auto simp: scanned_after_byte[OF inv _ ss])
qed

lemma sound_scan_bytes:
  assumes "scanned_upto T file start last_line quotes bs st"
  shows "sound (scan_bytes T cancel start last_line chunk st) (scanned_upto T file start last_line quotes (bs @ chunk))"
  using assms
proof (induction chunk arbitrary: bs st)
  case (Cons b chunk)
  show ?case using Cons.IH[of "bs @ [b]"] by (auto intro: sound_and_then[OF sound_source_byte[OF Cons.prems]])
qed simp

lemma sound_scan_reads:
  assumes "scanned_upto T file start last_line quotes bs st"
  shows "sound (scan_reads T cancel start last_line source st)
    (\<lambda>st'. None \<notin> set source \<and> scanned_upto T file start last_line quotes (bs @ join_reader source) st')"
  using assms
proof (induction source arbitrary: bs st)
  case Nil
  then show ?case by (auto simp: join_reader_def intro!: sound_and_then[OF sound_poll[OF Nil]] sound_poll)
next
  case (Cons r source)
  show ?case
  proof (cases r)
    case None
    then show ?thesis by (auto intro: sound_and_then[OF sound_poll[OF Cons.prems]])
  next
    case (Some chunk)
    have "sound (scan_reads T cancel start last_line source st')
        (\<lambda>st'. None \<notin> set (r # source) \<and> scanned_upto T file start last_line quotes (bs @ join_reader (r # source)) st')"
      if "scanned_upto T file start last_line quotes (bs @ chunk) st'" for st'
      using Cons.IH[OF that] Some by (simp add: join_reader_def)
    then show ?thesis unfolding Some scan_reads.simps
      by (intro sound_and_then[OF sound_poll[OF Cons.prems]] sound_and_then[OF sound_poll] sound_and_then[OF sound_scan_bytes])
  qed
qed

section \<open>Nothing valid is refused\<close>

lemma scan_scalar_ok:
  assumes "utf8s cs = utf8s cs1 @ scalar @ b # rest" "list_all is_scalar cs" "list_all is_scalar cs1" "pending scalar w"
  shows "\<exists>r. scan_scalar b scalar w = Ok r"
proof -
  obtain cs2 where cs2: "cs = cs1 @ cs2" "utf8s cs2 = scalar @ b # rest" using utf8s_prefix[OF assms(1-3)] by blast
  then obtain c cs3 where c: "cs2 = c # cs3" by (cases cs2) auto
  then have eq: "utf8 c @ utf8s cs3 = scalar @ b # rest" and sc: "is_scalar c" using cs2 assms(2) by auto
  show ?thesis
  proof (cases "c < 128")
    case True
    then have "hd (scalar @ [b]) = c" using eq by (cases scalar) (auto simp: utf8_single)
    then have "scalar = []" using True assms(4) lead_width_bounds[of "hd scalar" w] by (cases scalar) (auto simp: pending_def)
    then show ?thesis using eq True by (simp add: utf8_single scan_scalar_def)
  next
    case False
    then obtain a r where a: "utf8 c = a # r" "lead_width a = Some (length (utf8 c))" "128 \<le> a" "r \<noteq> []" "length (utf8 c) \<le> 4"
      using utf8_wide[OF sc] by (metis not_less)
    show ?thesis
    proof (cases "scalar = []")
      case True
      then show ?thesis using eq a by (auto simp: scan_scalar_def)
    next
      case ne: False
      then have w: "w = length (utf8 c)" "length scalar < w" using eq a(1,2) assms(4) by (cases scalar; auto simp: pending_def)+
      have "from_utf8 (scalar @ [b]) = Some c" if "length scalar + 1 = w"
      proof -
        have "utf8 c @ utf8s cs3 = (scalar @ [b]) @ rest" using eq by simp
        moreover have "length (utf8 c) = length (scalar @ [b])" using w that by simp
        ultimately have "utf8 c = scalar @ [b]" by (metis append_eq_append_conv)
        then show ?thesis using from_utf8_utf8[OF sc] False by simp
      qed
      then show ?thesis using ne w a(5) by (auto simp: scan_scalar_def)
    qed
  qed
qed

lemma poll_ok: "\<forall>n. \<not> cancel n \<Longrightarrow> poll cancel st = Ok (st\<lparr>sc_polls := sc_polls st + 1\<rparr>)"
  by (simp add: poll_def check_cancellation_def)

lemma source_byte_ok:
  assumes "scanned_upto T file start last_line quotes bs st" "\<forall>n. \<not> cancel n"
    "utf8s cs = bs @ b # rest" "list_all is_scalar cs" "length (bs @ b # rest) < max_u64"
  shows "\<exists>st'. source_byte T cancel start last_line b st = Ok st'"
proof -
  define st1 where "st1 = (if sc_offset st mod 256 = 0 then st\<lparr>sc_polls := sc_polls st + 1\<rparr> else st)"
  have st1: "if sc_offset st mod 256 = 0 then poll cancel st = Ok st1 else st1 = st" using assms(2) by (simp add: st1_def poll_ok)
  have same: "sc_scalar st1 = sc_scalar st" "sc_width st1 = sc_width st" "sc_line st1 = sc_line st" "sc_offset st1 = sc_offset st"
    by (simp_all add: st1_def)
  from assms(1) obtain cs1 where "bs = utf8s cs1 @ sc_scalar st" "list_all is_scalar cs1" "pending (sc_scalar st) (sc_width st)"
    unfolding scanned_upto_def by blast
  then obtain r where r: "scan_scalar b (sc_scalar st) (sc_width st) = Ok r"
    using scan_scalar_ok[of cs cs1 "sc_scalar st" b rest "sc_width st"] assms(3,4) by (metis append.assoc)
  have "sc_line st < max_u64" "sc_offset st < max_u64"
    using assms(1,5) newlines_le[of bs] by (auto simp: scanned_upto_def)
  then show ?thesis using source_byte_cases[OF assms(1) st1, of b] r by (cases r) (auto simp: same)
qed

lemma scan_bytes_ok:
  assumes "scanned_upto T file start last_line quotes bs st" "\<forall>n. \<not> cancel n"
    "utf8s cs = bs @ chunk @ rest" "list_all is_scalar cs" "length (bs @ chunk @ rest) < max_u64"
  shows "\<exists>st'. scan_bytes T cancel start last_line chunk st = Ok st'"
  using assms(1,3,5)
proof (induction chunk arbitrary: bs st)
  case (Cons b chunk)
  obtain st' where st': "source_byte T cancel start last_line b st = Ok st'"
    using source_byte_ok[OF Cons.prems(1) assms(2) _ assms(4), of b "chunk @ rest"] Cons.prems(2,3) by auto
  then have "scanned_upto T file start last_line quotes (bs @ [b]) st'"
    using sound_source_byte[OF Cons.prems(1), of cancel b] by simp
  from Cons.IH[OF this] Cons.prems(2,3) st' show ?case by simp
qed simp

lemma scan_reads_ok:
  assumes "scanned_upto T file start last_line quotes bs st" "\<forall>n. \<not> cancel n"
    "utf8s cs = bs @ join_reader source" "list_all is_scalar cs" "length (bs @ join_reader source) < max_u64" "None \<notin> set source"
  shows "\<exists>st'. scan_reads T cancel start last_line source st = Ok st'"
  using assms(1,3,5,6)
proof (induction source arbitrary: bs st)
  case Nil
  then show ?case by (simp add: poll_ok[OF assms(2)])
next
  case (Cons r source)
  obtain chunk where r: "r = Some chunk" using Cons.prems(4) by (cases r) auto
  define st2 where "st2 = st\<lparr>sc_polls := sc_polls st + 1 + 1\<rparr>"
  have st2: "scanned_upto T file start last_line quotes bs st2" using Cons.prems(1) by (simp add: st2_def scanned_upto_def)
  have join: "join_reader (r # source) = chunk @ join_reader source" by (simp add: r join_reader_def)
  obtain st3 where st3: "scan_bytes T cancel start last_line chunk st2 = Ok st3"
    using scan_bytes_ok[OF st2 assms(2) _ assms(4), of chunk "join_reader source"] Cons.prems(2,3) by (auto simp: join)
  then have "scanned_upto T file start last_line quotes (bs @ chunk) st3" using sound_scan_bytes[OF st2, of cancel chunk] by simp
  from Cons.IH[OF this] Cons.prems(2-4) obtain st' where "scan_reads T cancel start last_line source st3 = Ok st'"
    by (auto simp: join)
  then show ?case using st3 by (simp add: r poll_ok[OF assms(2)] st2_def)
qed

lemma scanned_complete:
  assumes "scanned_upto T file start last_line quotes (utf8s cs) st" "list_all is_scalar cs"
  shows "sc_scalar st = []"
proof (rule ccontr)
  assume ne: "sc_scalar st \<noteq> []"
  from assms(1) obtain cs1 where cs1: "utf8s cs = utf8s cs1 @ sc_scalar st" "list_all is_scalar cs1" and p: "pending (sc_scalar st) (sc_width st)"
    unfolding scanned_upto_def by blast
  from utf8s_prefix[OF cs1(1) assms(2) cs1(2)] obtain cs3 where "cs = cs1 @ cs3" "utf8s cs3 = sc_scalar st" by blast
  then obtain c cs2 where c: "utf8 c @ utf8s cs2 = sc_scalar st" "is_scalar c" using assms(2) ne by (cases cs3) auto
  have hd: "hd (sc_scalar st) = hd (utf8 c)" using c(1) utf8_nonempty[of c] by (metis hd_append)
  have "128 \<le> c" using p ne lead_width_bounds[of "hd (sc_scalar st)"] utf8_single[of c] hd by (cases "c < 128") (auto simp: pending_def)
  from utf8_wide[OF c(2) this] have "lead_width (hd (utf8 c)) = Some (length (utf8 c))" by (metis list.sel(1))
  then show False using p ne hd c(1) by (auto simp: pending_def dest: arg_cong[of _ _ length])
qed

section \<open>Acceptance\<close>

definition cited_bytes :: "nat \<Rightarrow> nat \<Rightarrow> nat list \<Rightarrow> nat list" where
  "cited_bytes start last_line bytes = concat (take (last_line + 1 - start) (drop (start - 1) (split_inclusive 10 bytes)))"

text \<open>What a citation claims of a readable file: the range lies in it, and each quote is in the range.\<close>

definition citation_true ::
  "(nat list \<Rightarrow> 'h) \<Rightarrow> case_tables \<Rightarrow> reader \<Rightarrow> ustr \<Rightarrow> nat \<Rightarrow> nat \<Rightarrow> nat list \<Rightarrow> 'h \<Rightarrow> bool" where
  "citation_true blake3 T source file start last_line description h \<longleftrightarrow>
    None \<notin> set source \<and> 1 \<le> start \<and> start \<le> last_line \<and>
    last_line \<le> max 1 (length (split_inclusive 10 (join_reader source))) \<and>
    (\<exists>quotes. fences description = Ok quotes \<and>
       (\<forall>q \<in> set quotes. sublist q (cited_bytes start last_line (join_reader source)))) \<and>
    (\<exists>cs. list_all is_scalar cs \<and> join_reader source = utf8s cs \<and>
       h = compute blake3 T SCANNER_ID file (extract_window cs start last_line 2))"

definition scan_result ::
  "(nat list \<Rightarrow> 'h) \<Rightarrow> case_tables \<Rightarrow> reader \<Rightarrow> ustr \<Rightarrow> nat \<Rightarrow> nat \<Rightarrow> nat list list \<Rightarrow> nat \<times> 'h \<times> (nat \<times> nat) option list \<Rightarrow> bool" where
  "scan_result blake3 T source file start last_line quotes res \<longleftrightarrow>
    (case res of (lines, h, matches) \<Rightarrow>
      None \<notin> set source \<and> lines = max 1 (length (split_inclusive 10 (join_reader source))) \<and>
      list_all2 (\<lambda>q m. m = None \<longleftrightarrow> \<not> sublist q (region start last_line 1 (join_reader source))) quotes matches \<and>
      (\<exists>cs. list_all is_scalar cs \<and> join_reader source = utf8s cs \<and>
         h = compute blake3 T SCANNER_ID file (extract_window cs start last_line 2)))"

lemma sound_scan_finish:
  assumes "case_laws T" "None \<notin> set source" "scanned_upto T file start last_line quotes (join_reader source) st"
  shows "sound (scan_finish blake3 st) (scan_result blake3 T source file start last_line quotes)"
proof (cases "sc_scalar st = []")
  case True
  let ?bytes = "join_reader source"
  from assms(3) True obtain cs where cs: "?bytes = utf8s cs" "list_all is_scalar cs"
    "sc_hash st = fold (fp_push T) (region (max (start - 2) 1) (saturating_add_u32 last_line 2) 1 cs) (fingerprint_new file)"
    unfolding scanned_upto_def by auto
  have "fp_finish blake3 (sc_hash st) = compute blake3 T SCANNER_ID file (extract_window cs start last_line 2)"
    using window_pushed[OF assms(1), of "utf8s SCANNER_ID @ [0] @ utf8s file @ [0]" "[]" "fingerprint_new file"]
      window_lines[OF refl, of T start 2 last_line cs]
    by (simp add: cs(3) fp_finish_def compute_def between_lines_def fingerprint_new_def normalize_window_fold)
  moreover have "max (if sc_final_lf st then sc_line st - 1 else sc_line st) 1 = max 1 (length (split_inclusive 10 ?bytes))"
    using assms(3) by (auto simp: scanned_upto_def length_split_inclusive)
  moreover have "list_all2 (\<lambda>q m. m = None \<longleftrightarrow> \<not> sublist q (region start last_line 1 ?bytes)) quotes (map se_found (sc_search st))"
    using assms(3) by (auto simp: scanned_upto_def list_all2_map2 searched_found elim!: list_all2_mono)
  ultimately show ?thesis using cs(1,2) assms(2) True unfolding scan_result_def scan_finish_def by auto
qed (simp add: scan_finish_def)

lemma scanned_start:
  "list_all2 (searched []) quotes ss \<Longrightarrow>
    scanned_upto T file start last_line quotes [] \<lparr>sc_search = ss, sc_hash = fingerprint_new file, sc_scalar = [], sc_width = 0,
      sc_line = 1, sc_offset = 0, sc_final_lf = False, sc_polls = n\<rparr>"
  by (auto simp: scanned_upto_def pending_def intro!: exI[of _ "[]"])

lemma sound_scan:
  assumes "case_laws T" "[] \<notin> set quotes"
  shows "sound (scan blake3 T cancel n source file start last_line quotes) (scan_result blake3 T source file start last_line quotes)"
proof -
  obtain ss where ss: "those (map search_new quotes) = Some ss" "list_all2 (searched []) quotes ss"
    using searched_new_all[OF assms(2)] by blast
  have "sound (and_then (poll cancel st) (scan_finish blake3)) (scan_result blake3 T source file start last_line quotes)"
    if "None \<notin> set source \<and> scanned_upto T file start last_line quotes ([] @ join_reader source) st" for st
    using that by (intro sound_and_then[OF sound_poll] sound_scan_finish[OF assms(1)]) auto
  then show ?thesis unfolding scan_def ss(1) ok_or.simps and_then.simps(1)
    by (intro sound_and_then[OF sound_check_cancellation] sound_and_then[OF sound_scan_reads[OF scanned_start[OF ss(2)]]])
qed

lemma scan_ok:
  assumes "[] \<notin> set quotes" "\<forall>n. \<not> cancel n" "None \<notin> set source"
    "join_reader source = utf8s cs" "list_all is_scalar cs" "length (join_reader source) < max_u64"
  shows "\<exists>res. scan blake3 T cancel n source file start last_line quotes = Ok res"
proof -
  obtain ss where ss: "those (map search_new quotes) = Some ss" "list_all2 (searched []) quotes ss"
    using searched_new_all[OF assms(1)] by blast
  define st0 where "st0 = \<lparr>sc_search = ss, sc_hash = fingerprint_new file, sc_scalar = [],
      sc_width = 0, sc_line = 1, sc_offset = 0, sc_final_lf = False, sc_polls = n + 1\<rparr>"
  have start: "scanned_upto T file start last_line quotes [] st0" unfolding st0_def by (rule scanned_start[OF ss(2)])
  obtain st where st: "scan_reads T cancel start last_line source st0 = Ok st"
    using scan_reads_ok[OF start assms(2) _ assms(5) _ assms(3)] assms(4,6) by auto
  then have "scanned_upto T file start last_line quotes (utf8s cs) st" using sound_scan_reads[OF start, of cancel source] assms(4) by simp
  from scanned_complete[OF this assms(5)] show ?thesis
    using st ss(1) assms(2) by (simp add: scan_def check_cancellation_def poll_ok scan_finish_def st0_def)
qed

lemma utf8s_inj:
  assumes "utf8s cs = utf8s ds" "list_all is_scalar cs" "list_all is_scalar ds"
  shows "cs = ds"
proof -
  obtain es where "cs = ds @ es" "utf8s es = []" using utf8s_prefix[of cs ds "[]"] assms by (metis append_Nil2)
  then show ?thesis using utf8_nonempty by (cases es) auto
qed

lemma judge_Ok:
  assumes "scan_result blake3 T source file start last_line quotes res" "fences description = Ok quotes"
  shows "judge start last_line res = Ok h \<longleftrightarrow> citation_true blake3 T source file start last_line description h"
proof -
  let ?bytes = "join_reader source"
  obtain lines k matches where res: "res = (lines, k, matches)" by (cases res)
  have "list_all2 (\<lambda>q m. m = None \<longleftrightarrow> \<not> sublist q (region start last_line 1 ?bytes)) quotes matches"
    using assms(1) res by (simp add: scan_result_def)
  then have matches: "list_ex (\<lambda>m. m = None) matches \<longleftrightarrow> (\<exists>q \<in> set quotes. \<not> sublist q (region start last_line 1 ?bytes))"
    by (induction rule: list_all2_induct) auto
  have region: "region start last_line 1 ?bytes = cited_bytes start last_line ?bytes" if "1 \<le> start"
    using that by (simp add: region_lines cited_bytes_def max_def)
  obtain cs where cs: "list_all is_scalar cs" "?bytes = utf8s cs" "k = compute blake3 T SCANNER_ID file (extract_window cs start last_line 2)"
    using assms(1) res by (auto simp: scan_result_def)
  have "(\<exists>ds. list_all is_scalar ds \<and> ?bytes = utf8s ds \<and> h = compute blake3 T SCANNER_ID file (extract_window ds start last_line 2)) \<longleftrightarrow> h = k"
    using cs utf8s_inj[of cs] by metis
  then show ?thesis using assms res region by (auto simp: scan_result_def citation_true_def matches)
qed

lemma judge_not_stuck: "judge start last_line res \<noteq> Err Stuck"
  by (cases res) simp

lemma sound_check_source:
  assumes "case_laws T"
  shows "sound (check_source blake3 T cancel n source file start last_line description)
    (citation_true blake3 T source file start last_line description)"
proof (cases "fences description")
  case (Err e)
  then show ?thesis unfolding check_source_def by (intro sound_and_then[OF sound_check_cancellation]) simp
next
  case q: (Ok quotes)
  then have ne: "[] \<notin> set quotes" using fences_nonempty[of description _ None 0 "[]"] by (simp add: fences_def)
  have "sound (judge start last_line res) (citation_true blake3 T source file start last_line description)"
    if "scan_result blake3 T source file start last_line quotes res" for res
  proof (cases "judge start last_line res")
    case (Ok h)
    then show ?thesis using judge_Ok[OF that q, of h] by simp
  qed (use judge_not_stuck[of start last_line res] in simp)
  then show ?thesis unfolding check_source_def q fail.simps and_then.simps(1)
    by (intro sound_and_then[OF sound_check_cancellation] sound_and_then[OF sound_scan[OF assms ne]])
qed

lemma check_source_accepts:
  assumes "case_laws T" "length (join_reader source) < max_u64" "\<forall>n. \<not> cancel n"
    "citation_true blake3 T source file start last_line description h"
  shows "check_source blake3 T cancel n source file start last_line description = Ok h"
proof -
  obtain quotes cs where q: "fences description = Ok quotes" and cs: "join_reader source = utf8s cs" "list_all is_scalar cs" "None \<notin> set source"
    using assms(4) unfolding citation_true_def by blast
  have ne: "[] \<notin> set quotes" using q fences_nonempty[of description _ None 0 "[]"] by (simp add: fences_def)
  obtain res where res: "scan blake3 T cancel (n + 1) source file start last_line quotes = Ok res"
    using scan_ok[OF ne assms(3) cs(3,1,2) assms(2)] by blast
  have "sound (scan blake3 T cancel (n + 1) source file start last_line quotes) (scan_result blake3 T source file start last_line quotes)"
    by (rule sound_scan[OF assms(1) ne])
  then have "scan_result blake3 T source file start last_line quotes res" unfolding res by (simp only: sound_simps)
  from judge_Ok[OF this q, of h] assms(4) have "judge start last_line res = Ok h" by simp
  then show ?thesis using q res assms(3) by (simp add: check_source_def check_cancellation_def)
qed

text \<open>
  C20: A citation is accepted only for a regular, readable UTF-8 file whose lines include the cited range, and only if
  every fenced quote of the description occurs literally in the bytes of these lines; the accepted value
  is the fingerprint of the window around them. Conversely such a citation is accepted unless the
  request is cancelled. The check never panics and never hangs, however the file arrives in chunks.\<close>

theorem citation_correct:
  assumes "case_laws T" "length (join_reader source) < max_u64"
  shows "(citation_validate blake3 T cancel is_file source file start last_line description = Ok h \<longrightarrow>
      is_file = Some True \<and> citation_true blake3 T source file start last_line (utf8s description) h) \<and>
    ((\<forall>n. \<not> cancel n) \<and> is_file = Some True \<and> citation_true blake3 T source file start last_line (utf8s description) h \<longrightarrow>
      citation_validate blake3 T cancel is_file source file start last_line description = Ok h) \<and>
    citation_validate blake3 T cancel is_file source file start last_line description \<noteq> Err Stuck"
proof (intro conjI impI)
  let ?check = "check_source blake3 T cancel 1 source file start last_line (utf8s description)"
  have sound: "sound ?check (citation_true blake3 T source file start last_line (utf8s description))"
    by (rule sound_check_source[OF assms(1)])
  have eq: "citation_validate blake3 T cancel is_file source file start last_line description =
      (if cancel 0 then Err (Fail Cancelled)
       else case is_file of None \<Rightarrow> Err (Fail Io) | Some True \<Rightarrow> ?check | Some False \<Rightarrow> Err (Fail NotRegular))"
    by (simp add: citation_validate_def check_cancellation_def split: option.split bool.split)
  show "citation_validate blake3 T cancel is_file source file start last_line description \<noteq> Err Stuck"
    using sound by (auto simp: eq split: option.split bool.split)
  {
    assume "citation_validate blake3 T cancel is_file source file start last_line description = Ok h"
    then have *: "is_file = Some True \<and> ?check = Ok h" by (auto simp: eq split: if_splits option.splits bool.splits)
    then show "is_file = Some True" "citation_true blake3 T source file start last_line (utf8s description) h"
      using sound by simp_all
  next
    assume "(\<forall>n. \<not> cancel n) \<and> is_file = Some True \<and> citation_true blake3 T source file start last_line (utf8s description) h"
    then show "citation_validate blake3 T cancel is_file source file start last_line description = Ok h"
      unfolding eq using check_source_accepts[OF assms, of cancel] by auto
  }
qed

theorem citation_correct_witness:
  "citation_validate (\<lambda>h. h) ascii_case (\<lambda>_. False) (Some True) [Some [97, 98], Some [10, 67, 100, 10]] [102] 2 2
     [96, 96, 96, 10, 67, 100, 10, 96, 96, 96] = Ok (utf8s SCANNER_ID @ [0, 102, 0, 97, 98, 10, 99, 100])"
proof -
  let ?source = "[Some [97, 98], Some [10, 67, 100, 10 :: nat]]"
  have join: "join_reader ?source = [97, 98, 10, 67, 100, 10]" by (simp add: join_reader_def)
  have len: "length (join_reader ?source) < max_u64" by (simp add: join max_u64_def)
  have quotes: "fences (utf8s [96, 96, 96, 10, 67, 100, 10, 96, 96, 96]) = Ok [[67, 100]]" by code_simp
  have cited: "sublist [67, 100] (cited_bytes 2 2 (join_reader ?source))" by (simp add: join cited_bytes_def)
  have hash: "utf8s SCANNER_ID @ [0, 102, 0, 97, 98, 10, 99, 100] =
      compute (\<lambda>h. h) ascii_case SCANNER_ID [102] (extract_window [97, 98, 10, 67, 100, 10] 2 2 2)" by code_simp
  have chars: "list_all is_scalar [97, 98, 10, 67, 100, 10]" "join_reader ?source = utf8s [97, 98, 10, 67, 100, 10]"
    by (simp_all add: join is_scalar_def utf8_def)
  have "2 \<le> max 1 (length (split_inclusive 10 (join_reader ?source)))" by (simp add: join)
  then have "citation_true (\<lambda>h. h) ascii_case ?source [102] 2 2 (utf8s [96, 96, 96, 10, 67, 100, 10, 96, 96, 96])
      (utf8s SCANNER_ID @ [0, 102, 0, 97, 98, 10, 99, 100])"
    unfolding citation_true_def
    by (intro conjI exI[of _ "[[67, 100]]"] exI[of _ "[97, 98, 10, 67, 100, 10]"] quotes hash chars) (use cited in simp_all)
  then show ?thesis
    by (intro citation_correct[OF ascii_case_laws len, THEN conjunct2, THEN conjunct1, THEN mp] conjI) simp_all
qed

end
