(* ===== verification/Worker_Routes.thy ===== *)
theory Worker_Routes
  imports Guarantees Leases
begin

text \<open>
  The HTTP routes by which a worker acts on its leased job (\<open>loupe-server\<close>: \<open>job_capability.rs\<close>,
  \<open>routes/jobs.rs\<close>), from the decoded request to the response, the emitted security events and
  the database. A route authorises the request on the database as it finds it and then runs its
  transaction; other requests may run in between, so each step has a database of its own.
  Rendering of a GitHub report and the shape checks of a strict submission are
  arguments; delivery of a prepared report follows the response and is not part of a route.
\<close>

section \<open>Responses and events\<close>

datatype message = Text string | StorageMessage string storage_error | ReportTooLong nat | ReportView string | UnsupportedVersion int

type_synonym http_error = "nat \<times> message"

datatype operation =
    Authenticate | RequireAdmin | RequireWorker | Heartbeat | SubmitFindings | SubmitLlmFinding | SubmitVerdict
  | CompleteJob | SearchFindings | ReadFinding | ModelRequest | McpSubmitFinding | McpSubmitVerdict | McpSubmitPatch

datatype capability_denial =
    MissingCapability | MalformedCapability | InactiveLease | JobMismatch | RepositoryMismatch | UnsupportedJobKind
  | MissingAssignedTarget | StrictEndpointRequired | LeaseInvalidated | RoleMismatch | Unauthenticated | ModelEndpoint
  | ProviderFetch | RemoteMcp | McpServers | UpstreamRedirect | NoSubmissionJob | NoVerifyAuthority | VerdictLocked
  | ConfirmationRequired | PatchAlreadySubmitted | JobQuarantined

datatype requested_target = TNone | TJob int | TRepository int | TFinding int

record event_context =
  ec_worker_id :: "int option"
  ec_job_id :: "int option"
  ec_repo_id :: "int option"
  ec_campaign_id :: "int option"

text \<open>The two events these routes emit; a budget event names the exhausted resource.\<close>

datatype security_event =
    CapabilityDenied event_context operation requested_target capability_denial
  | BudgetExhausted event_context string "nat option" "nat option"

record authed_worker =
  aw_id :: int
  aw_name :: string

record route_env =
  env_to_str :: "nat list \<Rightarrow> string option"
  env_hash :: "string \<Rightarrow> blob"
  env_validate_view :: "repo_row \<Rightarrow> finding \<Rightarrow> string option \<Rightarrow> string option \<Rightarrow> (unit, string) result"
  env_require_approval_default :: bool
  env_identity :: nat

section \<open>Capabilities\<close>

definition JOB_CAPABILITY_TOKEN_CHARS :: nat where "JOB_CAPABILITY_TOKEN_CHARS = 43"

definition parse_capability :: "route_env \<Rightarrow> nat list option \<Rightarrow> blob option" where
  "parse_capability env header =
    Option.bind (Option.bind header (env_to_str env)) (\<lambda>token.
      if length token = JOB_CAPABILITY_TOKEN_CHARS then Some (env_hash env token) else None)"

definition capability_admits :: "job_row \<Rightarrow> blob \<Rightarrow> int \<Rightarrow> blob \<Rightarrow> int \<Rightarrow> bool" where
  "capability_admits row row_hash caller_worker hash now \<longleftrightarrow>
    jr_worker_id row = Some caller_worker \<and> row_hash = hash \<and> jr_state row = Leased \<and>
    (case jr_lease_expires_at row of None \<Rightarrow> False | Some expiry \<Rightarrow> now \<le> expiry)"

definition legacy_kind :: "job_kind \<Rightarrow> bool" where
  "legacy_kind kind \<longleftrightarrow> kind = Scan \<or> kind = Verify"

record authorized_job =
  az_row :: job_row
  az_capability_hash :: blob
  az_operation :: operation
  az_requested :: requested_target

definition denied :: "authed_worker \<Rightarrow> job_row option \<Rightarrow> operation \<Rightarrow> requested_target \<Rightarrow> capability_denial \<Rightarrow> security_event" where
  "denied worker row op requested reason =
    CapabilityDenied
      \<lparr>ec_worker_id = Some (aw_id worker), ec_job_id = map_option jr_id row, ec_repo_id = map_option jr_repo_id row,
       ec_campaign_id = Option.bind row jr_campaign_id\<rparr> op requested reason"

definition forbidden :: http_error where
  "forbidden = (403, Text ''invalid or expired job capability'')"

definition deny :: "authed_worker \<Rightarrow> authorized_job \<Rightarrow> capability_denial \<Rightarrow> security_event" where
  "deny worker az reason = denied worker (Some (az_row az)) (az_operation az) (az_requested az) reason"

definition lease_invalidated :: "authed_worker \<Rightarrow> authorized_job \<Rightarrow> http_error \<times> security_event list" where
  "lease_invalidated worker az = (forbidden, [deny worker az LeaseInvalidated])"

definition authorized_lease :: "authed_worker \<Rightarrow> int \<Rightarrow> authorized_job \<Rightarrow> active_lease" where
  "authorized_lease worker now az =
    \<lparr>al_identity = \<lparr>li_job_id = jr_id (az_row az), li_worker_id = aw_id worker, li_capability_hash = az_capability_hash az\<rparr>,
     al_now = now\<rparr>"

definition authorize ::
  "route_env \<Rightarrow> db \<Rightarrow> authed_worker \<Rightarrow> nat list option \<Rightarrow> int \<Rightarrow> operation \<Rightarrow> requested_target
   \<Rightarrow> (authorized_job, http_error \<times> security_event list) result" where
  "authorize env d worker header now op requested =
    (case parse_capability env header of
       None \<Rightarrow> Err (forbidden, [denied worker None op requested
                 (if header \<noteq> None then MalformedCapability else MissingCapability)])
     | Some hash \<Rightarrow>
        (case get_active_by_capability_hash d (aw_id worker) hash now of
           None \<Rightarrow> Err (forbidden, [denied worker None op requested InactiveLease])
         | Some row \<Rightarrow>
             if \<not> capability_admits row hash (aw_id worker) hash now
             then Err (forbidden, [denied worker (Some row) op requested InactiveLease])
             else Ok \<lparr>az_row = row, az_capability_hash = hash, az_operation = op, az_requested = requested\<rparr>))"

definition authorize_for_job ::
  "route_env \<Rightarrow> db \<Rightarrow> authed_worker \<Rightarrow> nat list option \<Rightarrow> int \<Rightarrow> int \<Rightarrow> operation
   \<Rightarrow> (authorized_job, http_error \<times> security_event list) result" where
  "authorize_for_job env d worker header job_id now op =
    and_then (authorize env d worker header now op (TJob job_id)) (\<lambda>az.
      if jr_id (az_row az) \<noteq> job_id \<or> \<not> legacy_kind (jr_kind (az_row az))
      then Err (forbidden, [denied worker (Some (az_row az)) op (TJob job_id)
             (if jr_id (az_row az) \<noteq> job_id then JobMismatch else UnsupportedJobKind)])
      else Ok az)"

section \<open>Routes\<close>

definition PROTOCOL_VERSION :: int where "PROTOCOL_VERSION = 3"

definition LLM_CODE_REVIEW_SCANNER_ID :: string where "LLM_CODE_REVIEW_SCANNER_ID = ''llm-code-review''"

definition DEFAULT_VALIDATING_BUDGET_SECS :: int where "DEFAULT_VALIDATING_BUDGET_SECS = 7 * 24 * 60 * 60"

definition check_version :: "int \<Rightarrow> (unit, http_error \<times> security_event list) result" where
  "check_version version =
    (if version = PROTOCOL_VERSION then Ok () else Err ((400, UnsupportedVersion version), []))"

datatype route = RFindings | RLlmFinding | RVerdict

fun route_admits_kind :: "route \<Rightarrow> job_kind \<Rightarrow> bool" where
  "route_admits_kind RFindings kind = (kind = Scan)"
| "route_admits_kind RLlmFinding kind = (kind = Scan)"
| "route_admits_kind RVerdict kind = (kind = Verify)"

fun storage_write_error :: "string \<Rightarrow> storage_error \<Rightarrow> http_error" where
  "storage_write_error ctxt (Validation f) = (400, StorageMessage ctxt (Validation f))"
| "storage_write_error ctxt (ConflictErr c) = (409, StorageMessage ctxt (ConflictErr c))"
| "storage_write_error ctxt (OwnershipErr w) = (403, StorageMessage ctxt (OwnershipErr w))"
| "storage_write_error ctxt ScopeDenied = (403, StorageMessage ctxt ScopeDenied)"
| "storage_write_error ctxt ReportReceiptErr = (409, StorageMessage ctxt ReportReceiptErr)"
| "storage_write_error ctxt (NotFoundErr e i) = (404, StorageMessage ctxt (NotFoundErr e i))"
| "storage_write_error ctxt (Sqlite e) = (500, StorageMessage ctxt (Sqlite e))"

definition REPORT_CONTENT_MAX_CHARS :: nat where "REPORT_CONTENT_MAX_CHARS = 60000"

text \<open>\<open>chars().count()\<close> of a string held as its UTF-8 bytes.\<close>

definition chars_count :: "string \<Rightarrow> nat" where
  "chars_count s = length (filter (\<lambda>c. (of_char c :: nat) div 64 \<noteq> 2) s)"

definition validate_report_content :: "string \<Rightarrow> string option \<Rightarrow> string option \<Rightarrow> (unit, message) result" where
  "validate_report_content description poc patch =
    (let chars = sum_list (map chars_count (List.map_filter id [Some description, poc, patch])) in
     if chars > REPORT_CONTENT_MAX_CHARS then Err (ReportTooLong chars) else Ok ())"

definition validate_report_with_patch ::
  "route_env \<Rightarrow> repo_row \<Rightarrow> finding \<Rightarrow> string option \<Rightarrow> string option \<Rightarrow> (unit, http_error) result" where
  "validate_report_with_patch env repo f revision patch =
    (case rp_reporting repo of
       GithubIssue _ _ _ \<Rightarrow>
         and_then (map_err (\<lambda>m. (400, m)) (validate_report_content (f_description f) (f_poc_unified f)
             (case patch of Some p \<Rightarrow> Some p | None \<Rightarrow> f_patch_unified f))) (\<lambda>_.
           map_err (\<lambda>m. (400, ReportView m)) (env_validate_view env repo f revision patch))
     | _ \<Rightarrow> Ok ())"

definition report_budget_event :: "int \<Rightarrow> int \<Rightarrow> int \<Rightarrow> security_event" where
  "report_budget_event repo_id job_id worker_id =
    BudgetExhausted \<lparr>ec_worker_id = Some worker_id, ec_job_id = Some job_id, ec_repo_id = Some repo_id, ec_campaign_id = None\<rparr>
      ''report_output'' None None"

record 'a routed =
  rt_response :: "('a, http_error) result"
  rt_events :: "security_event list"
  rt_db :: db

definition refused :: "http_error \<times> security_event list \<Rightarrow> db \<Rightarrow> 'a routed" where
  "refused e d = \<lparr>rt_response = Err (fst e), rt_events = snd e, rt_db = d\<rparr>"

text \<open>
  \<open>with_active_lease(..).map_err(..)?.ok_or_else(..)??\<close>: a storage error rolls back, a dead lease is the
  refusal \<open>missing\<close>, and the body may commit a refusal of its own.
\<close>

definition leased_tx ::
  "db \<Rightarrow> active_lease \<Rightarrow> (assignment_scope \<Rightarrow> db \<Rightarrow> (('a, http_error \<times> security_event list) result \<times> db, storage_error) result)
   \<Rightarrow> (storage_error \<Rightarrow> http_error) \<Rightarrow> http_error \<times> security_event list \<Rightarrow> 'a routed" where
  "leased_tx d lease body map_error missing =
    (case with_active_lease d lease body of
       Err e \<Rightarrow> refused (map_error e, []) d
     | Ok (None, d') \<Rightarrow> refused missing d'
     | Ok (Some (Err e), d') \<Rightarrow> refused e d'
     | Ok (Some (Ok x), d') \<Rightarrow> \<lparr>rt_response = Ok x, rt_events = [], rt_db = d'\<rparr>)"

text \<open>\<open>return Ok(Err(error))\<close> inside a transaction: the refusal commits, without writes.\<close>

definition after_check ::
  "('u, 'e) result \<Rightarrow> (db \<Rightarrow> ('a \<times> db, storage_error) result) \<Rightarrow> db \<Rightarrow> (('a, 'e) result \<times> db, storage_error) result" where
  "after_check check run d =
    (case check of Err e \<Rightarrow> Ok (Err e, d) | Ok _ \<Rightarrow> map_ok (\<lambda>(x, d'). (Ok x, d')) (run d))"

definition accept :: "db \<Rightarrow> ('b, http_error \<times> security_event list) result \<Rightarrow> ('b \<Rightarrow> 'a routed) \<Rightarrow> 'a routed" where
  "accept d r k = (case r of Err e \<Rightarrow> refused e d | Ok x \<Rightarrow> k x)"

definition heartbeat_route ::
  "route_env \<Rightarrow> db \<Rightarrow> db \<Rightarrow> authed_worker \<Rightarrow> nat list option \<Rightarrow> int \<Rightarrow> int \<Rightarrow> int option \<Rightarrow> int routed" where
  "heartbeat_route env d0 d1 worker header job_id now version =
    accept d1 (case version of None \<Rightarrow> Ok () | Some v \<Rightarrow> check_version v) (\<lambda>_.
    accept d1 (authorize_for_job env d0 worker header job_id now Heartbeat) (\<lambda>az.
      let lost = ((403, Text ''lease not held by this worker''), [deny worker az LeaseInvalidated]) in
      leased_tx d1 (authorized_lease worker now az)
        (\<lambda>sc d. map_ok (\<lambda>(until, d'). (ok_or until lost, d')) (extend_lease sc DEFAULT_LEASE_SECONDS d))
        (\<lambda>e. (500, StorageMessage ''heartbeat'' e)) lost))"

text \<open>Each finding comes with the report identity that its insertion would draw.\<close>

type_synonym batch = "(finding \<times> (blob, storage_error) result) list"

fun validate_batch ::
  "route_env \<Rightarrow> authed_worker \<Rightarrow> repo_row \<Rightarrow> job_row \<Rightarrow> batch \<Rightarrow> (unit, http_error \<times> security_event list) result" where
  "validate_batch env worker repo job [] = Ok ()"
| "validate_batch env worker repo job ((f, _) # fs) =
    (case validate_report_with_patch env repo f (jr_head_sha job) None of
       Err e \<Rightarrow> Err (e, [report_budget_event (rp_id repo) (jr_id job) (aw_id worker)])
     | Ok _ \<Rightarrow> validate_batch env worker repo job fs)"

fun submit_all :: "assignment_scope \<Rightarrow> batch \<Rightarrow> db \<Rightarrow> (db, storage_error) result" where
  "submit_all sc [] d = Ok d"
| "submit_all sc ((f, gen) # fs) d = and_then (findings_submit sc f gen d) (\<lambda>(_, d'). submit_all sc fs d')"

definition submit_batch ::
  "route_env \<Rightarrow> authed_worker \<Rightarrow> batch \<Rightarrow> assignment_scope \<Rightarrow> db
   \<Rightarrow> ((unit, http_error \<times> security_event list) result \<times> db, storage_error) result" where
  "submit_batch env worker fs sc d =
    and_then (ok_or (row_by rp_id (rs_repo_id (as_repo sc)) (db_repos d)) ScopeDenied) (\<lambda>repo.
      after_check (validate_batch env worker repo (as_job sc) fs) (\<lambda>d. map_ok (Pair ()) (submit_all sc fs d)) d)"

definition submit_findings_route ::
  "route_env \<Rightarrow> db \<Rightarrow> db \<Rightarrow> authed_worker \<Rightarrow> nat list option \<Rightarrow> int \<Rightarrow> int \<Rightarrow> int \<Rightarrow> batch \<Rightarrow> unit routed" where
  "submit_findings_route env d0 d1 worker header job_id now version fs =
    accept d1 (check_version version) (\<lambda>_.
    accept d1 (authorize_for_job env d0 worker header job_id now SubmitFindings) (\<lambda>az.
      if \<not> route_admits_kind RFindings (jr_kind (az_row az))
      then refused ((400, Text ''verify-kind jobs cannot post findings''), [deny worker az UnsupportedJobKind]) d1
      else if list_ex (\<lambda>(f, _). f_scanner_id f = LLM_CODE_REVIEW_SCANNER_ID) fs
      then refused ((400, Text ''LLM findings must use the strict /llm-findings endpoint''),
             [deny worker az StrictEndpointRequired]) d1
      else leased_tx d1 (authorized_lease worker now az) (submit_batch env worker fs)
        (storage_write_error ''submit findings'') (lease_invalidated worker az)))"

definition submit_llm_finding_route ::
  "route_env \<Rightarrow> db \<Rightarrow> db \<Rightarrow> authed_worker \<Rightarrow> nat list option \<Rightarrow> int \<Rightarrow> int \<Rightarrow> int
   \<Rightarrow> (unit, string) result \<Rightarrow> finding \<times> (blob, storage_error) result \<Rightarrow> unit routed" where
  "submit_llm_finding_route env d0 d1 worker header job_id now version shape f =
    accept d1 (check_version version) (\<lambda>_.
    accept d1 (authorize_for_job env d0 worker header job_id now SubmitLlmFinding) (\<lambda>az.
      if \<not> route_admits_kind RLlmFinding (jr_kind (az_row az))
      then refused ((400, Text ''verify-kind jobs cannot post findings''), [deny worker az UnsupportedJobKind]) d1
      else accept d1 (map_err (\<lambda>m. ((400, Text m), [])) shape) (\<lambda>_.
        leased_tx d1 (authorized_lease worker now az) (submit_batch env worker [f])
          (storage_write_error ''submit LLM finding'') (lease_invalidated worker az))))"

definition verdict_terminal :: "verdict \<Rightarrow> bool" where
  "verdict_terminal vd = (case vd of VInconclusive _ terminal \<Rightarrow> terminal | _ \<Rightarrow> False)"

definition verdict_patch_of :: "verdict \<Rightarrow> verdict_patch option" where
  "verdict_patch_of vd = (case vd of VConfirmed _ patch \<Rightarrow> patch | _ \<Rightarrow> None)"

definition check_verdict_patch ::
  "route_env \<Rightarrow> authed_worker \<Rightarrow> int \<Rightarrow> verdict \<Rightarrow> repo_row \<Rightarrow> assignment_scope \<Rightarrow> db
   \<Rightarrow> (unit, http_error \<times> security_event list) result" where
  "check_verdict_patch env worker target vd repo sc d =
    (case verdict_patch_of vd of
       None \<Rightarrow> Ok ()
     | Some p \<Rightarrow>
        (case findings_get d (as_repo sc) target of
           None \<Rightarrow> Err ((404, Text ''target finding missing''), [])
         | Some f \<Rightarrow>
             let revision = Option.bind (jobs_get_scoped_raw d (rs_repo_id (as_repo sc)) (fr_job_id f)) jr_head_sha in
             map_err (\<lambda>e. (e, [report_budget_event (rp_id repo) (jr_id (as_job sc)) (aw_id worker)]))
               (validate_report_with_patch env repo (fr_finding f) revision (Some (vp_patch_unified p)))))"

definition vote_body ::
  "route_env \<Rightarrow> authed_worker \<Rightarrow> int \<Rightarrow> verdict \<Rightarrow> assignment_scope \<Rightarrow> db
   \<Rightarrow> ((finding_state option \<times> preparation, http_error \<times> security_event list) result \<times> db, storage_error) result" where
  "vote_body env worker target vd sc d =
    and_then (ok_or (row_by rp_id (rs_repo_id (as_repo sc)) (db_repos d)) ScopeDenied) (\<lambda>repo.
      after_check (check_verdict_patch env worker target vd repo sc d)
        (submit_verdict (env_identity env) vd (aw_name worker) (verdict_terminal vd) (env_require_approval_default env) sc) d)"

definition submit_verdict_route ::
  "route_env \<Rightarrow> db \<Rightarrow> db \<Rightarrow> authed_worker \<Rightarrow> nat list option \<Rightarrow> int \<Rightarrow> int \<Rightarrow> int \<Rightarrow> verdict
   \<Rightarrow> (finding_state option \<times> preparation) routed" where
  "submit_verdict_route env d0 d1 worker header job_id now version vd =
    accept d1 (check_version version) (\<lambda>_.
    accept d1 (authorize_for_job env d0 worker header job_id now SubmitVerdict) (\<lambda>az.
      if \<not> route_admits_kind RVerdict (jr_kind (az_row az))
      then refused ((400, Text ''scan-kind jobs cannot post verdicts''), [deny worker az UnsupportedJobKind]) d1
      else (case jr_target_finding_id (az_row az) of
          None \<Rightarrow> refused ((400, Text ''verify job missing target finding''), [deny worker az MissingAssignedTarget]) d1
        | Some target \<Rightarrow>
            leased_tx d1 (authorized_lease worker now az) (vote_body env worker target vd)
              (storage_write_error ''submit verdict'') (lease_invalidated worker az))))"

text \<open>
  A successful verify completion looks for the verdict in a transaction of its own,
  on the database \<open>d1\<close>, before it completes on \<open>d2\<close>.
\<close>

definition completion_precheck ::
  "db \<Rightarrow> authed_worker \<Rightarrow> int \<Rightarrow> authorized_job \<Rightarrow> string option \<Rightarrow> (unit, http_error \<times> security_event list) result" where
  "completion_precheck d1 worker now az head_sha =
    (case jr_kind (az_row az) of
       Scan \<Rightarrow>
         (case option_filter (\<lambda>s. \<not> is_blank s) head_sha of
            None \<Rightarrow> Err ((400, Text ''successful scan completion requires non-empty head_sha''), [])
          | Some _ \<Rightarrow> Ok ())
     | Verify \<Rightarrow>
         (case with_active_lease d1 (authorized_lease worker now az) (\<lambda>sc d. Ok (has_verdict sc d, d)) of
            Err e \<Rightarrow> Err ((500, StorageMessage ''check verdict'' e), [])
          | Ok (None, _) \<Rightarrow> Err (lease_invalidated worker az)
          | Ok (Some voted, _) \<Rightarrow>
              if \<not> voted then Err ((409, Text ''successful verify completion requires a submitted verdict''), []) else Ok ())
     | _ \<Rightarrow> Err ((400, Text ''unsupported job kind''), []))"

definition complete_route ::
  "route_env \<Rightarrow> db \<Rightarrow> db \<Rightarrow> db \<Rightarrow> authed_worker \<Rightarrow> nat list option \<Rightarrow> int \<Rightarrow> int \<Rightarrow> int \<Rightarrow> bool
   \<Rightarrow> string option \<Rightarrow> string option \<Rightarrow> preparation routed" where
  "complete_route env d0 d1 d2 worker header job_id now version succeeded head_sha err =
    accept d2 (check_version version) (\<lambda>_.
      let st = (if succeeded then Succeeded else Failed) in
    accept d2 (authorize_for_job env d0 worker header job_id now CompleteJob) (\<lambda>az.
      if jr_kind (az_row az) \<notin> set LEGACY_RUNTIME_KINDS
      then refused ((400, Text ''unsupported job kind''), []) d2
      else accept d2 (if st = Succeeded then completion_precheck d1 worker now az head_sha else Ok ()) (\<lambda>_.
        leased_tx d2 (authorized_lease worker now az)
          (\<lambda>sc d. map_ok (\<lambda>(p, d'). (Ok p, d'))
             (complete_assignment (env_identity env) st head_sha err (env_require_approval_default env)
                (now + DEFAULT_VALIDATING_BUDGET_SECS) sc d))
          (\<lambda>e. (500, StorageMessage ''complete'' e)) ((409, Text ''lease reaped before complete''), []))))"

section \<open>Authorisation\<close>

definition holds_lease :: "route_env \<Rightarrow> db \<Rightarrow> authed_worker \<Rightarrow> nat list option \<Rightarrow> int \<Rightarrow> int \<Rightarrow> job_row \<Rightarrow> bool" where
  "holds_lease env d worker header job_id now j \<longleftrightarrow>
    j \<in> set (db_jobs d) \<and> jr_id j = job_id \<and> jr_state j = Leased \<and> jr_worker_id j = Some (aw_id worker) \<and>
    jr_capability_hash j \<noteq> None \<and> jr_capability_hash j = parse_capability env header \<and>
    (\<exists>expiry \<ge> now. jr_lease_expires_at j = Some expiry) \<and> jr_campaign_id j = None"

lemma get_active_Some:
  "get_active_by_capability_hash d w hash now = Some j \<Longrightarrow>
    j \<in> set (db_jobs d) \<and> jr_worker_id j = Some w \<and> jr_capability_hash j = Some hash \<and> jr_state j = Leased \<and>
    (\<exists>expiry \<ge> now. jr_lease_expires_at j = Some expiry) \<and> jr_campaign_id j = None \<and> legacy_kinds_sql j"
  by (auto simp: get_active_by_capability_hash_def find_Some_iff split: option.splits)

lemma authorize_for_job_Ok:
  assumes "authorize_for_job env d worker header job_id now op = Ok az"
  shows "parse_capability env header = Some (az_capability_hash az) \<and> jr_id (az_row az) = job_id \<and> legacy_kind (jr_kind (az_row az)) \<and>
    get_active_by_capability_hash d (aw_id worker) (az_capability_hash az) now = Some (az_row az)"
  using assms by (auto simp: authorize_for_job_def authorize_def and_then_Ok_iff split: option.splits if_splits)

lemma capability_admits_active:
  "get_active_by_capability_hash d w hash now = Some j \<Longrightarrow> capability_admits j hash w hash now"
  using get_active_Some[of d w hash now j] by (auto simp: capability_admits_def)

definition leased_scope :: "active_lease \<Rightarrow> job_row \<Rightarrow> assignment_scope" where
  "leased_scope lease job = \<lparr>as_repo = \<lparr>rs_repo_id = jr_repo_id job, rs_operator = False\<rparr>, as_job = job, as_lease = lease\<rparr>"

definition lease_job :: "db \<Rightarrow> active_lease \<Rightarrow> job_row \<Rightarrow> bool" where
  "lease_job d lease job \<longleftrightarrow>
    get_active_by_capability_hash d (li_worker_id (al_identity lease)) (li_capability_hash (al_identity lease)) (al_now lease) = Some job \<and>
    jr_id job = li_job_id (al_identity lease)"

lemma with_active_lease_live:
  "lease_job d lease job \<Longrightarrow> with_active_lease d lease body = map_ok (\<lambda>(x, d'). (Some x, d')) (body (leased_scope lease job) d)"
  by (simp add: with_active_lease_def lease_job_def leased_scope_def)

lemma with_active_lease_dead: "\<nexists>job. lease_job d lease job \<Longrightarrow> with_active_lease d lease body = Ok (None, d)"
  by (auto simp: with_active_lease_def lease_job_def split: option.split)

lemma authorized_lease_holds:
  assumes "authorize_for_job env d0 worker header job_id now op = Ok az" "lease_job d (authorized_lease worker now az) j"
  shows "holds_lease env d worker header job_id now j"
  using authorize_for_job_Ok[OF assms(1)] assms(2) get_active_Some[of d "aw_id worker" "az_capability_hash az" now j]
  by (auto simp: holds_lease_def lease_job_def authorized_lease_def)

text \<open>What a route does to the database, if its body leaves a refused request without effect.\<close>

definition tx_effect :: "db \<Rightarrow> 'a routed \<Rightarrow> (job_row \<Rightarrow> 'a \<Rightarrow> db \<Rightarrow> bool) \<Rightarrow> bool" where
  "tx_effect d r P \<longleftrightarrow>
    (case rt_response r of Err _ \<Rightarrow> rt_db r = d | Ok x \<Rightarrow> rt_events r = [] \<and> (\<exists>job. P job x (rt_db r)))"

lemma tx_effect_refused [simp]: "tx_effect d (refused e d) P"
  by (simp add: tx_effect_def refused_def)

lemma tx_effect_accept: "(\<And>x. r = Ok x \<Longrightarrow> tx_effect d (k x) P) \<Longrightarrow> tx_effect d (accept d r k) P"
  by (cases r) (simp_all add: accept_def)

lemma tx_effect_leased_tx:
  assumes "\<And>sc e d'. body sc d = Ok (Err e, d') \<Longrightarrow> d' = d"
    and "\<And>job x d'. lease_job d lease job \<Longrightarrow> body (leased_scope lease job) d = Ok (Ok x, d') \<Longrightarrow> P job x d'"
  shows "tx_effect d (leased_tx d lease body me missing) P"
proof (cases "\<exists>job. lease_job d lease job")
  case True
  then obtain job where job: "lease_job d lease job" by blast
  show ?thesis
  proof (cases "body (leased_scope lease job) d")
    case (Ok p)
    then show ?thesis using assms(1)[of "leased_scope lease job"] assms(2)[OF job] with_active_lease_live[OF job, of body]
      by (cases p; cases "fst p") (auto simp: leased_tx_def tx_effect_def refused_def)
  qed (simp add: leased_tx_def with_active_lease_live[OF job])
next
  case False
  then show ?thesis by (simp add: leased_tx_def with_active_lease_dead)
qed

section \<open>Effects\<close>

lemma exec_update_jobs_none: "exec_update_jobs P f d = Ok (0, d') \<Longrightarrow> d' = d"
  by (auto simp: exec_update_jobs_def Let_def sql_count_zero_iff sql_update_none split: if_splits)

lemma after_check_refused: "after_check check run d = Ok (Err e, d') \<Longrightarrow> d' = d"
  by (cases check) (auto simp: after_check_def map_ok_Ok_iff)

lemma after_check_done: "after_check check run d = Ok (Ok x, d') \<Longrightarrow> run d = Ok (x, d')"
  by (cases check) (auto simp: after_check_def map_ok_Ok_iff)

lemma extend_lease_none: "extend_lease sc secs d = Ok (None, d') \<Longrightarrow> d' = d"
  by (auto simp: extend_lease_def heartbeat_def Let_def and_then_Ok_iff split: if_splits dest: exec_update_jobs_none)

lemma findings_submit_jobs: "findings_submit sc f gen d = Ok (r, d') \<Longrightarrow> db_jobs d' = db_jobs d"
  by (auto simp: findings_submit_def insert_with_identity_def and_then_Ok_iff Let_def split: if_splits)

lemma lease_job_same_jobs: "db_jobs d' = db_jobs d \<Longrightarrow> lease_job d' lease job = lease_job d lease job"
  by (simp add: lease_job_def get_active_by_capability_hash_def)

lemma submit_all_steps:
  assumes "lease_job d lease job" "submit_all (leased_scope lease job) fs d = Ok d'"
  shows "(server_step idn)\<^sup>*\<^sup>* d d' \<and> (fs \<noteq> [] \<longrightarrow> jr_kind job = Scan)"
  using assms
proof (induction fs arbitrary: d)
  case (Cons p fs)
  obtain f gen where p: "p = (f, gen)" by (cases p)
  then obtain r d1 where d1: "findings_submit (leased_scope lease job) f gen d = Ok (r, d1)"
    "submit_all (leased_scope lease job) fs d1 = Ok d'"
    using Cons.prems(2) by (auto simp: and_then_Ok_iff)
  have "with_active_lease d lease (\<lambda>sc. findings_submit sc f gen) = Ok (Some r, d1)"
    using d1(1) by (simp add: with_active_lease_live[OF Cons.prems(1)])
  then have "server_step idn d d1" by (rule server_step.submit)
  moreover have "(server_step idn)\<^sup>*\<^sup>* d1 d'"
    using Cons.IH[OF _ d1(2)] lease_job_same_jobs[OF findings_submit_jobs[OF d1(1)]] Cons.prems(1) by blast
  moreover have "jr_kind job = Scan" using d1(1) by (auto simp: findings_submit_def leased_scope_def split: if_splits)
  ultimately show ?case by (simp add: converse_rtranclp_into_rtranclp)
qed simp

lemma submit_batch_refused: "submit_batch env worker fs sc d = Ok (Err e, d') \<Longrightarrow> d' = d"
  by (auto simp: submit_batch_def and_then_Ok_iff dest: after_check_refused)

lemma submit_batch_steps:
  assumes "lease_job d lease job" "submit_batch env worker fs (leased_scope lease job) d = Ok (Ok x, d')"
  shows "(server_step idn)\<^sup>*\<^sup>* d d' \<and> (d' \<noteq> d \<longrightarrow> jr_kind job = Scan)"
proof -
  have "submit_all (leased_scope lease job) fs d = Ok d'"
    using assms(2) by (auto simp: submit_batch_def and_then_Ok_iff map_ok_Ok_iff dest!: after_check_done)
  then show ?thesis using submit_all_steps[OF assms(1)] by (cases fs) auto
qed

lemma vote_body_refused: "vote_body env worker target vd sc d = Ok (Err e, d') \<Longrightarrow> d' = d"
  by (auto simp: vote_body_def and_then_Ok_iff dest: after_check_refused)

lemma vote_body_steps:
  assumes "lease_job d lease job" "vote_body env worker target vd (leased_scope lease job) d = Ok (Ok v, d')"
  shows "server_step (env_identity env) d d' \<and> jr_kind job = Verify"
proof -
  let ?vote = "submit_verdict (env_identity env) vd (aw_name worker) (verdict_terminal vd) (env_require_approval_default env)"
  have vote: "?vote (leased_scope lease job) d = Ok (v, d')"
    using assms(2) by (auto simp: vote_body_def and_then_Ok_iff dest!: after_check_done)
  then have "with_active_lease d lease ?vote = Ok (Some v, d')" by (simp add: with_active_lease_live[OF assms(1)])
  moreover have "jr_kind job = Verify" using vote by (auto simp: submit_verdict_def leased_scope_def split: if_splits)
  ultimately show ?thesis by (blast intro: server_step.vote)
qed

datatype worker_call =
    HeartbeatCall "int option"
  | FindingsCall int batch
  | LlmFindingCall int "(unit, string) result" "finding \<times> (blob, storage_error) result"
  | VerdictCall int verdict
  | CompleteCall int bool "string option" "string option"

definition forget :: "'a routed \<Rightarrow> unit routed" where
  "forget r = \<lparr>rt_response = map_ok (\<lambda>_. ()) (rt_response r), rt_events = rt_events r, rt_db = rt_db r\<rparr>"

text \<open>A request is authorised on \<open>d0\<close>; \<open>d1\<close> is what a completion inspects; its transaction runs on \<open>d\<close>.\<close>

fun serve ::
  "route_env \<Rightarrow> db \<Rightarrow> db \<Rightarrow> db \<Rightarrow> authed_worker \<Rightarrow> nat list option \<Rightarrow> int \<Rightarrow> int \<Rightarrow> worker_call \<Rightarrow> unit routed" where
  "serve env d0 d1 d worker header job_id now (HeartbeatCall version) =
    forget (heartbeat_route env d0 d worker header job_id now version)"
| "serve env d0 d1 d worker header job_id now (FindingsCall version fs) =
    submit_findings_route env d0 d worker header job_id now version fs"
| "serve env d0 d1 d worker header job_id now (LlmFindingCall version shape f) =
    submit_llm_finding_route env d0 d worker header job_id now version shape f"
| "serve env d0 d1 d worker header job_id now (VerdictCall version vd) =
    forget (submit_verdict_route env d0 d worker header job_id now version vd)"
| "serve env d0 d1 d worker header job_id now (CompleteCall version succeeded head_sha err) =
    forget (complete_route env d0 d1 d worker header job_id now version succeeded head_sha err)"

fun call_kinds :: "worker_call \<Rightarrow> job_kind set" where
  "call_kinds (FindingsCall _ _) = {Scan}"
| "call_kinds (LlmFindingCall _ _ _) = {Scan}"
| "call_kinds (VerdictCall _ _) = {Verify}"
| "call_kinds _ = UNIV"

definition served ::
  "route_env \<Rightarrow> db \<Rightarrow> authed_worker \<Rightarrow> nat list option \<Rightarrow> int \<Rightarrow> int \<Rightarrow> job_kind set \<Rightarrow> job_row \<Rightarrow> 'a \<Rightarrow> db \<Rightarrow> bool" where
  "served env d worker header job_id now kinds job x d' \<longleftrightarrow>
    holds_lease env d worker header job_id now job \<and> (d' \<noteq> d \<longrightarrow> jr_kind job \<in> kinds) \<and>
    (server_step (env_identity env))\<^sup>*\<^sup>* d d'"

lemma tx_effect_forget: "tx_effect d r (served env d worker header job_id now kinds) \<Longrightarrow>
    tx_effect d (forget r) (served env d worker header job_id now kinds)"
  by (cases "rt_response r") (auto simp: tx_effect_def forget_def served_def)

lemma ok_or_eq [simp]: "Err e = ok_or a x \<longleftrightarrow> a = None \<and> e = x" "Ok y = ok_or a x \<longleftrightarrow> a = Some y"
  by (cases a; auto)+

lemma heartbeat_served:
  "tx_effect d (heartbeat_route env d0 d worker header job_id now version) (served env d worker header job_id now UNIV)"
proof -
  have "served env d worker header job_id now UNIV job x d'"
    if az: "authorize_for_job env d0 worker header job_id now Heartbeat = Ok az"
      and job: "lease_job d (authorized_lease worker now az) job"
      and body: "extend_lease (leased_scope (authorized_lease worker now az) job) DEFAULT_LEASE_SECONDS d = Ok (Some x, d')" for az job x d'
  proof -
    have "with_active_lease d (authorized_lease worker now az) (\<lambda>sc. extend_lease sc DEFAULT_LEASE_SECONDS) = Ok (Some (Some x), d')"
      using body by (simp add: with_active_lease_live[OF job])
    then show ?thesis using authorized_lease_holds[OF az job] by (auto simp: served_def intro: server_step.heartbeat)
  qed
  then show ?thesis unfolding heartbeat_route_def Let_def
    by (intro tx_effect_accept tx_effect_leased_tx)
      (auto simp: map_ok_Ok_iff dest: extend_lease_none)
qed

lemma submit_batch_served:
  assumes "authorize_for_job env d0 worker header job_id now op = Ok az"
  shows "tx_effect d (leased_tx d (authorized_lease worker now az) (submit_batch env worker fs) me missing)
    (served env d worker header job_id now {Scan})"
  using submit_batch_steps authorized_lease_holds[OF assms]
  by (intro tx_effect_leased_tx) (auto simp: served_def dest: submit_batch_refused)

lemma submit_findings_served:
  "tx_effect d (submit_findings_route env d0 d worker header job_id now version fs) (served env d worker header job_id now {Scan})"
  unfolding submit_findings_route_def by (intro tx_effect_accept) (simp add: submit_batch_served)

lemma submit_llm_finding_served:
  "tx_effect d (submit_llm_finding_route env d0 d worker header job_id now version shape f) (served env d worker header job_id now {Scan})"
  unfolding submit_llm_finding_route_def
  by (intro tx_effect_accept) (auto intro: tx_effect_accept submit_batch_served)

lemma submit_verdict_served:
  "tx_effect d (submit_verdict_route env d0 d worker header job_id now version vd) (served env d worker header job_id now {Verify})"
proof -
  have "tx_effect d (leased_tx d (authorized_lease worker now az) (vote_body env worker target vd) me missing)
      (served env d worker header job_id now {Verify})"
    if "authorize_for_job env d0 worker header job_id now SubmitVerdict = Ok az" for az target me missing
    using vote_body_steps authorized_lease_holds[OF that]
    by (intro tx_effect_leased_tx) (auto simp: served_def dest: vote_body_refused)
  then show ?thesis unfolding submit_verdict_route_def by (intro tx_effect_accept) (simp split: option.split)
qed

lemma complete_served:
  "tx_effect d (complete_route env d0 d1 d worker header job_id now version succeeded head_sha err) (served env d worker header job_id now UNIV)"
proof -
  have "served env d worker header job_id now UNIV job p d'"
    if az: "authorize_for_job env d0 worker header job_id now CompleteJob = Ok az"
      and job: "lease_job d (authorized_lease worker now az) job"
      and body: "complete_assignment (env_identity env) st head_sha err appr deadline (leased_scope (authorized_lease worker now az) job) d = Ok (p, d')"
    for az job p d' st appr deadline
  proof -
    have "with_active_lease d (authorized_lease worker now az) (complete_assignment (env_identity env) st head_sha err appr deadline) = Ok (Some p, d')"
      using body by (simp add: with_active_lease_live[OF job])
    then show ?thesis using authorized_lease_holds[OF az job] by (auto simp: served_def intro: server_step.complete)
  qed
  then have "tx_effect d (leased_tx d (authorized_lease worker now az)
      (\<lambda>sc d. map_ok (\<lambda>(p, d'). (Ok p, d')) (complete_assignment (env_identity env) st head_sha err appr deadline sc d)) me missing)
      (served env d worker header job_id now UNIV)"
    if "authorize_for_job env d0 worker header job_id now CompleteJob = Ok az" for az st appr deadline me missing
    using that by (intro tx_effect_leased_tx) (auto simp: map_ok_Ok_iff)
  then show ?thesis unfolding complete_route_def Let_def by (intro tx_effect_accept) (auto intro: tx_effect_accept)
qed

lemma serve_served: "tx_effect d (serve env d0 d1 d worker header job_id now call) (served env d worker header job_id now (call_kinds call))"
  using heartbeat_served submit_findings_served submit_llm_finding_served submit_verdict_served complete_served
  by (cases call) (simp_all add: tx_effect_forget)

text \<open>
  C7: Whatever happens between its authorisation and its transaction, a worker request changes the database only through
  the steps of the server model, and only if in the very database it changes the caller holds an unexpired lease
  on exactly the job of the request, with the token of the request and a job kind that the route
  admits; a refused request changes nothing and an accepted one raises no security event.\<close>

theorem worker_requests_confined:
  "let r = serve env d0 d1 d worker header job_id now call in
   (case rt_response r of
      Err _ \<Rightarrow> rt_db r = d
    | Ok _ \<Rightarrow> rt_events r = [] \<and> (server_step (env_identity env))\<^sup>*\<^sup>* d (rt_db r) \<and>
        (\<exists>job. holds_lease env d worker header job_id now job \<and> (rt_db r = d \<or> jr_kind job \<in> call_kinds call)))"
proof -
  have "tx_effect d (serve env d0 d1 d worker header job_id now call) (served env d worker header job_id now (call_kinds call))"
    by (rule serve_served)
  then show ?thesis unfolding tx_effect_def served_def Let_def by (auto split: result.splits)
qed

lemma get_active_iff:
  assumes "store_wf d" "parse_capability env header = Some hash"
  shows "(\<exists>j. get_active_by_capability_hash d (aw_id worker) hash now = Some j \<and> jr_id j = job_id) \<longleftrightarrow>
    (\<exists>j. holds_lease env d worker header job_id now j \<and> legacy_kind (jr_kind j))"
proof
  have wf: "jobs_wf d" using assms(1) by (simp add: store_wf_def)
  assume "\<exists>j. get_active_by_capability_hash d (aw_id worker) hash now = Some j \<and> jr_id j = job_id"
  then obtain j where j: "get_active_by_capability_hash d (aw_id worker) hash now = Some j" "jr_id j = job_id" by blast
  then show "\<exists>j. holds_lease env d worker header job_id now j \<and> legacy_kind (jr_kind j)"
    using get_active_Some[OF j(1)] wf assms(2)
    by (auto simp: holds_lease_def legacy_kind_def legacy_kinds_sql_iff jobs_wf_def)
next
  have wf: "jobs_wf d" using assms(1) by (simp add: store_wf_def)
  assume "\<exists>j. holds_lease env d worker header job_id now j \<and> legacy_kind (jr_kind j)"
  then obtain j where j: "holds_lease env d worker header job_id now j" "legacy_kind (jr_kind j)" by blast
  have "get_active_by_capability_hash d (aw_id worker) hash now = Some j"
    using j wf assms(2) unfolding get_active_by_capability_hash_def
    by (intro find_unique unique_index_same[of jr_capability_hash "db_jobs d" _ j])
      (auto simp: holds_lease_def legacy_kind_def legacy_kinds_sql_iff jobs_wf_def jobs_unique_def)
  then show "\<exists>j. get_active_by_capability_hash d (aw_id worker) hash now = Some j \<and> jr_id j = job_id"
    using j by (auto simp: holds_lease_def)
qed

text \<open>
  C38: Authorisation is exact. On a consistent store a request for a job is authorised exactly if its token is the
  capability of that job's live lease and the lease belongs to the caller. Every refusal has the same status and text
  and raises exactly one event, whose reason tells a missing token from a malformed one and names the
  worker, the operation and the requested job.\<close>

theorem authorization_exact:
  assumes "store_wf d"
  shows "case authorize_for_job env d worker header job_id now op of
      Ok az \<Rightarrow> holds_lease env d worker header job_id now (az_row az) \<and> legacy_kind (jr_kind (az_row az))
    | Err e \<Rightarrow> (\<nexists>j. holds_lease env d worker header job_id now j \<and> legacy_kind (jr_kind j)) \<and>
        (\<exists>ctxt reason. e = (forbidden, [CapabilityDenied ctxt op (TJob job_id) reason]) \<and> ec_worker_id ctxt = Some (aw_id worker) \<and>
           (reason = MissingCapability \<longleftrightarrow> header = None) \<and>
           (reason = MalformedCapability \<longleftrightarrow> header \<noteq> None \<and> parse_capability env header = None))"
proof (cases "parse_capability env header")
  case None
  then show ?thesis by (auto simp: authorize_for_job_def authorize_def denied_def holds_lease_def)
next
  case (Some hash)
  then have header: "header \<noteq> None" by (cases header) (simp_all add: parse_capability_def)
  note active = get_active_iff[OF assms Some, of worker now job_id]
  show ?thesis
  proof (cases "get_active_by_capability_hash d (aw_id worker) hash now")
    case None
    then show ?thesis using active Some header by (simp add: authorize_for_job_def authorize_def denied_def)
  next
    case (Some j)
    note j = get_active_Some[OF Some] capability_admits_active[OF Some]
    have kind: "legacy_kind (jr_kind j)"
      using j assms by (auto simp: store_wf_def jobs_wf_def legacy_kinds_sql_iff legacy_kind_def)
    show ?thesis
      using active Some \<open>parse_capability env header = Some hash\<close> j kind header
      by (auto simp: authorize_for_job_def authorize_def denied_def holds_lease_def)
  qed
qed

definition sample_env :: route_env where
  "sample_env = \<lparr>env_to_str = (\<lambda>bs. Some (map char_of bs)), env_hash = (\<lambda>_. [4]),
     env_validate_view = (\<lambda>_ _ _ _. Ok ()), env_require_approval_default = False, env_identity = 0\<rparr>"

theorem authorization_exact_witness:
  "(\<exists>az. authorize_for_job sample_env queue_db \<lparr>aw_id = 7, aw_name = ''w''\<rparr> (Some (replicate 43 97)) 4 50 Heartbeat = Ok az \<and>
      holds_lease sample_env queue_db \<lparr>aw_id = 7, aw_name = ''w''\<rparr> (Some (replicate 43 97)) 4 50 (az_row az)) \<and>
   (\<nexists>j. holds_lease sample_env queue_db \<lparr>aw_id = 7, aw_name = ''w''\<rparr> (Some (replicate 43 97)) 5 50 j \<and> legacy_kind (jr_kind j))"
proof -
  let ?auth = "\<lambda>i. authorize_for_job sample_env queue_db \<lparr>aw_id = 7, aw_name = ''w''\<rparr> (Some (replicate 43 97)) i 50 Heartbeat"
  have get: "get_active_by_capability_hash queue_db 7 [4] 50 = Some (leased_scan 4 1 50)"
    by (simp add: get_active_by_capability_hash_def queue_defs legacy_kinds_sql_def LEGACY_RUNTIME_KINDS_def)
  have parse: "parse_capability sample_env (Some (replicate 43 97)) = Some [4]"
    by (simp add: parse_capability_def sample_env_def JOB_CAPABILITY_TOKEN_CHARS_def)
  have "\<exists>az. ?auth 4 = Ok az" "\<exists>e. ?auth 5 = Err e"
    using get parse capability_admits_active[OF get]
    by (auto simp: authorize_for_job_def authorize_def legacy_kind_def leased_scan_def sample_defs)
  then show ?thesis
    using authorization_exact[OF queue_db_wf, of sample_env "\<lparr>aw_id = 7, aw_name = ''w''\<rparr>" "Some (replicate 43 97)" 4 50 Heartbeat]
      authorization_exact[OF queue_db_wf, of sample_env "\<lparr>aw_id = 7, aw_name = ''w''\<rparr>" "Some (replicate 43 97)" 5 50 Heartbeat]
    by auto
qed

end
