(* ===== verification/Checkpoints.thy ===== *)
theory Checkpoints
  imports Jobs
begin

text \<open>
  Replay records of review submissions: \<open>loupe-storage/src/checkpoints.rs\<close>. A submission
  carries a client key and a payload digest; the response of the first accepted one is
  stored under its job and its operation-qualified key, and a repeated submission gets the
  stored response without running its domain writes again. The review tables the domain
  writes touch are reached only through the \<open>body\<close> argument, as in the code; the store
  here is the modelled database with the \<open>job_checkpoints\<close> table beside it. As elsewhere
  in the storage model a row holds admitted values, so reading a text column succeeds; the
  digest column stays a byte string of any length.
\<close>

section \<open>Operations and rows\<close>

datatype checkpoint_operation =
    SubmitReviewUnit | SubmitLead | SubmitUnitResult | SubmitObservation | StageArtifact
  | RecordExecution | ValidateFixPatch | SubmitSiblingLead | InitializeSurveyBatch
  | PublishProfile | IssueDuplicateCandidates | SubmitInventoryDisposition

fun operation_as_str :: "checkpoint_operation \<Rightarrow> string" where
  "operation_as_str SubmitReviewUnit = ''submit_review_unit''"
| "operation_as_str SubmitLead = ''submit_lead''"
| "operation_as_str SubmitUnitResult = ''submit_unit_result''"
| "operation_as_str SubmitObservation = ''submit_observation''"
| "operation_as_str StageArtifact = ''stage_proof_artifact''"
| "operation_as_str RecordExecution = ''record_execution''"
| "operation_as_str ValidateFixPatch = ''validate_fix_patch''"
| "operation_as_str SubmitSiblingLead = ''submit_sibling_lead''"
| "operation_as_str InitializeSurveyBatch = ''initialize_survey_batch''"
| "operation_as_str PublishProfile = ''publish_profile''"
| "operation_as_str IssueDuplicateCandidates = ''issue_duplicate_candidates''"
| "operation_as_str SubmitInventoryDisposition = ''submit_inventory_disposition''"

record checkpoint_row =
  ck_id :: int
  ck_job_id :: int
  ck_client_key :: string
  ck_operation :: string
  ck_payload_digest :: blob
  ck_response :: string
  ck_created_at :: int

record review_store =
  rv_db :: db
  rv_checkpoints :: "checkpoint_row list"

record stored =
  st_operation :: string
  st_digest :: blob

datatype replay = Miss | Hit | ReplayConflict

definition replay_decision :: "stored option \<Rightarrow> checkpoint_operation \<Rightarrow> blob \<Rightarrow> replay" where
  "replay_decision stored op digest =
    (case stored of
       None \<Rightarrow> Miss
     | Some s \<Rightarrow> if st_operation s = operation_as_str op \<and> st_digest s = digest then Hit
                 else ReplayConflict)"

text \<open>\<open>EXISTS(SELECT 1 FROM jobs WHERE id=? AND repo_id=?)\<close>, the scope of every statement.\<close>

definition job_in_repo :: "review_store \<Rightarrow> int \<Rightarrow> int \<Rightarrow> bool" where
  "job_in_repo st job repo \<longleftrightarrow>
     sql_exists (\<lambda>r. jr_id r = job \<and> jr_repo_id r = repo) (db_jobs (rv_db st))"

definition accepted_count_raw :: "review_store \<Rightarrow> int \<Rightarrow> int \<Rightarrow> checkpoint_operation \<Rightarrow> nat" where
  "accepted_count_raw st repo job op =
    sql_count (\<lambda>c. ck_job_id c = job \<and> ck_operation c = operation_as_str op \<and> job_in_repo st job repo)
      (rv_checkpoints st)"

datatype recorded_checkpoint = Recorded | RecordedReplayed string

datatype checkpoint_outcome = Fresh string | Replayed string

section \<open>Reading and writing a record\<close>

definition qualified_key :: "checkpoint_operation \<Rightarrow> string \<Rightarrow> string" where
  "qualified_key op key = operation_as_str op @ '':'' @ key"

definition select_checkpoint :: "review_store \<Rightarrow> int \<Rightarrow> int \<Rightarrow> string \<Rightarrow> checkpoint_row option" where
  "select_checkpoint st repo job key =
    find (\<lambda>c. ck_job_id c = job \<and> ck_client_key c = key \<and> job_in_repo st job repo) (rv_checkpoints st)"

definition checkpoint_stored :: "checkpoint_row \<Rightarrow> stored" where
  "checkpoint_stored c = \<lparr>st_operation = ck_operation c, st_digest = ck_payload_digest c\<rparr>"

definition checkpoint_lookup ::
  "repo_scope \<Rightarrow> int \<Rightarrow> checkpoint_operation \<Rightarrow> string \<Rightarrow> blob \<Rightarrow> review_store
   \<Rightarrow> (string option, storage_error) result" where
  "checkpoint_lookup sc job op key digest st =
    and_then (require_operator sc) (\<lambda>_.
    and_then (ok_or (jobs_get_scoped_raw (rv_db st) (rs_repo_id sc) job) (NotFoundErr EJob job)) (\<lambda>_.
      let record = select_checkpoint st (rs_repo_id sc) job (qualified_key op key)
      in case replay_decision (map_option checkpoint_stored record) op digest of
           Miss \<Rightarrow> Ok None
         | Hit \<Rightarrow> Ok (map_option ck_response record)
         | ReplayConflict \<Rightarrow> Err (ConflictErr Checkpoint)))"

text \<open>
  \<open>INSERT INTO job_checkpoints ... SELECT ... WHERE EXISTS(...)\<close> under
  \<open>UNIQUE (job_id, client_key)\<close>: None is the unique violation.
\<close>

definition insert_checkpoint ::
  "int \<Rightarrow> int \<Rightarrow> string \<Rightarrow> string \<Rightarrow> blob \<Rightarrow> string \<Rightarrow> int \<Rightarrow> review_store \<Rightarrow> review_store option" where
  "insert_checkpoint repo job key op digest response now st =
    (if \<not> job_in_repo st job repo then Some st
     else if sql_exists (\<lambda>c. ck_job_id c = job \<and> ck_client_key c = key) (rv_checkpoints st) then None
     else Some (st\<lparr>rv_checkpoints := rv_checkpoints st @
       [\<lparr>ck_id = next_rowid (map ck_id (rv_checkpoints st)), ck_job_id = job, ck_client_key = key,
         ck_operation = op, ck_payload_digest = digest, ck_response = response,
         ck_created_at = now\<rparr>]\<rparr>))"

definition record_or_replay ::
  "repo_scope \<Rightarrow> int \<Rightarrow> checkpoint_operation \<Rightarrow> string \<Rightarrow> blob \<Rightarrow> string \<Rightarrow> int \<Rightarrow> review_store
   \<Rightarrow> (recorded_checkpoint \<times> review_store, storage_error) result" where
  "record_or_replay sc job op key digest response now st =
    and_then (require_operator sc) (\<lambda>_.
    if op = IssueDuplicateCandidates then Err (ConflictErr Checkpoint)
    else and_then (ok_or (jobs_get_scoped_raw (rv_db st) (rs_repo_id sc) job) (NotFoundErr EJob job)) (\<lambda>_.
      case insert_checkpoint (rs_repo_id sc) job (qualified_key op key) (operation_as_str op) digest
             response now st of
        Some st' \<Rightarrow> Ok (Recorded, st')
      | None \<Rightarrow>
          and_then (checkpoint_lookup sc job op key digest st) (\<lambda>found.
          and_then (ok_or found (Sqlite ConstraintViolation)) (\<lambda>stored_response.
            Ok (RecordedReplayed stored_response, st)))))"

type_synonym 'a checkpoint_body = "review_store \<Rightarrow> ('a \<times> review_store, storage_error) result"

definition checkpoint_run ::
  "repo_scope \<Rightarrow> int \<Rightarrow> checkpoint_operation \<Rightarrow> string \<Rightarrow> blob \<Rightarrow> int \<Rightarrow> string checkpoint_body \<Rightarrow> review_store
   \<Rightarrow> (checkpoint_outcome \<times> review_store, storage_error) result" where
  "checkpoint_run sc job op key digest now body st =
    and_then (require_operator sc) (\<lambda>_.
    if op = IssueDuplicateCandidates then Err (ConflictErr Checkpoint)
    else and_then (ok_or (jobs_get_scoped_raw (rv_db st) (rs_repo_id sc) job) (NotFoundErr EJob job)) (\<lambda>_.
    and_then (checkpoint_lookup sc job op key digest st) (\<lambda>found.
      case found of
        Some response \<Rightarrow> Ok (Replayed response, st)
      | None \<Rightarrow>
          and_then (body st) (\<lambda>(response, st1).
          and_then (record_or_replay sc job op key digest response now st1) (\<lambda>(outcome, st2).
            case outcome of
              Recorded \<Rightarrow> Ok (Fresh response, st2)
            | RecordedReplayed _ \<Rightarrow> Err (ConflictErr Checkpoint))))))"

text \<open>The fixed host checkpoint of a survey batch; \<open>sha256\<close> is the digest crate's function.\<close>

definition SURVEY_BATCH_KEY :: string where
  "SURVEY_BATCH_KEY = ''initialize_survey_batch:ordinary''"

definition initialize_survey_batch ::
  "(string \<Rightarrow> blob) \<Rightarrow> int \<Rightarrow> int \<Rightarrow> int \<Rightarrow> unit checkpoint_body \<Rightarrow> review_store
   \<Rightarrow> (bool \<times> review_store, storage_error) result" where
  "initialize_survey_batch sha256 repo job now body st =
    (let digest = sha256 ''{}'' in
     case select_checkpoint st repo job SURVEY_BATCH_KEY of
       Some c \<Rightarrow>
         if replay_decision (Some (checkpoint_stored c)) InitializeSurveyBatch digest = Hit
         then Ok (True, st) else Err (ConflictErr Checkpoint)
     | None \<Rightarrow>
         and_then (body st) (\<lambda>(_, st1).
         and_then (ok_or (insert_checkpoint repo job SURVEY_BATCH_KEY ''initialize_survey_batch''
                            digest ''{}'' now st1) (Sqlite ConstraintViolation)) (\<lambda>st2.
           Ok (False, st2))))"

section \<open>Sequences of submissions\<close>

text \<open>
  A caller runs each submission in its own transaction: an error rolls it back. A body is
  arbitrary code on the store that neither deletes a checkpoint nor a job and keeps the
  table's unique key.
\<close>

record submission =
  sb_scope :: repo_scope
  sb_job :: int
  sb_operation :: checkpoint_operation
  sb_key :: string
  sb_digest :: blob
  sb_now :: int
  sb_body :: "string checkpoint_body"

definition run_submission ::
  "submission \<Rightarrow> review_store \<Rightarrow> (checkpoint_outcome \<times> review_store, storage_error) result" where
  "run_submission s =
    checkpoint_run (sb_scope s) (sb_job s) (sb_operation s) (sb_key s) (sb_digest s) (sb_now s) (sb_body s)"

definition commit_submission ::
  "submission \<Rightarrow> review_store \<Rightarrow> (checkpoint_outcome, storage_error) result \<times> review_store" where
  "commit_submission s st =
    (case run_submission s st of Ok (outcome, st') \<Rightarrow> (Ok outcome, st') | Err e \<Rightarrow> (Err e, st))"

fun commit_all :: "submission list \<Rightarrow> review_store \<Rightarrow> review_store" where
  "commit_all [] st = st"
| "commit_all (s # ss) st = commit_all ss (snd (commit_submission s st))"

definition checkpoint_key :: "checkpoint_row \<Rightarrow> (int \<times> string) option" where
  "checkpoint_key c = Some (ck_job_id c, ck_client_key c)"

definition checkpoints_wf :: "review_store \<Rightarrow> bool" where
  "checkpoints_wf st \<longleftrightarrow> unique_index checkpoint_key (rv_checkpoints st)"

definition store_extends :: "review_store \<Rightarrow> review_store \<Rightarrow> bool" where
  "store_extends st st' \<longleftrightarrow>
     set (rv_checkpoints st) \<subseteq> set (rv_checkpoints st') \<and>
     (\<forall>job repo. job_in_repo st job repo \<longrightarrow> job_in_repo st' job repo)"

definition domain_body :: "'a checkpoint_body \<Rightarrow> bool" where
  "domain_body body \<longleftrightarrow>
     (\<forall>st x st'. checkpoints_wf st \<longrightarrow> body st = Ok (x, st') \<longrightarrow> checkpoints_wf st' \<and> store_extends st st')"

definition same_target :: "submission \<Rightarrow> submission \<Rightarrow> bool" where
  "same_target a b \<longleftrightarrow>
     sb_job a = sb_job b \<and> sb_operation a = sb_operation b \<and> sb_key a = sb_key b"

section \<open>Facts\<close>

lemma get_scoped_iff:
  "jobs_get_scoped_raw (rv_db st) repo job = None \<longleftrightarrow> \<not> job_in_repo st job repo"
  by (auto simp: jobs_get_scoped_raw_def job_in_repo_def sql_exists_iff find_None_iff)

lemma job_known: "(\<exists>r. jobs_get_scoped_raw (rv_db st) repo job = Some r) \<longleftrightarrow> job_in_repo st job repo"
  using get_scoped_iff[of st repo job] by (cases "jobs_get_scoped_raw (rv_db st) repo job") auto

lemma store_extends_refl: "store_extends st st"
  by (simp add: store_extends_def)

lemma store_extends_trans: "store_extends a b \<Longrightarrow> store_extends b c \<Longrightarrow> store_extends a c"
  by (auto simp: store_extends_def)

lemma require_operator_Ok: "require_operator sc = Ok u \<longleftrightarrow> rs_operator sc"
  by (simp add: require_operator_def)

lemma select_checkpoint_unique:
  assumes wf: "checkpoints_wf st" and c: "c \<in> set (rv_checkpoints st)"
  shows "select_checkpoint st repo (ck_job_id c) (ck_client_key c) =
    (if job_in_repo st (ck_job_id c) repo then Some c else None)"
proof (cases "select_checkpoint st repo (ck_job_id c) (ck_client_key c)")
  case None
  then show ?thesis using c by (auto simp: select_checkpoint_def find_None_iff)
next
  case (Some c')
  then have c': "c' \<in> set (rv_checkpoints st)" "checkpoint_key c' = checkpoint_key c"
      "job_in_repo st (ck_job_id c) repo"
    by (auto simp: select_checkpoint_def find_Some_iff checkpoint_key_def)
  moreover have "c' = c"
    using unique_index_same[OF wf[unfolded checkpoints_wf_def] c'(1) c] c'(2)
    by (simp add: checkpoint_key_def)
  ultimately show ?thesis using Some by simp
qed

lemma insert_checkpoint_step:
  assumes "insert_checkpoint repo job key op digest response now st = Some st'" and "checkpoints_wf st"
  shows "checkpoints_wf st' \<and> store_extends st st' \<and>
    (job_in_repo st job repo \<longrightarrow> (\<exists>c \<in> set (rv_checkpoints st'). ck_job_id c = job \<and> ck_client_key c = key \<and>
       ck_operation c = op \<and> ck_payload_digest c = digest \<and> ck_response c = response))"
  using assms
  by (auto simp: insert_checkpoint_def checkpoints_wf_def store_extends_def unique_index_append
      unique_index_Cons checkpoint_key_def sql_exists_iff job_in_repo_def split: if_splits) blast

lemma record_or_replay_Recorded:
  "record_or_replay sc job op key digest response now st = Ok (Recorded, st') \<longleftrightarrow>
     rs_operator sc \<and> op \<noteq> IssueDuplicateCandidates \<and> job_in_repo st job (rs_repo_id sc) \<and>
     insert_checkpoint (rs_repo_id sc) job (qualified_key op key) (operation_as_str op) digest
       response now st = Some st'"
  by (auto simp: record_or_replay_def and_then_Ok_iff ok_or_Ok_iff require_operator_Ok
      simp flip: job_known split: option.splits if_splits)

lemma checkpoint_run_Ok:
  assumes run: "checkpoint_run sc job op key digest now body st = Ok (outcome, st')"
    and wf: "checkpoints_wf st" and body: "domain_body body"
  shows "checkpoints_wf st' \<and> store_extends st st' \<and>
    (\<forall>r. outcome = Fresh r \<longrightarrow> rs_operator sc \<and> op \<noteq> IssueDuplicateCandidates \<and>
       job_in_repo st job (rs_repo_id sc) \<and> (\<exists>st1. body st = Ok (r, st1)) \<and>
       (\<exists>c \<in> set (rv_checkpoints st'). ck_job_id c = job \<and> ck_client_key c = qualified_key op key \<and>
          ck_operation c = operation_as_str op \<and> ck_payload_digest c = digest \<and> ck_response c = r))"
proof -
  from run obtain found where op: "rs_operator sc" "op \<noteq> IssueDuplicateCandidates"
      "job_in_repo st job (rs_repo_id sc)" "checkpoint_lookup sc job op key digest st = Ok found"
    and rest: "(case found of Some response \<Rightarrow> Ok (Replayed response, st)
      | None \<Rightarrow> and_then (body st) (\<lambda>(response, st1).
          and_then (record_or_replay sc job op key digest response now st1) (\<lambda>(outcome, st2).
            case outcome of Recorded \<Rightarrow> Ok (Fresh response, st2)
            | RecordedReplayed _ \<Rightarrow> Err (ConflictErr Checkpoint)))) = Ok (outcome, st')"
    by (auto simp: checkpoint_run_def and_then_Ok_iff ok_or_Ok_iff require_operator_Ok
        simp flip: job_known split: if_splits)
  show ?thesis
  proof (cases found)
    case (Some response)
    then show ?thesis using rest wf by (auto simp: store_extends_refl)
  next
    case None
    then obtain r st1 where b: "body st = Ok (r, st1)" "outcome = Fresh r"
        "record_or_replay sc job op key digest r now st1 = Ok (Recorded, st')"
      using rest by (auto simp: and_then_Ok_iff split: recorded_checkpoint.splits) (metis recorded_checkpoint.exhaust)
    have st1: "checkpoints_wf st1" "store_extends st st1"
      using body wf b(1) by (auto simp: domain_body_def)
    have ins: "job_in_repo st1 job (rs_repo_id sc)"
        "insert_checkpoint (rs_repo_id sc) job (qualified_key op key) (operation_as_str op) digest
           r now st1 = Some st'"
      using b(3) by (simp_all add: record_or_replay_Recorded)
    show ?thesis
      using insert_checkpoint_step[OF ins(2) st1(1)] ins(1) st1(2) op b store_extends_trans by auto
  qed
qed

lemma checkpoint_run_recorded:
  assumes wf: "checkpoints_wf st" and c: "c \<in> set (rv_checkpoints st)" "ck_job_id c = job"
      "ck_client_key c = qualified_key op key" "ck_operation c = operation_as_str op"
    and op: "op \<noteq> IssueDuplicateCandidates"
  shows "checkpoint_run sc job op key digest now body st =
    (if \<not> rs_operator sc then Err ScopeDenied
     else if \<not> job_in_repo st job (rs_repo_id sc) then Err (NotFoundErr EJob job)
     else if digest = ck_payload_digest c then Ok (Replayed (ck_response c), st)
     else Err (ConflictErr Checkpoint))"
proof (cases "jobs_get_scoped_raw (rv_db st) (rs_repo_id sc) job")
  case None
  then show ?thesis
    using op get_scoped_iff[of st "rs_repo_id sc" job] by (simp add: checkpoint_run_def require_operator_def)
next
  case (Some row)
  then have job: "job_in_repo st job (rs_repo_id sc)" using job_known by blast
  then have "select_checkpoint st (rs_repo_id sc) job (qualified_key op key) = Some c"
    using select_checkpoint_unique[OF wf c(1)] c(2,3) by simp
  then show ?thesis
    using Some job op c(4)
    by (auto simp: checkpoint_run_def checkpoint_lookup_def require_operator_def replay_decision_def
        checkpoint_stored_def)
qed

lemma commit_submission_step:
  assumes "checkpoints_wf st" and "domain_body (sb_body s)"
  shows "checkpoints_wf (snd (commit_submission s st)) \<and> store_extends st (snd (commit_submission s st))"
proof (cases "run_submission s st")
  case (Ok p)
  then obtain outcome st' where "run_submission s st = Ok (outcome, st')" by (cases p) auto
  then show ?thesis
    using checkpoint_run_Ok[OF _ assms] by (simp add: commit_submission_def run_submission_def)
qed (use assms in \<open>simp add: commit_submission_def store_extends_refl\<close>)

lemma commit_all_step:
  assumes "checkpoints_wf st" and "\<forall>s \<in> set ss. domain_body (sb_body s)"
  shows "checkpoints_wf (commit_all ss st) \<and> store_extends st (commit_all ss st)"
  using assms
proof (induction ss arbitrary: st)
  case (Cons s ss)
  note step = commit_submission_step[of st s]
  then show ?case
    using Cons.prems Cons.IH[of "snd (commit_submission s st)"] store_extends_trans by auto
qed (simp add: store_extends_refl)

lemma commit_all_append: "commit_all (ss @ ts) st = commit_all ts (commit_all ss st)"
  by (induction ss arbitrary: st) auto

lemma take_split: "i < j \<Longrightarrow> j \<le> length ss \<Longrightarrow> take j ss = take i ss @ ss ! i # drop (Suc i) (take j ss)"
  using id_take_nth_drop[of i "take j ss"] by (simp add: min_def)

text \<open>The host's survey batch is selected once per job: a later call reports the replay.\<close>

lemma survey_batch_once:
  assumes "initialize_survey_batch sha256 repo job now body st = Ok (False, st')"
    and "checkpoints_wf st" and "domain_body body" and "job_in_repo st job repo"
    and "checkpoints_wf st''" and "store_extends st' st''"
  shows "initialize_survey_batch sha256 repo job now' body' st'' = Ok (True, st'')"
proof -
  obtain u st1 where st1: "body st = Ok (u, st1)"
      "insert_checkpoint repo job SURVEY_BATCH_KEY ''initialize_survey_batch'' (sha256 ''{}'') ''{}'' now
         st1 = Some st'"
    using assms(1)
    by (auto simp: initialize_survey_batch_def Let_def and_then_Ok_iff ok_or_Ok_iff
        split: option.splits if_splits)
  have wf: "checkpoints_wf st1" "job_in_repo st1 job repo"
    using assms(2-4) st1(1) by (auto simp: domain_body_def store_extends_def)
  note ins = insert_checkpoint_step[OF st1(2) wf(1)]
  then obtain c where c: "c \<in> set (rv_checkpoints st'')" "ck_job_id c = job"
      "ck_client_key c = SURVEY_BATCH_KEY" "ck_operation c = ''initialize_survey_batch''"
      "ck_payload_digest c = sha256 ''{}''"
    using wf(2) assms(6) by (auto simp: store_extends_def)
  have "job_in_repo st'' job repo" using ins wf(2) assms(6) by (simp add: store_extends_def)
  then have "select_checkpoint st'' repo job SURVEY_BATCH_KEY = Some c"
    using select_checkpoint_unique[OF assms(5) c(1)] c(2,3) by simp
  then show ?thesis
    using c(4,5) by (simp add: initialize_survey_batch_def replay_decision_def checkpoint_stored_def)
qed

section \<open>Properties\<close>

text \<open>
  C8: Domain writes of a review submission happen once. Take any sequence of submissions,
  each in its own transaction, with domain writes that delete no checkpoint and no job.
  When submission i ran its domain writes and was accepted, its response is what those
  writes returned, and every later submission j of the same job, operation and client key
  runs none: without operator authority or outside the job's repository it is refused;
  with the same payload digest it returns i's response and leaves the store as it was;
  with another digest it is refused as a conflict. Under i's own scope neither refusal
  can happen.
\<close>

theorem checkpoint_exactly_once:
  assumes "checkpoints_wf st" and "\<forall>s \<in> set ss. domain_body (sb_body s)"
    and "i < j" and "j < length ss" and "same_target (ss ! i) (ss ! j)"
    and "run_submission (ss ! i) (commit_all (take i ss) st) = Ok (Fresh r, st')"
  shows "(\<exists>st1. sb_body (ss ! i) (commit_all (take i ss) st) = Ok (r, st1)) \<and>
    run_submission (ss ! j) (commit_all (take j ss) st) =
      (if \<not> rs_operator (sb_scope (ss ! j)) then Err ScopeDenied
       else if \<not> job_in_repo (commit_all (take j ss) st) (sb_job (ss ! j)) (rs_repo_id (sb_scope (ss ! j)))
       then Err (NotFoundErr EJob (sb_job (ss ! j)))
       else if sb_digest (ss ! j) = sb_digest (ss ! i) then Ok (Replayed r, commit_all (take j ss) st)
       else Err (ConflictErr Checkpoint)) \<and>
    (sb_scope (ss ! j) = sb_scope (ss ! i) \<longrightarrow>
       rs_operator (sb_scope (ss ! j)) \<and>
       job_in_repo (commit_all (take j ss) st) (sb_job (ss ! j)) (rs_repo_id (sb_scope (ss ! j))))"
proof -
  let ?si = "commit_all (take i ss) st" and ?sj = "commit_all (take j ss) st"
  have bodies: "domain_body (sb_body (ss ! i))" "\<forall>s \<in> set (take i ss). domain_body (sb_body s)"
      "\<forall>s \<in> set (drop (Suc i) (take j ss)). domain_body (sb_body s)"
    using assms(2-4) by (auto dest: in_set_takeD in_set_dropD)
  have si: "checkpoints_wf ?si" using commit_all_step[OF assms(1) bodies(2)] by simp
  note first = checkpoint_run_Ok[OF assms(6)[unfolded run_submission_def] si bodies(1)]
  have "commit_all (take j ss) st = commit_all (drop (Suc i) (take j ss)) st'"
    by (subst take_split[of i j ss]) (use assms(3,4,6) in \<open>simp_all add: commit_all_append commit_submission_def\<close>)
  then have sj: "checkpoints_wf ?sj" "store_extends st' ?sj"
    using commit_all_step[OF conjunct1[OF first] bodies(3)] by simp_all
  obtain c where c: "c \<in> set (rv_checkpoints ?sj)" "ck_job_id c = sb_job (ss ! j)"
      "ck_client_key c = qualified_key (sb_operation (ss ! j)) (sb_key (ss ! j))"
      "ck_operation c = operation_as_str (sb_operation (ss ! j))"
      "ck_payload_digest c = sb_digest (ss ! i)" "ck_response c = r"
    using first sj(2) assms(5) by (auto simp: same_target_def store_extends_def)
  have op: "sb_operation (ss ! j) \<noteq> IssueDuplicateCandidates"
    using first assms(5) by (simp add: same_target_def)
  show ?thesis
    using checkpoint_run_recorded[OF sj(1) c(1-4) op] c(5,6) first sj(2) assms(5)
    by (auto simp: run_submission_def same_target_def store_extends_def)
qed

definition lead_body :: "string checkpoint_body" where
  "lead_body st = Ok (''7'', st\<lparr>rv_db := (rv_db st)\<lparr>db_review_details := 9 # db_review_details (rv_db st)\<rparr>\<rparr>)"

definition lead_submission :: submission where
  "lead_submission =
    \<lparr>sb_scope = \<lparr>rs_repo_id = 1, rs_operator = True\<rparr>, sb_job = 1, sb_operation = SubmitLead,
     sb_key = ''k'', sb_digest = replicate 32 1, sb_now = 5, sb_body = lead_body\<rparr>"

definition lead_store :: review_store where
  "lead_store = \<lparr>rv_db = sample_db, rv_checkpoints = []\<rparr>"

lemma lead_body_domain: "domain_body lead_body"
  by (auto simp: domain_body_def lead_body_def checkpoints_wf_def store_extends_def job_in_repo_def)

theorem checkpoint_exactly_once_witness:
  "\<exists>st'. run_submission lead_submission lead_store = Ok (Fresh ''7'', st') \<and>
     db_review_details (rv_db st') = [9] \<and>
     run_submission lead_submission st' = Ok (Replayed ''7'', st')"
proof -
  have sub: "sb_scope lead_submission = \<lparr>rs_repo_id = 1, rs_operator = True\<rparr>"
      "sb_body lead_submission = lead_body"
    by (simp_all add: lead_submission_def)
  obtain st' where first: "run_submission lead_submission lead_store = Ok (Fresh ''7'', st')"
      "db_review_details (rv_db st') = [9]"
    by (simp add: run_submission_def lead_submission_def lead_store_def checkpoint_run_def
        checkpoint_lookup_def record_or_replay_def require_operator_def jobs_get_scoped_raw_def
        select_checkpoint_def insert_checkpoint_def job_in_repo_def sql_exists_def replay_decision_def
        lead_body_def sample_defs)
  have "checkpoints_wf lead_store" by (simp add: checkpoints_wf_def lead_store_def)
  then show ?thesis
    using checkpoint_exactly_once[of lead_store "[lead_submission, lead_submission]" 0 1 "''7''" st']
      first lead_body_domain
    by (simp add: sub same_target_def commit_submission_def)
qed

end
