(* ===== verification/Campaign_Policy.thy ===== *)
theory Campaign_Policy
  imports Jobs
begin

text \<open>
  Frozen campaign policies and the time limits of a phase lease: \<open>scheduler/policy.rs\<close>
  (version 1), \<open>admission_policy.rs\<close> (version 2, which validates through an execution view
  of version 1) and the heartbeat of \<open>phase_lifecycle.rs\<close>. Integer fields are ints; the
  predicate \<open>policy_v2_typed\<close> states the ranges of the struct's \<open>u32\<close>, \<open>u64\<close> and \<open>i64\<close>
  fields. Decoding a policy from JSON is derived code, an argument of \<open>from_snapshot\<close>.
\<close>

section \<open>Version 1\<close>

record campaign_policy =
  cp_version :: int
  cp_survey_units_per_job :: int
  cp_survey_deadline_seconds :: int
  cp_survey_submit_margin_seconds :: int
  cp_drilldown_deadline_seconds :: int
  cp_drilldown_submit_margin_seconds :: int
  cp_verify_deadline_seconds :: int
  cp_verify_submit_margin_seconds :: int
  cp_max_attempts :: int
  cp_retry_backoff_base_seconds :: int
  cp_retry_backoff_cap_seconds :: int
  cp_campaign_handoff_reserve :: int
  cp_campaign_deadline_seconds :: int
  cp_campaign_max_jobs :: int
  cp_survey_token_budget :: "int option"
  cp_drilldown_token_budget :: "int option"
  cp_verify_token_budget :: "int option"

definition campaign_policy_default :: campaign_policy where
  "campaign_policy_default =
    \<lparr>cp_version = 1, cp_survey_units_per_job = 4, cp_survey_deadline_seconds = 1800,
     cp_survey_submit_margin_seconds = 300, cp_drilldown_deadline_seconds = 2700,
     cp_drilldown_submit_margin_seconds = 420, cp_verify_deadline_seconds = 3600,
     cp_verify_submit_margin_seconds = 600, cp_max_attempts = 3,
     cp_retry_backoff_base_seconds = 60, cp_retry_backoff_cap_seconds = 3600,
     cp_campaign_handoff_reserve = 2, cp_campaign_deadline_seconds = 21600,
     cp_campaign_max_jobs = 64, cp_survey_token_budget = None, cp_drilldown_token_budget = None,
     cp_verify_token_budget = None\<rparr>"

record phase_policy =
  ph_deadline_seconds :: int
  ph_submit_margin_seconds :: int
  ph_token_budget :: "int option"

definition policy_phase :: "campaign_policy \<Rightarrow> job_kind \<Rightarrow> (phase_policy, storage_error) result" where
  "policy_phase p kind =
    (case kind of
       Survey \<Rightarrow> Ok \<lparr>ph_deadline_seconds = cp_survey_deadline_seconds p,
         ph_submit_margin_seconds = cp_survey_submit_margin_seconds p,
         ph_token_budget = cp_survey_token_budget p\<rparr>
     | Drilldown \<Rightarrow> Ok \<lparr>ph_deadline_seconds = cp_drilldown_deadline_seconds p,
         ph_submit_margin_seconds = cp_drilldown_submit_margin_seconds p,
         ph_token_budget = cp_drilldown_token_budget p\<rparr>
     | Verify \<Rightarrow> Ok \<lparr>ph_deadline_seconds = cp_verify_deadline_seconds p,
         ph_submit_margin_seconds = cp_verify_submit_margin_seconds p,
         ph_token_budget = cp_verify_token_budget p\<rparr>
     | _ \<Rightarrow> Err (Validation ''job_kind''))"

definition phase_valid :: "campaign_policy \<Rightarrow> job_kind \<Rightarrow> bool" where
  "phase_valid p kind =
    (case policy_phase p kind of
       Err _ \<Rightarrow> False
     | Ok phase \<Rightarrow>
         ph_deadline_seconds phase > 0 \<and> ph_submit_margin_seconds phase \<ge> 0 \<and>
         ph_submit_margin_seconds phase < ph_deadline_seconds phase \<and>
         cp_campaign_deadline_seconds p \<ge> ph_deadline_seconds phase \<and>
         (case ph_token_budget phase of None \<Rightarrow> True | Some n \<Rightarrow> n > 0 \<and> n \<le> i64_max))"

definition policy_validate :: "campaign_policy \<Rightarrow> (unit, storage_error) result" where
  "policy_validate p =
    (if cp_version p = 1 \<and> 1 \<le> cp_survey_units_per_job p \<and> cp_survey_units_per_job p \<le> 32 \<and>
        cp_max_attempts p > 0 \<and> cp_campaign_max_jobs p > 0 \<and> cp_campaign_handoff_reserve p \<ge> 0 \<and>
        cp_campaign_handoff_reserve p < cp_campaign_max_jobs p \<and>
        cp_retry_backoff_base_seconds p \<ge> 1 \<and>
        cp_retry_backoff_base_seconds p \<le> cp_retry_backoff_cap_seconds p \<and>
        list_all (phase_valid p) [Survey, Drilldown, Verify]
     then Ok () else Err (ConflictErr CampaignPolicyConflict))"

definition policy_from_snapshot ::
  "(string \<Rightarrow> campaign_policy option) \<Rightarrow> string \<Rightarrow> (campaign_policy, storage_error) result" where
  "policy_from_snapshot from_str snapshot =
    and_then (ok_or (from_str snapshot) (ConflictErr CampaignPolicyConflict)) (\<lambda>p.
    and_then (policy_validate p) (\<lambda>_. Ok p))"

text \<open>\<open>2_i64.checked_pow(e).unwrap_or(i64::MAX)\<close>.\<close>

definition pow2_or_max :: "nat \<Rightarrow> int" where
  "pow2_or_max e = (case checked_i64 (2 ^ e) of Some m \<Rightarrow> m | None \<Rightarrow> i64_max)"

definition retry_delay :: "campaign_policy \<Rightarrow> nat \<Rightarrow> int" where
  "retry_delay p attempts =
    (let multiplier = pow2_or_max (attempts - 1)
     in min (i64_saturating_mul (cp_retry_backoff_base_seconds p) multiplier)
          (cp_retry_backoff_cap_seconds p))"

section \<open>Version 2\<close>

definition PRIORITY_POLICY_VERSION :: int where "PRIORITY_POLICY_VERSION = 1"

record campaign_policy_v2 =
  v2_version :: int
  v2_survey_units_per_job :: int
  v2_survey_deadline_seconds :: int
  v2_survey_submit_margin_seconds :: int
  v2_drilldown_deadline_seconds :: int
  v2_drilldown_submit_margin_seconds :: int
  v2_verify_deadline_seconds :: int
  v2_verify_submit_margin_seconds :: int
  v2_max_attempts :: int
  v2_retry_backoff_base_seconds :: int
  v2_retry_backoff_cap_seconds :: int
  v2_campaign_deadline_seconds :: int
  v2_campaign_max_jobs :: int
  v2_survey_token_budget :: "int option"
  v2_drilldown_token_budget :: "int option"
  v2_verify_token_budget :: "int option"
  v2_max_units_per_survey :: int
  v2_max_leads_per_survey :: int
  v2_max_sibling_leads_per_drilldown :: int
  v2_campaign_urgent_reserve :: int
  v2_campaign_verification_reserve :: int
  v2_priority_policy_version :: int

definition campaign_policy_v2_default :: campaign_policy_v2 where
  "campaign_policy_v2_default =
    (let execution = campaign_policy_default in
     \<lparr>v2_version = 2, v2_survey_units_per_job = cp_survey_units_per_job execution,
      v2_survey_deadline_seconds = cp_survey_deadline_seconds execution,
      v2_survey_submit_margin_seconds = cp_survey_submit_margin_seconds execution,
      v2_drilldown_deadline_seconds = cp_drilldown_deadline_seconds execution,
      v2_drilldown_submit_margin_seconds = cp_drilldown_submit_margin_seconds execution,
      v2_verify_deadline_seconds = cp_verify_deadline_seconds execution,
      v2_verify_submit_margin_seconds = cp_verify_submit_margin_seconds execution,
      v2_max_attempts = cp_max_attempts execution,
      v2_retry_backoff_base_seconds = cp_retry_backoff_base_seconds execution,
      v2_retry_backoff_cap_seconds = cp_retry_backoff_cap_seconds execution,
      v2_campaign_deadline_seconds = cp_campaign_deadline_seconds execution,
      v2_campaign_max_jobs = cp_campaign_max_jobs execution,
      v2_survey_token_budget = cp_survey_token_budget execution,
      v2_drilldown_token_budget = cp_drilldown_token_budget execution,
      v2_verify_token_budget = cp_verify_token_budget execution,
      v2_max_units_per_survey = 32, v2_max_leads_per_survey = 16,
      v2_max_sibling_leads_per_drilldown = 4, v2_campaign_urgent_reserve = 4,
      v2_campaign_verification_reserve = 4, v2_priority_policy_version = PRIORITY_POLICY_VERSION\<rparr>)"

definition v2_execution :: "campaign_policy_v2 \<Rightarrow> campaign_policy" where
  "v2_execution p =
    \<lparr>cp_version = 1, cp_survey_units_per_job = v2_survey_units_per_job p,
     cp_survey_deadline_seconds = v2_survey_deadline_seconds p,
     cp_survey_submit_margin_seconds = v2_survey_submit_margin_seconds p,
     cp_drilldown_deadline_seconds = v2_drilldown_deadline_seconds p,
     cp_drilldown_submit_margin_seconds = v2_drilldown_submit_margin_seconds p,
     cp_verify_deadline_seconds = v2_verify_deadline_seconds p,
     cp_verify_submit_margin_seconds = v2_verify_submit_margin_seconds p,
     cp_max_attempts = v2_max_attempts p,
     cp_retry_backoff_base_seconds = v2_retry_backoff_base_seconds p,
     cp_retry_backoff_cap_seconds = v2_retry_backoff_cap_seconds p,
     cp_campaign_handoff_reserve = 0,
     cp_campaign_deadline_seconds = v2_campaign_deadline_seconds p,
     cp_campaign_max_jobs = v2_campaign_max_jobs p,
     cp_survey_token_budget = v2_survey_token_budget p,
     cp_drilldown_token_budget = v2_drilldown_token_budget p,
     cp_verify_token_budget = v2_verify_token_budget p\<rparr>"

definition v2_validate :: "campaign_policy_v2 \<Rightarrow> (unit, storage_error) result" where
  "v2_validate p =
    and_then (policy_validate (v2_execution p)) (\<lambda>_.
      if v2_version p \<noteq> 2 \<or> v2_priority_policy_version p \<noteq> PRIORITY_POLICY_VERSION \<or>
         v2_max_units_per_survey p = 0 \<or> v2_max_leads_per_survey p = 0 \<or>
         v2_max_sibling_leads_per_drilldown p = 0 \<or> v2_campaign_urgent_reserve p < 0 \<or>
         v2_campaign_verification_reserve p < 0 \<or>
         (case i64_checked_add (v2_campaign_urgent_reserve p) (v2_campaign_verification_reserve p) of
            None \<Rightarrow> True | Some reserved \<Rightarrow> reserved \<ge> v2_campaign_max_jobs p)
      then Err (ConflictErr CampaignPolicyConflict) else Ok ())"

definition v2_from_json ::
  "(string \<Rightarrow> campaign_policy_v2 option) \<Rightarrow> string \<Rightarrow> (campaign_policy_v2, storage_error) result" where
  "v2_from_json from_str raw =
    and_then (ok_or (from_str raw) (ConflictErr CampaignPolicyConflict)) (\<lambda>p.
    and_then (v2_validate p) (\<lambda>_. Ok p))"

definition v2_phase :: "campaign_policy_v2 \<Rightarrow> job_kind \<Rightarrow> (phase_policy, storage_error) result" where
  "v2_phase p kind = policy_phase (v2_execution p) kind"

definition v2_retry_delay :: "campaign_policy_v2 \<Rightarrow> nat \<Rightarrow> int" where
  "v2_retry_delay p attempt = retry_delay (v2_execution p) attempt"

text \<open>\<open>u32::try_from(n).unwrap_or(u32::MAX)\<close>.\<close>

definition u32_or_max :: "nat \<Rightarrow> nat" where
  "u32_or_max n = (if n \<le> 4294967295 then n else 4294967295)"

definition logical_delay :: "campaign_policy_v2 \<Rightarrow> nat \<Rightarrow> (int, storage_error) result" where
  "logical_delay p sequence =
    and_then (v2_validate p) (\<lambda>_.
      if sequence = 0 then Err (ConflictErr CampaignPolicyConflict)
      else let exponent = u32_or_max (sequence - 1);
               multiplier = pow2_or_max exponent
           in Ok (min (i64_saturating_mul (v2_retry_backoff_base_seconds p) multiplier)
                    (v2_retry_backoff_cap_seconds p)))"

definition logical_not_before ::
  "campaign_policy_v2 \<Rightarrow> int \<Rightarrow> nat \<Rightarrow> (int, storage_error) result" where
  "logical_not_before p now sequence =
    and_then (logical_delay p sequence) (\<lambda>delay.
      ok_or (i64_checked_add now delay) (ConflictErr CampaignPolicyConflict))"

definition general_capacity :: "campaign_policy_v2 \<Rightarrow> (int, storage_error) result" where
  "general_capacity p =
    and_then (v2_validate p) (\<lambda>_.
      Ok (wrap_i64 (wrap_i64 (v2_campaign_max_jobs p - v2_campaign_urgent_reserve p)
            - v2_campaign_verification_reserve p)))"

section \<open>Priority\<close>

datatype impact = ImpactLow | ImpactMedium | ImpactHigh | ImpactCritical

datatype access = Privileged | Local | Remote

datatype reachability = Plausible | Traced

record accepted_priority =
  ap_band :: band
  ap_score :: int

definition classify_priority ::
  "impact \<Rightarrow> access \<Rightarrow> reachability \<Rightarrow> bool \<Rightarrow> bool \<Rightarrow> accepted_priority" where
  "classify_priority impact access reachability boundary_cited structurally_supported =
    (if \<not> structurally_supported then \<lparr>ap_band = Normal, ap_score = 0\<rparr>
     else
       let traced = reachability = Traced;
           high_impact = (impact = ImpactHigh \<or> impact = ImpactCritical);
           band = (if high_impact \<and> access = Remote \<and> traced \<and> boundary_cited then Urgent
                   else if high_impact \<and> traced then HighBand
                   else if impact = ImpactLow then Background
                   else Normal);
           score = (case impact of ImpactLow \<Rightarrow> 0 | ImpactMedium \<Rightarrow> 100 | ImpactHigh \<Rightarrow> 200
                      | ImpactCritical \<Rightarrow> 300) +
                   (case access of Privileged \<Rightarrow> 0 | Local \<Rightarrow> 50 | Remote \<Rightarrow> 100) +
                   (if traced then 100 else 0) + (if boundary_cited then 50 else 0)
       in \<lparr>ap_band = band, ap_score = score\<rparr>)"

section \<open>Phase heartbeat\<close>

definition phase_leased :: "int \<Rightarrow> int \<Rightarrow> int \<Rightarrow> job_row \<Rightarrow> bool" where
  "phase_leased repo job now r \<longleftrightarrow>
     jr_id r = job \<and> jr_repo_id r = repo \<and> jr_campaign_id r \<noteq> None \<and> jr_state r = Leased \<and>
     null_ge (jr_lease_expires_at r) now"

definition lease_until :: "int \<Rightarrow> int \<Rightarrow> int \<Rightarrow> int option \<Rightarrow> int option" where
  "lease_until now lease_seconds grace_seconds deadline =
    (case (i64_checked_add now lease_seconds,
           Option.bind deadline (\<lambda>at. i64_checked_add at grace_seconds)) of
       (Some lease, Some hard) \<Rightarrow> if min lease hard > now then Some (min lease hard) else None
     | _ \<Rightarrow> None)"

definition phase_heartbeat ::
  "int \<Rightarrow> int \<Rightarrow> int \<Rightarrow> int \<Rightarrow> int \<Rightarrow> db \<Rightarrow> (int \<times> db, storage_error) result" where
  "phase_heartbeat repo job now lease_seconds grace_seconds d =
    (if lease_seconds \<le> 0 \<or> grace_seconds \<le> 0 \<or> grace_seconds > lease_seconds
     then Err (ConflictErr CampaignPolicyConflict)
     else and_then (ok_or (find (phase_leased repo job now) (db_jobs d)) (ConflictErr JobStateConflict)) (\<lambda>r.
       and_then (ok_or (lease_until now lease_seconds grace_seconds (hard_deadline_at (jr_phase r)))
                   (ConflictErr JobStateConflict)) (\<lambda>until.
       and_then (exec_update_jobs (\<lambda>r. jr_id r = job \<and> jr_repo_id r = repo \<and> jr_state r = Leased)
                   (\<lambda>r. r\<lparr>jr_lease_expires_at := Some until\<rparr>) d) (\<lambda>(n, d').
         if n = 1 then Ok (until, d') else Err (ConflictErr JobStateConflict)))))"

section \<open>Facts\<close>

definition in_u32 :: "int \<Rightarrow> bool" where
  "in_u32 x \<longleftrightarrow> 0 \<le> x \<and> x \<le> 4294967295"

text \<open>The ranges of the integer fields of \<open>CampaignPolicyV2\<close>.\<close>

definition policy_v2_typed :: "campaign_policy_v2 \<Rightarrow> bool" where
  "policy_v2_typed p \<longleftrightarrow>
     list_all in_u32 [v2_version p, v2_max_attempts p, v2_max_units_per_survey p,
       v2_max_leads_per_survey p, v2_max_sibling_leads_per_drilldown p, v2_priority_policy_version p] \<and>
     list_all in_i64 [v2_survey_units_per_job p, v2_survey_deadline_seconds p,
       v2_survey_submit_margin_seconds p, v2_drilldown_deadline_seconds p,
       v2_drilldown_submit_margin_seconds p, v2_verify_deadline_seconds p,
       v2_verify_submit_margin_seconds p, v2_retry_backoff_base_seconds p,
       v2_retry_backoff_cap_seconds p, v2_campaign_deadline_seconds p, v2_campaign_max_jobs p,
       v2_campaign_urgent_reserve p, v2_campaign_verification_reserve p] \<and>
     list_all (\<lambda>b. case b of None \<Rightarrow> True | Some n \<Rightarrow> in_u64 n)
       [v2_survey_token_budget p, v2_drilldown_token_budget p, v2_verify_token_budget p]"

lemma classify_priority_bounds:
  "ap_score (classify_priority impact access reach cited supported) \<in> {0..550} \<and>
   (ap_band (classify_priority impact access reach cited supported) = Urgent \<longleftrightarrow>
      supported \<and> impact \<in> {ImpactHigh, ImpactCritical} \<and> access = Remote \<and> reach = Traced \<and> cited)"
  by (auto simp: classify_priority_def Let_def split: impact.splits access.splits)

lemma lease_until_Some:
  "lease_until now lease_seconds grace_seconds deadline = Some until \<Longrightarrow>
     \<exists>hard. deadline = Some hard \<and> now < until \<and> until \<le> now + lease_seconds \<and>
       until \<le> hard + grace_seconds \<and> (until = now + lease_seconds \<or> until = hard + grace_seconds)"
  by (auto simp: lease_until_def i64_checked_add_def checked_i64_def Option.bind_eq_Some_conv min_def
      split: option.splits if_splits)

text \<open>An accepted phase heartbeat moves the lease forward, never past the hard deadline and its grace.\<close>

lemma phase_heartbeat_Ok:
  assumes "phase_heartbeat repo job now lease_seconds grace_seconds d = Ok (until, d')"
  shows "\<exists>r \<in> set (db_jobs d). \<exists>hard. phase_leased repo job now r \<and>
    hard_deadline_at (jr_phase r) = Some hard \<and> now < until \<and> until \<le> now + lease_seconds \<and>
    until \<le> hard + grace_seconds \<and>
    d' = d\<lparr>db_jobs := sql_update (\<lambda>r. jr_id r = job \<and> jr_repo_id r = repo \<and> jr_state r = Leased)
           (\<lambda>r. r\<lparr>jr_lease_expires_at := Some until\<rparr>) (db_jobs d)\<rparr>"
proof -
  from assms obtain r n where r: "find (phase_leased repo job now) (db_jobs d) = Some r"
    and until: "lease_until now lease_seconds grace_seconds (hard_deadline_at (jr_phase r)) = Some until"
    and upd: "exec_update_jobs (\<lambda>r. jr_id r = job \<and> jr_repo_id r = repo \<and> jr_state r = Leased)
                (\<lambda>r. r\<lparr>jr_lease_expires_at := Some until\<rparr>) d = Ok (n, d')"
    by (auto simp: phase_heartbeat_def and_then_Ok_iff ok_or_Ok_iff split: if_splits)
  have "r \<in> set (db_jobs d)" "phase_leased repo job now r"
    using r by (auto simp: find_Some_iff)
  then show ?thesis
    using lease_until_Some[OF until] upd by (auto simp: exec_update_jobs_Ok)
qed

lemma backoff_exact:
  assumes "1 \<le> base" "cap \<le> i64_max"
  shows "min (i64_saturating_mul base (pow2_or_max e)) cap = min (base * 2 ^ e) cap"
proof (cases "(2::int) ^ e \<le> i64_max")
  case True
  have "0 < base * (2::int) ^ e" using assms(1) by simp
  moreover have "in_i64 (2 ^ e)"
    using True zero_less_power[of "2::int" e] unfolding in_i64_def i64_min_def by (intro conjI) linarith+
  ultimately show ?thesis
    using assms(2) by (auto simp: pow2_or_max_def checked_i64_def i64_saturating_mul_def sat_i64_def
        i64_min_def)
next
  case False
  have "base * i64_max \<ge> 1 * i64_max" by (rule mult_right_mono) (use assms(1) in \<open>simp_all add: i64_max_def\<close>)
  moreover have "base * 2 ^ e \<ge> 1 * (2::int) ^ e" by (rule mult_right_mono) (use assms(1) in simp_all)
  ultimately have "cap \<le> base * i64_max" "cap \<le> base * 2 ^ e" using assms(2) False by linarith+
  moreover have "pow2_or_max e = i64_max" using False by (simp add: pow2_or_max_def checked_i64_def in_i64_def)
  ultimately show ?thesis using assms(2) by (simp add: i64_saturating_mul_def sat_i64_def min_absorb2)
qed

lemma u32_or_max_cases: "u32_or_max n = n \<or> 63 \<le> u32_or_max n \<and> 63 \<le> n"
  by (simp add: u32_or_max_def)

lemma backoff_clamped:
  assumes "1 \<le> base" "cap \<le> i64_max"
  shows "min (base * 2 ^ u32_or_max n) cap = min (base * 2 ^ n) (cap::int)"
proof (cases "u32_or_max n = n")
  case False
  have big: "cap \<le> base * 2 ^ k" if "63 \<le> k" for k
  proof -
    have "(2::int) ^ 63 \<le> 2 ^ k" using that by (rule power_increasing) simp
    moreover have "base * 2 ^ k \<ge> 1 * (2::int) ^ k" by (rule mult_right_mono) (use assms(1) in simp_all)
    moreover have "i64_max \<le> 2 ^ 63" by (simp add: i64_max_def)
    ultimately show ?thesis using assms(2) by linarith
  qed
  show ?thesis using False u32_or_max_cases[of n] by (simp add: big min_absorb2)
qed simp

lemma v2_validate_Ok:
  "v2_validate p = Ok u \<longleftrightarrow>
     policy_validate (v2_execution p) = Ok () \<and> v2_version p = 2 \<and>
     v2_priority_policy_version p = PRIORITY_POLICY_VERSION \<and> v2_max_units_per_survey p \<noteq> 0 \<and>
     v2_max_leads_per_survey p \<noteq> 0 \<and> v2_max_sibling_leads_per_drilldown p \<noteq> 0 \<and>
     0 \<le> v2_campaign_urgent_reserve p \<and> 0 \<le> v2_campaign_verification_reserve p \<and>
     in_i64 (v2_campaign_urgent_reserve p + v2_campaign_verification_reserve p) \<and>
     v2_campaign_urgent_reserve p + v2_campaign_verification_reserve p < v2_campaign_max_jobs p"
  by (auto simp: v2_validate_def and_then_Ok_iff i64_checked_add_def checked_i64_def split: if_splits)

lemma policy_validate_Ok:
  "policy_validate p = Ok u \<Longrightarrow>
     1 \<le> cp_retry_backoff_base_seconds p \<and>
     cp_retry_backoff_base_seconds p \<le> cp_retry_backoff_cap_seconds p \<and>
     phase_valid p Survey \<and> phase_valid p Drilldown \<and> phase_valid p Verify"
  by (auto simp: policy_validate_def split: if_splits)

text \<open>The two plain subtractions of \<open>general_capacity\<close> stay in range on a validated policy.\<close>

lemma general_capacity_exact:
  assumes "policy_v2_typed p" and "v2_validate p = Ok ()"
  shows "general_capacity p =
    Ok (v2_campaign_max_jobs p - v2_campaign_urgent_reserve p - v2_campaign_verification_reserve p)"
proof -
  have "in_i64 (v2_campaign_max_jobs p - v2_campaign_urgent_reserve p)"
      "in_i64 (v2_campaign_max_jobs p - v2_campaign_urgent_reserve p - v2_campaign_verification_reserve p)"
    using assms by (simp_all add: policy_v2_typed_def v2_validate_Ok i64_bounds)
  then show ?thesis using assms(2) by (simp add: general_capacity_def wrap_i64_id)
qed

lemma phase_valid_Ok:
  "phase_valid p kind \<Longrightarrow> \<exists>ph. policy_phase p kind = Ok ph \<and> 0 \<le> ph_submit_margin_seconds ph \<and>
     ph_submit_margin_seconds ph < ph_deadline_seconds ph \<and>
     ph_deadline_seconds ph \<le> cp_campaign_deadline_seconds p"
  by (auto simp: phase_valid_def split: result.splits)

section \<open>Properties\<close>

text \<open>
  C40: What a validated campaign policy guarantees, at machine width. The retry delay and
  the delay of a logical continuation are exactly the base doubled once per earlier
  attempt and capped: no power, product or exponent conversion overflows into another
  value, so both lie between base and cap. The time a continuation becomes eligible is
  that delay after now, or a refusal when the sum leaves the range of an i64. The general
  capacity is positive and with the two reserves makes up the job limit. Each of the three
  phases has a deadline inside the campaign's, with a submission margin shorter than it.
\<close>

theorem campaign_policy_sound:
  assumes "policy_v2_typed p" and "v2_validate p = Ok ()" and "0 < sequence"
  defines "base \<equiv> v2_retry_backoff_base_seconds p" and "cap \<equiv> v2_retry_backoff_cap_seconds p"
  shows "v2_retry_delay p attempt = min (base * 2 ^ (attempt - 1)) cap \<and>
    logical_delay p sequence = Ok (min (base * 2 ^ (sequence - 1)) cap) \<and>
    v2_retry_delay p attempt \<in> {base..cap} \<and>
    logical_not_before p now sequence =
      (if in_i64 (now + min (base * 2 ^ (sequence - 1)) cap)
       then Ok (now + min (base * 2 ^ (sequence - 1)) cap) else Err (ConflictErr CampaignPolicyConflict)) \<and>
    (\<exists>c > 0. general_capacity p = Ok c \<and>
       c + v2_campaign_urgent_reserve p + v2_campaign_verification_reserve p = v2_campaign_max_jobs p) \<and>
    (\<forall>kind \<in> {Survey, Drilldown, Verify}. \<exists>ph. v2_phase p kind = Ok ph \<and>
       0 \<le> ph_submit_margin_seconds ph \<and> ph_submit_margin_seconds ph < ph_deadline_seconds ph \<and>
       ph_deadline_seconds ph \<le> v2_campaign_deadline_seconds p)"
proof -
  have valid: "policy_validate (v2_execution p) = Ok ()" using assms(2) by (simp add: v2_validate_Ok)
  note parts = policy_validate_Ok[OF valid]
  have base: "1 \<le> base" "base \<le> cap" using parts by (simp_all add: v2_execution_def base_def cap_def)
  have cap: "cap \<le> i64_max" using assms(1) by (simp add: policy_v2_typed_def in_i64_def cap_def)
  have retry: "v2_retry_delay p attempt = min (base * 2 ^ (attempt - 1)) cap"
    using backoff_exact[OF base(1) cap]
    by (simp add: v2_retry_delay_def retry_delay_def v2_execution_def base_def cap_def)
  have delay: "logical_delay p sequence = Ok (min (base * 2 ^ (sequence - 1)) cap)"
    using assms(2,3) backoff_exact[OF base(1) cap] backoff_clamped[OF base(1) cap, of "sequence - 1"]
    by (simp add: logical_delay_def base_def cap_def)
  have "base * 1 \<le> base * 2 ^ (attempt - 1)" by (rule mult_left_mono) (use base(1) in simp_all)
  then have range: "v2_retry_delay p attempt \<in> {base..cap}" using retry base(2) by simp
  have next_time: "logical_not_before p now sequence =
      (if in_i64 (now + min (base * 2 ^ (sequence - 1)) cap)
       then Ok (now + min (base * 2 ^ (sequence - 1)) cap) else Err (ConflictErr CampaignPolicyConflict))"
    by (simp add: logical_not_before_def delay i64_checked_add_def checked_i64_def)
  have capacity: "general_capacity p =
      Ok (v2_campaign_max_jobs p - v2_campaign_urgent_reserve p - v2_campaign_verification_reserve p)"
    using general_capacity_exact[OF assms(1,2)] .
  have phases: "\<forall>kind \<in> {Survey, Drilldown, Verify}. \<exists>ph. v2_phase p kind = Ok ph \<and>
       0 \<le> ph_submit_margin_seconds ph \<and> ph_submit_margin_seconds ph < ph_deadline_seconds ph \<and>
       ph_deadline_seconds ph \<le> v2_campaign_deadline_seconds p"
    using parts phase_valid_Ok[of "v2_execution p"] by (simp add: v2_phase_def v2_execution_def)
  show ?thesis
    using retry delay range next_time capacity phases assms(2) by (simp add: v2_validate_Ok)
qed

theorem campaign_policy_sound_witness:
  "policy_v2_typed campaign_policy_v2_default \<and> v2_validate campaign_policy_v2_default = Ok () \<and>
   logical_delay campaign_policy_v2_default 4 = Ok 480 \<and>
   logical_delay campaign_policy_v2_default 9 = Ok 3600 \<and>
   (\<exists>c > 0. general_capacity campaign_policy_v2_default = Ok c \<and> c + 4 + 4 = 64)"
proof -
  let ?p = campaign_policy_v2_default
  have typed: "policy_v2_typed ?p"
    by (simp add: policy_v2_typed_def campaign_policy_v2_default_def campaign_policy_default_def in_u32_def
        i64_bounds PRIORITY_POLICY_VERSION_def)
  have valid: "v2_validate ?p = Ok ()"
    by (simp add: v2_validate_def policy_validate_def phase_valid_def policy_phase_def v2_execution_def
        campaign_policy_v2_default_def campaign_policy_default_def i64_ops i64_bounds)
  have fields: "v2_retry_backoff_base_seconds ?p = 60" "v2_retry_backoff_cap_seconds ?p = 3600"
      "v2_campaign_max_jobs ?p = 64" "v2_campaign_urgent_reserve ?p = 4"
      "v2_campaign_verification_reserve ?p = 4"
    by (simp_all add: campaign_policy_v2_default_def campaign_policy_default_def)
  show ?thesis
    using campaign_policy_sound[OF typed valid, of 4 1 0] campaign_policy_sound[OF typed valid, of 9 1 0]
      typed valid by (simp add: fields)
qed

end
