(* ===== verification/Spec2Isabelle.thy ===== *)
theory Spec2Isabelle
  imports Guarantees Delivery Ingress Json_Value Prompt Citation_Check Worker_Routes
    Checkpoints Campaign_Policy
begin

text \<open>
  A verification library for Loupe, a service that schedules security reviews of source
  repositories. A server keeps jobs and findings in an SQLite database; workers lease jobs,
  run scanners and language models in a sandbox, and submit findings and verdicts;
  operators approve findings, which reporters then deliver.

  \<^bold>\<open>Reading guide.\<close> Theories follow the crates under \<open>src/crates\<close>.

  \<^item> \<open>Prelude\<close>: the result type of fallible code, machine integers as \<open>int\<close> with wrapping, checked
    and saturating operations, and SQL statements on a table (a list of rows):
    \<open>sql_update\<close>, \<open>sql_delete\<close>, \<open>sql_count\<close>, row ids, \<open>NULL\<close> comparisons.
  \<^item> \<open>State_Machine\<close> (\<open>loupe-core\<close>: \<open>state_machine.rs\<close>, \<open>job.rs\<close>, \<open>finding_state.rs\<close>,
    \<open>severity.rs\<close>): the vocabularies with their spellings and the transition tables
    \<open>job_apply\<close> and \<open>finding_apply\<close>.
  \<^item> \<open>Store\<close>, \<open>Scope\<close> (\<open>loupe-storage\<close>: schema, \<open>repos.rs\<close>, \<open>scope.rs\<close>): the record \<open>db\<close>
    of tables with their unique indexes, and the ownership scopes of callers.
  \<^item> \<open>Findings\<close>, \<open>Jobs\<close>, \<open>Claim\<close>, \<open>Reports\<close>, \<open>Recovery\<close> (\<open>findings.rs\<close>, \<open>jobs.rs\<close>,
    \<open>scheduler/claim.rs\<close>, \<open>reports.rs\<close>, \<open>recovery.rs\<close>): one definition per storage function, from a database to a
    result and a new database. An error returns no database: its transaction is rolled back.
  \<^item> \<open>Pipeline\<close> collects these functions as the relation \<open>server_step\<close> and shows that
    each keeps the invariant \<open>store_wf\<close> and moves rows only as the state machines allow.
    \<open>Guarantees\<close> draws the consequences for every reachable store. \<open>Leases\<close>,
    \<open>Queue_Control\<close>, \<open>Retry\<close> and \<open>Delivery\<close> prove the exact effect of claiming, lease-bound
    requests, completion, cancelling, reaping, retrying, recovery, report marking, scan
    completion and verdicts.
  \<^item> \<open>Request_Budget\<close>, \<open>Ingress\<close> (\<open>loupe-server\<close>: \<open>request_budget.rs\<close>, \<open>ingress/mod.rs\<close>): token buckets per
    worker and the bounded, wiped body buffer. The clock is an argument. \<open>charge_at\<close> refines a ledger of
    exact credits; from that follow the rate limits.
  \<^item> \<open>Worker_Routes\<close> (\<open>job_capability.rs\<close>, \<open>routes/jobs.rs\<close>): the routes by which a worker acts on its job, composed
    from authorisation and the storage functions; each of their transactions is a sequence of server steps.
  \<^item> \<open>Checkpoints\<close> (\<open>checkpoints.rs\<close>): replay records of review submissions, around arbitrary domain writes.
  \<^item> \<open>Campaign_Policy\<close> (\<open>scheduler/policy.rs\<close>, \<open>admission_policy.rs\<close>, the heartbeat of
    \<open>phase_lifecycle.rs\<close>): frozen campaign limits, their validation and the delays computed from them.
  \<^item> \<open>Bounded_Text\<close>, \<open>Json_String\<close>, \<open>Json_Value\<close> (\<open>loupe-core/src/text\<close>, \<open>canonical.rs\<close>):
    validated text, paths, anchors, JSON tokens and bounded JSON values. A string is the
    list of its code points.
  \<^item> \<open>Prompt\<close> (\<open>loupe-worker/src/llm/prompt.rs\<close>): prompts with data spans.
  \<^item> \<open>Worker_Streams\<close> (\<open>mcp/framing.rs\<close>, \<open>llm/cli_output.rs\<close>): record framing and output capture.
  \<^item> \<open>Text_Search\<close>, \<open>Fingerprint\<close>, \<open>Citation\<close>, \<open>Citation_Check\<close> (\<open>mcp/citation.rs\<close>,
    \<open>mcp/citation/fingerprint.rs\<close>, \<open>fingerprint.rs\<close>): the streaming search for quoted source text, the
    incremental fingerprint, and the check of a citation against a file.

  \<^bold>\<open>Interfaces.\<close> Locales state what clients rely on: \<open>vocabulary\<close> (spelling and parsing are
  inverse), \<open>lifecycle\<close> (a transition table with final states), \<open>row_update\<close> (an update that keeps
  keys), \<open>finding_update\<close> and \<open>job_update\<close> (an update that keeps a row's identity and follows its state
  machine) and \<open>releasing_update\<close> (one that also gives the lease up). Each is interpreted on the
  model's own operations in the theory that defines them.

  \<^bold>\<open>Parameters.\<close> Code outside the repository is an argument: the Unicode tables (with the law
  \<open>unicode_laws\<close>), the parser, renderer and digest of JSON documents (\<open>json_codec\<close>), the random generator of
  the prompt renderer, the case tables of \<open>to_lowercase\<close> (with the law \<open>case_laws\<close>), the hash function of
  fingerprints and of checkpoint digests, the decoding of a policy, the answers of a cancellation token, clocks and
  fresh capability hashes. A worker route takes the decoding of its request, the hash of the presented
  capability and the report and shape checks it calls as an environment. A stream of request chunks is
  a list in which a chunk that failed to arrive is \<open>None\<close>.

  \<^bold>\<open>Bounds.\<close> No definition needs fuel: every loop is structural or has a termination
  proof by the length of its input, except the fall-back loop of the search, a partial
  function that is proved to return. \<open>i64\<close> and \<open>u64\<close> quantities are \<open>int\<close> with the
  source's overflow behaviour written out; \<open>usize\<close> lengths are \<open>nat\<close>, checked against
  their caps.

  \<^bold>\<open>Not modelled.\<close> Deletion of a repository, which cascades over all its rows. The campaign workflow over
  its own tables (generations, inventories, units, leads, intents, holds), hence the campaign kinds of a
  claim and the retrying and cancelling of phase jobs, which write those tables; of the campaign code only
  the checkpoints, the policies and the phase heartbeat stand alone. Poisoned mutexes and failing
  allocations. Migrations. The router, authentication, request decoding, long polling and the operator
  routes; TLS, the web and command line front ends, reporters, and the worker's process, file system and
  network code. Source labels, which are types without run-time content.
\<close>

end
